(* ===== verification/Rish_Prelude.thy ===== *)
theory Rish_Prelude
  imports Main "HOL-Library.Word"
begin

text \<open>
  Shared vocabulary of the development: the machine integer types, Rust's checked and saturating
  arithmetic, little-endian byte codecs, byte ranges of a slice, and the generic lemmas about them
  that the component theories use.

  Integers keep the width they have in the source (\<open>u8\<close> .. \<open>u64\<close> are words, so \<open>+\<close>, \<open>-\<close> and \<open>*\<close>
  wrap as they do in the release profile of the workspace); \<open>usize\<close> lengths and slice indices are
  natural numbers, \<open>u128\<close> values are natural numbers where the source only adds and compares them
  and never gets near its bound. A Rust \<open>Result<T, E>\<close> is \<open>E + T\<close>, with \<open>Inl\<close> the error.
\<close>

unbundle bit_operations_syntax

section \<open>Types\<close>

type_synonym u8 = "8 word"
type_synonym u16 = "16 word"
type_synonym u32 = "32 word"
type_synonym u64 = "64 word"
type_synonym bytes = "u8 list"

section \<open>Collections of facts\<close>

named_theorems mem_simps \<open>byte-range reads and writes\<close>
named_theorems wf_intros \<open>well-formedness of states\<close>

section \<open>Results\<close>

definition is_ok :: "'e + 'a \<Rightarrow> bool" where
  "is_ok r = (case r of Inl _ \<Rightarrow> False | Inr _ \<Rightarrow> True)"

lemma is_ok_simps [simp]: "is_ok (Inr x)" "\<not> is_ok (Inl e)"
  by (simp_all add: is_ok_def)

lemma is_okE: "is_ok r \<Longrightarrow> \<exists>x. r = Inr x"
  by (cases r) (auto simp: is_ok_def)

definition bind_res :: "'e + 'a \<Rightarrow> ('a \<Rightarrow> 'e + 'b) \<Rightarrow> 'e + 'b" where
  "bind_res r k = (case r of Inl e \<Rightarrow> Inl e | Inr x \<Rightarrow> k x)"

lemma bind_res_simps [simp]:
  "bind_res (Inl e) k = Inl e"
  "bind_res (Inr x) k = k x"
  by (simp_all add: bind_res_def)

lemma bind_res_eq_Inr: "bind_res r k = Inr y \<longleftrightarrow> (\<exists>x. r = Inr x \<and> k x = Inr y)"
  by (cases r) auto

lemma bind_res_eq_Inl: "bind_res r k = Inl e \<longleftrightarrow> r = Inl e \<or> (\<exists>x. r = Inr x \<and> k x = Inl e)"
  by (cases r) auto

section \<open>Checked and saturating arithmetic\<close>

definition checked_add :: "'a::len word \<Rightarrow> 'a word \<Rightarrow> 'a word option" where
  "checked_add a b = (if unat a + unat b < 2 ^ LENGTH('a) then Some (a + b) else None)"

definition saturating_add :: "'a::len word \<Rightarrow> 'a word \<Rightarrow> 'a word" where
  "saturating_add a b = (if unat a + unat b < 2 ^ LENGTH('a) then a + b else - 1)"

definition saturating_mul :: "'a::len word \<Rightarrow> 'a word \<Rightarrow> 'a word" where
  "saturating_mul a b = (if unat a * unat b < 2 ^ LENGTH('a) then a * b else - 1)"

lemma unat_bound: "unat w < 2 ^ LENGTH('a)" for w :: "'a::len word"
  by (rule unsigned_less)

lemma unat_of_nat_small: "n < 2 ^ LENGTH('a) \<Longrightarrow> unat (of_nat n :: 'a::len word) = n"
  by (simp add: unat_of_nat take_bit_nat_eq_self)

lemma word_of_nat_eqI: "unat w = n \<Longrightarrow> w = of_nat n" for w :: "'a::len word"
  by auto

lemma unat_ucast_mod: "unat (ucast w :: 'b::len word) = unat w mod 2 ^ LENGTH('b)" for w :: "'a::len word"
  by (simp add: unsigned_ucast_eq take_bit_eq_mod)

lemma unat_ucast_up:
  fixes w :: "'a::len word"
  assumes "LENGTH('a) \<le> LENGTH('b)"
  shows "unat (ucast w :: 'b::len word) = unat w"
proof -
  have "unat w < 2 ^ LENGTH('b)"
    using unat_bound [of w] power_increasing [OF assms, of "2 :: nat"] by linarith
  then show ?thesis by (simp add: unat_ucast_mod)
qed

lemma ucast_up_down:
  fixes w :: "'a::len word"
  assumes "LENGTH('a) \<le> LENGTH('b)"
  shows "ucast (ucast w :: 'b::len word) = w"
  using unat_bound [of w] by (simp add: word_unat_eq_iff unat_ucast_mod [of "ucast w"] unat_ucast_up [OF assms])

lemma unat_add_no_wrap:
  fixes a b :: "'a::len word"
  shows "unat a + unat b < 2 ^ LENGTH('a) \<Longrightarrow> unat (a + b) = unat a + unat b"
  by (simp add: unat_word_ariths)

lemma unat_mult_no_wrap:
  fixes a b :: "'a::len word"
  shows "unat a * unat b < 2 ^ LENGTH('a) \<Longrightarrow> unat (a * b) = unat a * unat b"
  by (simp add: unat_word_ariths)

lemma checked_add_Some:
  fixes a b c :: "'a::len word"
  shows "checked_add a b = Some c \<longleftrightarrow> unat a + unat b < 2 ^ LENGTH('a) \<and> c = a + b"
  by (auto simp: checked_add_def)

lemma checked_add_unat: "checked_add a b = Some c \<Longrightarrow> unat c = unat a + unat b"
  by (auto simp: checked_add_Some unat_add_no_wrap)

lemma unat_saturating_add:
  fixes a b :: "'a::len word"
  shows "unat (saturating_add a b) = min (unat a + unat b) (2 ^ LENGTH('a) - 1)"
proof (cases "unat a + unat b < 2 ^ LENGTH('a)")
  case True
  then show ?thesis by (simp add: saturating_add_def unat_add_no_wrap)
next
  case False
  then show ?thesis by (simp add: saturating_add_def unsigned_minus_1_eq_mask mask_eq_exp_minus_1)
qed

lemma unat_saturating_mul:
  fixes a b :: "'a::len word"
  shows "unat (saturating_mul a b) = min (unat a * unat b) (2 ^ LENGTH('a) - 1)"
proof (cases "unat a * unat b < 2 ^ LENGTH('a)")
  case True
  then show ?thesis by (simp add: saturating_mul_def unat_mult_no_wrap)
next
  case False
  then show ?thesis by (simp add: saturating_mul_def unsigned_minus_1_eq_mask mask_eq_exp_minus_1)
qed


section \<open>Single bits\<close>

text \<open>\<open>shl1 k\<close> is \<open>1 << k\<close>; the source shifts by less than the width.\<close>

definition shl1 :: "nat \<Rightarrow> 'a::len word" where
  "shl1 k = push_bit k 1"

lemma bit_shl1 [simp]: "bit (shl1 k :: 'a::len word) i \<longleftrightarrow> i = k \<and> k < LENGTH('a)"
  by (auto simp: shl1_def bit_exp_iff)

lemma and_shl1_eq_0 [simp]: "w AND shl1 k = 0 \<longleftrightarrow> \<not> bit w k" for w :: "'a::len word"
proof
  assume "w AND shl1 k = 0"
  then have "bit (w AND shl1 k) k = bit (0 :: 'a word) k" by simp
  then show "\<not> bit w k"
    by (auto simp: bit_and_iff dest: bit_imp_le_length)
next
  assume "\<not> bit w k"
  then show "w AND shl1 k = 0"
    by (intro bit_word_eqI) (auto simp: bit_and_iff)
qed

lemma word_eq_0_iff_bits: "w = 0 \<longleftrightarrow> (\<forall>i < LENGTH('a). \<not> bit w i)" for w :: "'a::len word"
  by (auto intro: bit_word_eqI)

lemmas bit_logic = bit_and_iff bit_or_iff bit_xor_iff bit_not_iff

section \<open>Byte ranges of a slice\<close>

text \<open>
  \<open>slice a n xs\<close> is \<open>xs[a..a + n]\<close> and \<open>splice a bs xs\<close> is \<open>xs\<close> after
  \<open>xs[a..a + bs.len()].copy_from_slice(bs)\<close>. Both are used only where the range is inside \<open>xs\<close>;
  the source checks it, or panics.
\<close>

definition slice :: "nat \<Rightarrow> nat \<Rightarrow> 'a list \<Rightarrow> 'a list" where
  "slice a n xs = take n (drop a xs)"

definition splice :: "nat \<Rightarrow> 'a list \<Rightarrow> 'a list \<Rightarrow> 'a list" where
  "splice a ys xs = take a xs @ ys @ drop (a + length ys) xs"

lemma length_slice [simp]: "a + n \<le> length xs \<Longrightarrow> length (slice a n xs) = n"
  by (simp add: slice_def)

lemma length_splice [simp]: "a + length ys \<le> length xs \<Longrightarrow> length (splice a ys xs) = length xs"
  by (simp add: splice_def)

lemma slice_0 [simp]: "slice a 0 xs = []"
  by (simp add: slice_def)

lemma splice_Nil [simp]: "splice a [] xs = xs"
  by (simp add: splice_def)

lemma nth_slice: "a + n \<le> length xs \<Longrightarrow> i < n \<Longrightarrow> slice a n xs ! i = xs ! (a + i)"
  by (simp add: slice_def)

lemma nth_splice:
  assumes "a + length ys \<le> length xs" "i < length xs"
  shows "splice a ys xs ! i = (if a \<le> i \<and> i < a + length ys then ys ! (i - a) else xs ! i)"
  using assms by (auto simp: splice_def nth_append min_def)

lemma slice_splice_same [mem_simps]:
  "a + length ys \<le> length xs \<Longrightarrow> slice a (length ys) (splice a ys xs) = ys"
  by (simp add: slice_def splice_def)

lemma slice_splice_disjoint [mem_simps]:
  assumes "a + n \<le> length xs" "b + length ys \<le> length xs" "a + n \<le> b \<or> b + length ys \<le> a"
  shows "slice a n (splice b ys xs) = slice a n xs"
proof (rule nth_equalityI)
  show "length (slice a n (splice b ys xs)) = length (slice a n xs)"
    using assms by simp
next
  fix i
  assume "i < length (slice a n (splice b ys xs))"
  with assms have "i < n" by simp
  with assms show "slice a n (splice b ys xs) ! i = slice a n xs ! i"
    by (auto simp: nth_slice nth_splice)
qed

lemma slice_append: "slice a (n + k) xs = slice a n xs @ slice (a + n) k xs"
  by (simp only: slice_def take_add drop_drop add.commute [of n a])

lemma splice_append:
  assumes "a + length ys + length zs \<le> length xs"
  shows "splice a (ys @ zs) xs = splice (a + length ys) zs (splice a ys xs)"
proof (rule nth_equalityI)
  show "length (splice a (ys @ zs) xs) = length (splice (a + length ys) zs (splice a ys xs))"
    using assms by simp
next
  fix i
  assume "i < length (splice a (ys @ zs) xs)"
  with assms have "i < length xs" by simp
  with assms show "splice a (ys @ zs) xs ! i = splice (a + length ys) zs (splice a ys xs) ! i"
    by (auto simp: nth_splice nth_append)
qed

lemma splice_slice_id: "a + n \<le> length xs \<Longrightarrow> splice a (slice a n xs) xs = xs"
  by (rule nth_equalityI) (auto simp: nth_splice nth_slice)

section \<open>Little-endian codecs\<close>

text \<open>\<open>to_le n\<close> is \<open>to_le_bytes\<close> of an \<open>8 * n\<close>-bit integer and \<open>from_le\<close> is \<open>from_le_bytes\<close>.\<close>

definition to_le :: "nat \<Rightarrow> 'a::len word \<Rightarrow> bytes" where
  "to_le n w = map (\<lambda>i. ucast (drop_bit (8 * i) w)) [0..<n]"

primrec from_le :: "bytes \<Rightarrow> 'a::len word" where
  "from_le [] = 0"
| "from_le (b # bs) = ucast b OR push_bit 8 (from_le bs)"

lemma length_to_le [simp]: "length (to_le n w) = n"
  by (simp add: to_le_def)

lemma bit_from_le:
  "bit (from_le bs :: 'a::len word) i \<longleftrightarrow>
     i < LENGTH('a) \<and> i div 8 < length bs \<and> bit (bs ! (i div 8)) (i mod 8)"
proof (induction bs arbitrary: i)
  case Nil
  then show ?case by simp
next
  case (Cons b bs)
  show ?case
  proof (cases "i < 8")
    case True
    then show ?thesis
      by (auto simp: bit_or_iff bit_push_bit_iff bit_unsigned_iff)
  next
    case False
    then have "i div 8 = Suc ((i - 8) div 8)" "i mod 8 = (i - 8) mod 8"
      by (simp_all add: le_div_geq le_mod_geq)
    moreover have "\<not> bit b i"
      using False bit_imp_le_length[of b i] by auto
    ultimately show ?thesis
      using False Cons[of "i - 8"]
      by (auto simp: bit_or_iff bit_push_bit_iff bit_unsigned_iff)
  qed
qed

lemma from_le_to_le:
  assumes "8 * n = LENGTH('a::len)"
  shows "from_le (to_le n (w :: 'a word)) = w"
proof (rule bit_word_eqI)
  fix i
  assume i: "i < LENGTH('a)"
  then have "i div 8 < n" using assms by simp
  with i show "bit (from_le (to_le n w) :: 'a word) i = bit w i"
    by (simp add: bit_from_le to_le_def bit_unsigned_iff bit_drop_bit_eq)
qed

lemmas le_round_trip [simp] =
  from_le_to_le [where 'a = 16 and n = 2, simplified]
  from_le_to_le [where 'a = 32 and n = 4, simplified]
  from_le_to_le [where 'a = 64 and n = 8, simplified]


text \<open>
  Rust's \<open>1 << k\<close> with a run-time \<open>k\<close>: the release build masks the shift amount to the width.
\<close>

definition wshl1 :: "nat \<Rightarrow> 'a::len word" where
  "wshl1 k = shl1 (k mod LENGTH('a))"

lemma wshl1_in_range: "k < LENGTH('a) \<Longrightarrow> (wshl1 k :: 'a::len word) = shl1 k"
  by (simp add: wshl1_def)

lemma bit_wshl1 [simp]:
  "bit (wshl1 k :: 'a::len word) i \<longleftrightarrow> i = k mod LENGTH('a)"
  by (auto simp: wshl1_def)

section \<open>First match of a list\<close>

lemma find_append: "find P (xs @ ys) = (case find P xs of None \<Rightarrow> find P ys | Some x \<Rightarrow> Some x)"
  by (induction xs) auto

lemma find_map: "find P (map f xs) = map_option f (find (P \<circ> f) xs)"
  by (induction xs) auto

lemma find_cong_set: "(\<And>x. x \<in> set xs \<Longrightarrow> P x = Q x) \<Longrightarrow> find P xs = find Q xs"
  by (induction xs) auto

lemma find_SomeD: "find P xs = Some x \<Longrightarrow> x \<in> set xs \<and> P x"
  by (induction xs) (auto split: if_splits)

section \<open>Phase of a periodic countdown\<close>

text \<open>
  The count of a down counter with period \<open>T\<close> after \<open>n\<close> ticks, from \<open>left\<close>: the timer of the
  local APIC and the periodic modes of the 8254 both follow it.
\<close>

definition phase_step :: "nat \<Rightarrow> nat \<Rightarrow> nat \<Rightarrow> nat" where
  "phase_step T left n = (if n < left then left - n else T - (n - left) mod T)"

lemma phase_step_add:
  assumes "0 < left" "left \<le> T"
  shows "phase_step T (phase_step T left a) b = phase_step T left (a + b)"
proof (cases "a < left")
  case True
  then show ?thesis by (auto simp: phase_step_def add.commute)
next
  case False
  then obtain k where k: "a = left + k" using le_Suc_ex not_less by blast
  have T: "0 < T" using assms by simp
  let ?r = "k mod T"
  have r: "?r < T" using T by simp
  show ?thesis
  proof (cases "b < T - ?r")
    case True
    then have "?r + b < T" using r by simp
    then have "(k + b) mod T = ?r + b" by (metis mod_add_left_eq mod_less)
    with True k show ?thesis by (simp add: phase_step_def)
  next
    case False
    then have "b - (T - ?r) = ?r + b - T" using r by simp
    moreover have "(?r + b - T) mod T = (k + b) mod T"
      using False r by (metis add.commute le_mod_geq le_diff_conv mod_add_left_eq not_less)
    ultimately show ?thesis using False k by (simp add: phase_step_def)
  qed
qed

text \<open>The two updates of such a counter in machine arithmetic: the source widens to 64 bits.\<close>

lemma countdown_sub:
  fixes c :: "'a::len word" and e :: u64
  assumes "unat e < unat c"
  shows "c - ucast e = of_nat (unat c - unat e)"
proof (rule word_of_nat_eqI)
  have "unat (ucast e :: 'a word) = unat e"
    unfolding unat_ucast_mod by (rule mod_less [OF less_trans [OF assms unat_bound]])
  with assms show "unat (c - ucast e) = unat c - unat e" by (simp add: unat_sub word_le_nat_alt)
qed

lemma countdown_reload:
  fixes c i :: "'a::len word" and e :: u64
  assumes "unat c \<le> unat e" "i \<noteq> 0" "LENGTH('a) \<le> 64"
  shows "ucast (ucast i - (e - ucast c) mod ucast i :: u64)
    = (of_nat (unat i - (unat e - unat c) mod unat i) :: 'a word)"
proof (rule word_of_nat_eqI)
  let ?o = "(e - ucast c) mod ucast i :: u64"
  have i: "0 < unat i" "unat i < 2 ^ LENGTH('a)" using assms(2) unat_bound [of i] by (simp_all add: unat_gt_0)
  have up: "unat (ucast i :: u64) = unat i" "unat (ucast c :: u64) = unat c"
    using assms(3) by (simp_all add: unat_ucast_up)
  have o: "unat ?o = (unat e - unat c) mod unat i"
    using assms(1) by (simp add: unat_mod unat_sub word_le_nat_alt up)
  then have "unat ?o \<le> unat i" using i by (simp add: less_imp_le)
  then have "unat (ucast i - ?o) = unat i - (unat e - unat c) mod unat i"
    by (simp add: unat_sub word_le_nat_alt up o)
  then show "unat (ucast (ucast i - ?o) :: 'a word) = unat i - (unat e - unat c) mod unat i"
    unfolding unat_ucast_mod by (simp only: mod_less [OF le_less_trans [OF diff_le_self i(2)]])
qed

end
