(* ===== verification/Cpu_Error.thy ===== *)
theory Cpu_Error
  imports Rish_Prelude
begin

text \<open>
  The error surface of the interpreter (\<open>error.rs\<close>). The messages the source formats with
  interpolated addresses are kept as their fixed text. \<open>HostPanic\<close> is not a constructor of the
  source: it stands for a Rust panic (an out-of-range slice index), so that a panic of the code is
  a value of the model and its absence is something to prove.
\<close>

datatype cpu_error =
    InvalidConfig string
  | GuestFault string
  | PageFaultError u64 u16
  | UnimplementedInstruction string u64 bytes
  | TripleFault
  | Halted
  | HostPanic string

end
