(* ===== verification/Port_Bus.thy ===== *)
theory Port_Bus
  imports Cpu_Error
begin

text \<open>
  The port I/O bus of \<open>devices/mod.rs\<close>: the \<open>PortDevice\<close> trait as a record of its two methods, and
  the \<open>PortBus\<close> that dispatches by the first attached range that contains the port. The locale
  \<open>port_device\<close> is the contract every device model of the chipset meets: under the device's
  invariant both methods return (no error, no panic) and keep the invariant. Its instances are the
  interpretations \<open>pic_port\<close>, \<open>pit_port\<close>, \<open>uart_port\<close> and \<open>cmos_port\<close> of the device theories.
\<close>

section \<open>The trait and the bus\<close>

record 's port_ops =
  pd_read :: "'s \<Rightarrow> u16 \<Rightarrow> u8 \<Rightarrow> cpu_error + u32 \<times> 's"
  pd_write :: "'s \<Rightarrow> u16 \<Rightarrow> u8 \<Rightarrow> u32 \<Rightarrow> cpu_error + 's"

record 's port_bus =
  devices :: "(u16 \<times> u16 \<times> 's) list"
  claimed :: "u16 set"

definition bus_default :: "'s port_bus" where
  "bus_default = \<lparr>devices = [], claimed = {}\<rparr>"

definition in_port_range :: "u16 \<Rightarrow> u16 \<times> u16 \<times> 's \<Rightarrow> bool" where
  "in_port_range port d = (case d of (base, sz, _) \<Rightarrow> base \<le> port \<and> port < saturating_add base sz)"

definition bus_attach :: "'s port_bus \<Rightarrow> u16 \<Rightarrow> u16 \<Rightarrow> 's \<Rightarrow> 's port_bus" where
  "bus_attach b base sz d =
     b\<lparr>devices := devices b @ [(base, sz, d)],
       claimed := claimed b \<union> {base..<saturating_add base sz}\<rparr>"

text \<open>\<open>find\<close> yields a mutable reference into the vector; the model yields the index.\<close>

fun find_index :: "('a \<Rightarrow> bool) \<Rightarrow> 'a list \<Rightarrow> nat option" where
  "find_index P [] = None"
| "find_index P (x # xs) = (if P x then Some 0 else map_option Suc (find_index P xs))"

definition bus_find :: "'s port_bus \<Rightarrow> u16 \<Rightarrow> nat option" where
  "bus_find b port = find_index (in_port_range port) (devices b)"

definition bus_set_device :: "'s port_bus \<Rightarrow> nat \<Rightarrow> 's \<Rightarrow> 's port_bus" where
  "bus_set_device b i d =
     b\<lparr>devices := (devices b)[i := (case devices b ! i of (base, sz, _) \<Rightarrow> (base, sz, d))]\<rparr>"

definition bus_read :: "'s port_ops \<Rightarrow> 's port_bus \<Rightarrow> u16 \<Rightarrow> u8 \<Rightarrow> cpu_error + u32 \<times> 's port_bus" where
  "bus_read ops b port sz =
     (case bus_find b port of
        None \<Rightarrow> Inr (- 1, b)
      | Some i \<Rightarrow> bind_res (pd_read ops (snd (snd (devices b ! i))) port sz)
                   (\<lambda>(v, d). Inr (v, bus_set_device b i d)))"

definition bus_write :: "'s port_ops \<Rightarrow> 's port_bus \<Rightarrow> u16 \<Rightarrow> u8 \<Rightarrow> u32 \<Rightarrow> cpu_error + 's port_bus" where
  "bus_write ops b port sz v =
     (case bus_find b port of
        None \<Rightarrow> Inr b
      | Some i \<Rightarrow> bind_res (pd_write ops (snd (snd (devices b ! i))) port sz v)
                   (\<lambda>d. Inr (bus_set_device b i d)))"

definition is_claimed :: "'s port_bus \<Rightarrow> u16 \<Rightarrow> bool" where
  "is_claimed b port \<longleftrightarrow> port \<in> claimed b"

section \<open>Dispatch\<close>

lemma find_index_Some:
  "find_index P xs = Some i \<longleftrightarrow> i < length xs \<and> P (xs ! i) \<and> (\<forall>j < i. \<not> P (xs ! j))"
proof (induction xs arbitrary: i)
  case Nil
  then show ?case by simp
next
  case (Cons x xs)
  show ?case
    by (cases i) (auto simp: Cons nth_Cons split: nat.splits if_splits)
qed

lemma find_index_None: "find_index P xs = None \<longleftrightarrow> (\<forall>x \<in> set xs. \<not> P x)"
  by (induction xs) auto

lemma length_bus_set_device [simp]: "length (devices (bus_set_device b i d)) = length (devices b)"
  by (simp add: bus_set_device_def)

lemma nth_bus_set_device:
  "i < length (devices b) \<Longrightarrow> j < length (devices b) \<Longrightarrow>
   devices (bus_set_device b i d) ! j =
     (if j = i then (fst (devices b ! i), fst (snd (devices b ! i)), d) else devices b ! j)"
  by (auto simp: bus_set_device_def split: prod.splits)

section \<open>The contract of a port device\<close>

locale port_device =
  fixes ops :: "'s port_ops"
    and inv :: "'s \<Rightarrow> bool"
  assumes read_ok: "inv s \<Longrightarrow> \<exists>v s'. pd_read ops s port sz = Inr (v, s') \<and> inv s'"
    and write_ok: "inv s \<Longrightarrow> \<exists>s'. pd_write ops s port sz v = Inr s' \<and> inv s'"
begin

definition bus_inv :: "'s port_bus \<Rightarrow> bool" where
  "bus_inv b \<longleftrightarrow> (\<forall>d \<in> set (devices b). inv (snd (snd d)))
     \<and> (\<forall>port. port \<in> claimed b \<longleftrightarrow> (\<exists>d \<in> set (devices b). in_port_range port d))"

lemma bus_inv_default: "bus_inv bus_default"
  by (simp add: bus_inv_def bus_default_def)

lemma bus_inv_attach: "bus_inv b \<Longrightarrow> inv d \<Longrightarrow> bus_inv (bus_attach b base sz d)"
  by (auto simp: bus_inv_def bus_attach_def in_port_range_def)

lemma bus_inv_set:
  assumes "bus_inv b" "i < length (devices b)" "inv d"
  shows "bus_inv (bus_set_device b i d)"
proof -
  have d: "inv (snd (snd x))" if "x \<in> set (devices (bus_set_device b i d))" for x
    using set_update_subset_insert [THEN subsetD, OF that [unfolded bus_set_device_def, simplified]]
      assms by (auto simp: bus_inv_def split: prod.splits)
  have r: "in_port_range port (devices (bus_set_device b i d) ! j) = in_port_range port (devices b ! j)"
    if "j < length (devices b)" for j port
    using that assms(2) by (auto simp: nth_bus_set_device in_port_range_def split: prod.splits)
  then have "(\<exists>x \<in> set (devices (bus_set_device b i d)). in_port_range port x)
      \<longleftrightarrow> (\<exists>x \<in> set (devices b). in_port_range port x)" for port
    by (metis in_set_conv_nth length_bus_set_device)
  with d assms(1) show ?thesis
    by (simp add: bus_inv_def) (simp add: bus_set_device_def)
qed

lemma bus_read_ok: "bus_inv b \<Longrightarrow> \<exists>v b'. bus_read ops b port sz = Inr (v, b') \<and> bus_inv b'"
proof -
  assume b: "bus_inv b"
  show ?thesis
  proof (cases "bus_find b port")
    case None
    then show ?thesis using b by (simp add: bus_read_def)
  next
    case (Some i)
    then have i: "i < length (devices b)" by (simp add: bus_find_def find_index_Some)
    with b have "inv (snd (snd (devices b ! i)))" by (simp add: bus_inv_def)
    then obtain v s' where "pd_read ops (snd (snd (devices b ! i))) port sz = Inr (v, s')" "inv s'"
      using read_ok by blast
    with Some i b show ?thesis by (simp add: bus_read_def bus_inv_set)
  qed
qed

lemma bus_write_ok: "bus_inv b \<Longrightarrow> \<exists>b'. bus_write ops b port sz v = Inr b' \<and> bus_inv b'"
proof -
  assume b: "bus_inv b"
  show ?thesis
  proof (cases "bus_find b port")
    case None
    then show ?thesis using b by (simp add: bus_write_def)
  next
    case (Some i)
    then have i: "i < length (devices b)" by (simp add: bus_find_def find_index_Some)
    with b have "inv (snd (snd (devices b ! i)))" by (simp add: bus_inv_def)
    then obtain s' where "pd_write ops (snd (snd (devices b ! i))) port sz v = Inr s'" "inv s'"
      using write_ok by blast
    with Some i b show ?thesis by (simp add: bus_write_def bus_inv_set)
  qed
qed

end

end
