(* ===== verification/Pic8259.thy ===== *)
theory Pic8259
  imports Port_Bus
begin

text \<open>
  The master/slave 8259A pair (\<open>devices/pic8259.rs\<close>): the initialisation state machine of each
  chip, the mask and in-service registers, the edge latch, the priority scan of \<open>pending_irq\<close> and
  the INTA cycle of \<open>acknowledge\<close>. Also the interrupt line set of \<open>devices/mod.rs\<close>.
\<close>

section \<open>Interrupt lines (devices/mod.rs)\<close>

record interrupt_lines =
  asserted :: u16

definition lines_assert :: "interrupt_lines \<Rightarrow> u8 \<Rightarrow> interrupt_lines" where
  "lines_assert l line =
     (if line < 16 then l\<lparr>asserted := asserted l OR shl1 (unat line)\<rparr> else l)"

definition lines_deassert :: "interrupt_lines \<Rightarrow> u8 \<Rightarrow> interrupt_lines" where
  "lines_deassert l line =
     (if line < 16 then l\<lparr>asserted := asserted l AND NOT (shl1 (unat line))\<rparr> else l)"

definition is_asserted :: "interrupt_lines \<Rightarrow> u8 \<Rightarrow> bool" where
  "is_asserted l line \<longleftrightarrow> line < 16 \<and> asserted l AND shl1 (unat line) \<noteq> 0"

section \<open>State\<close>

record pic =
  vector_offset :: u8
  pic_mask :: u8
  init_state :: u8
  expect_icw4 :: bool
  in_service :: u8
  initialized :: bool

record pic8259 =
  master :: pic
  slave :: pic
  inputs :: u16
  latched :: u16

definition pic_default :: pic where
  "pic_default = \<lparr>vector_offset = 0, pic_mask = 0, init_state = 0, expect_icw4 = False,
     in_service = 0, initialized = False\<rparr>"

definition pic8259_new :: pic8259 where
  "pic8259_new = \<lparr>master = pic_default, slave = pic_default, inputs = 0, latched = 0\<rparr>"

section \<open>Operations\<close>

text \<open>\<open>trailing_zeros\<close> of an 8-bit value; 8 for zero, as in Rust.\<close>

definition trailing_zeros8 :: "u8 \<Rightarrow> nat" where
  "trailing_zeros8 w = (case filter (bit w) [0..<8] of [] \<Rightarrow> 8 | i # _ \<Rightarrow> i)"

definition slave_bits :: "pic8259 \<Rightarrow> u8" where
  "slave_bits p =
     (let requests = inputs p OR latched p
      in if initialized (slave p)
         then ucast (drop_bit 8 requests) AND NOT (pic_mask (slave p)) AND NOT (in_service (slave p))
         else 0)"

definition master_direct :: "pic8259 \<Rightarrow> u8" where
  "master_direct p =
     ucast (inputs p OR latched p) AND NOT (pic_mask (master p)) AND NOT (in_service (master p))
       AND NOT (shl1 2)"

definition pending_irq :: "pic8259 \<Rightarrow> u8 option" where
  "pending_irq p =
     (if \<not> initialized (master p) then None
      else let sb = slave_bits p;
               direct = master_direct p;
               cascade = (if sb \<noteq> 0 then shl1 2 else 0);
               master_pending = direct OR cascade
           in if master_pending = 0 then None
              else let line = trailing_zeros8 master_pending
                   in if line = 2 then Some (8 + of_nat (trailing_zeros8 sb))
                      else Some (of_nat line))"

definition acknowledge :: "pic8259 \<Rightarrow> u8 \<Rightarrow> u8 \<times> pic8259" where
  "acknowledge p irq =
     (if \<not> initialized (master p) \<or> (8 \<le> irq \<and> \<not> initialized (slave p)) then (0, p)
      else let p = p\<lparr>latched := latched p AND NOT (wshl1 (unat irq))\<rparr>
           in if 8 \<le> irq
              then (vector_offset (slave p) + (irq - 8),
                    p\<lparr>slave := (slave p)\<lparr>in_service := in_service (slave p) OR wshl1 (unat (irq - 8))\<rparr>,
                      master := (master p)\<lparr>in_service := in_service (master p) OR shl1 2\<rparr>\<rparr>)
              else (vector_offset (master p) + irq,
                    p\<lparr>master := (master p)\<lparr>in_service := in_service (master p) OR wshl1 (unat irq)\<rparr>\<rparr>))"

definition pulse :: "pic8259 \<Rightarrow> u8 \<Rightarrow> pic8259" where
  "pulse p line = (if line < 16 then p\<lparr>latched := latched p OR wshl1 (unat line)\<rparr> else p)"

definition pic_end_of_interrupt :: "pic8259 \<Rightarrow> u8 \<Rightarrow> pic8259" where
  "pic_end_of_interrupt p irq =
     (if 8 \<le> irq
      then p\<lparr>slave := (slave p)\<lparr>in_service := in_service (slave p) AND NOT (wshl1 (unat (irq - 8)))\<rparr>\<rparr>
      else p\<lparr>master := (master p)\<lparr>in_service := in_service (master p) AND NOT (wshl1 (unat irq))\<rparr>\<rparr>)"

definition set_input :: "pic8259 \<Rightarrow> interrupt_lines \<Rightarrow> pic8259" where
  "set_input p l = p\<lparr>latched := latched p OR (asserted l AND NOT (inputs p)), inputs := asserted l\<rparr>"

definition pic_initialized :: "pic8259 \<Rightarrow> bool" where
  "pic_initialized p = initialized (master p)"

definition master_mask :: "pic8259 \<Rightarrow> u8" where
  "master_mask p = pic_mask (master p)"

text \<open>
  The command and data writes of the two chips are the same code on two fields; they are one
  function of the chip each.
\<close>

definition pic_command :: "pic \<Rightarrow> u8 \<Rightarrow> pic" where
  "pic_command c value =
     (if value AND 0x10 \<noteq> 0
      then c\<lparr>init_state := 1, expect_icw4 := (value AND 0x01 \<noteq> 0), initialized := False\<rparr>
      else if value AND 0xE0 = 0x60
           then c\<lparr>in_service := in_service c AND NOT (wshl1 (unat (value AND 7)))\<rparr>
      else if value AND 0xE0 = 0x20 then c\<lparr>in_service := 0\<rparr>
      else c)"

definition pic_data :: "pic \<Rightarrow> u8 \<Rightarrow> pic" where
  "pic_data c value =
     (if init_state c = 1 then c\<lparr>vector_offset := value AND 0xF8, init_state := 2\<rparr>
      else if init_state c = 2 then c\<lparr>init_state := 3\<rparr>
      else if init_state c = 3
           then c\<lparr>initialized := (if expect_icw4 c \<and> value AND 0x01 \<noteq> 0 then True else initialized c),
                  init_state := 0\<rparr>
      else c\<lparr>pic_mask := value\<rparr>)"

definition write_master_command :: "pic8259 \<Rightarrow> u8 \<Rightarrow> pic8259" where
  "write_master_command p value = p\<lparr>master := pic_command (master p) value\<rparr>"

definition write_slave_command :: "pic8259 \<Rightarrow> u8 \<Rightarrow> pic8259" where
  "write_slave_command p value = p\<lparr>slave := pic_command (slave p) value\<rparr>"

definition write_master_data :: "pic8259 \<Rightarrow> u8 \<Rightarrow> pic8259" where
  "write_master_data p value = p\<lparr>master := pic_data (master p) value\<rparr>"

definition write_slave_data :: "pic8259 \<Rightarrow> u8 \<Rightarrow> pic8259" where
  "write_slave_data p value = p\<lparr>slave := pic_data (slave p) value\<rparr>"

definition pic_read :: "pic8259 \<Rightarrow> u16 \<Rightarrow> u8 \<Rightarrow> cpu_error + u32 \<times> pic8259" where
  "pic_read p port sz =
     (if port = 0x21 then Inr (ucast (pic_mask (master p)), p)
      else if port = 0xA1 then Inr (ucast (pic_mask (slave p)), p)
      else Inr (0, p))"

definition pic_write :: "pic8259 \<Rightarrow> u16 \<Rightarrow> u8 \<Rightarrow> u32 \<Rightarrow> cpu_error + pic8259" where
  "pic_write p port sz value =
     (let value = ucast value
      in Inr (if port = 0x20 then write_master_command p value
              else if port = 0x21 then write_master_data p value
              else if port = 0xA0 then write_slave_command p value
              else if port = 0xA1 then write_slave_data p value
              else p))"

definition pic_ops :: "pic8259 port_ops" where
  "pic_ops = \<lparr>pd_read = pic_read, pd_write = pic_write\<rparr>"

text \<open>Everything the machine can do to the pair, as events.\<close>

datatype pic_event =
    Pic_Read u16 u8
  | Pic_Write u16 u8 u32
  | Pic_Set_Input interrupt_lines
  | Pic_Pulse u8
  | Pic_Acknowledge u8
  | Pic_Eoi u8

fun pic_step :: "pic_event \<Rightarrow> pic8259 \<Rightarrow> pic8259" where
  "pic_step (Pic_Read port sz) p = (case pic_read p port sz of Inr (_, p') \<Rightarrow> p' | Inl _ \<Rightarrow> p)"
| "pic_step (Pic_Write port sz v) p = (case pic_write p port sz v of Inr p' \<Rightarrow> p' | Inl _ \<Rightarrow> p)"
| "pic_step (Pic_Set_Input l) p = set_input p l"
| "pic_step (Pic_Pulse line) p = pulse p line"
| "pic_step (Pic_Acknowledge irq) p = snd (acknowledge p irq)"
| "pic_step (Pic_Eoi irq) p = pic_end_of_interrupt p irq"

definition pic_run :: "pic_event list \<Rightarrow> pic8259 \<Rightarrow> pic8259" where
  "pic_run es p = fold pic_step es p"

section \<open>Specification\<close>

definition pic_deliverable :: "pic8259 \<Rightarrow> nat \<Rightarrow> bool" where
  "pic_deliverable p i \<longleftrightarrow>
     i < 16 \<and> i \<noteq> 2 \<and> initialized (master p) \<and> bit (inputs p OR latched p) i \<and>
     (if i < 8 then \<not> bit (pic_mask (master p)) i \<and> \<not> bit (in_service (master p)) i
      else initialized (slave p) \<and> \<not> bit (pic_mask (slave p)) (i - 8)
             \<and> \<not> bit (in_service (slave p)) (i - 8))"

definition pic_scan_order :: "nat list" where
  "pic_scan_order = [0, 1] @ [8..<16] @ [3..<8]"

definition chip_wf :: "pic \<Rightarrow> bool" where
  "chip_wf c \<longleftrightarrow> vector_offset c AND 7 = 0 \<and> init_state c \<le> 3
     \<and> (init_state c \<noteq> 0 \<longrightarrow> \<not> initialized c)"

definition pic_wf :: "pic8259 \<Rightarrow> bool" where
  "pic_wf p \<longleftrightarrow> chip_wf (master p) \<and> chip_wf (slave p)"

section \<open>The priority scan\<close>


lemma bit_slave_bits:
  "bit (slave_bits p) i \<longleftrightarrow> i < 8 \<and> initialized (slave p) \<and> bit (inputs p OR latched p) (i + 8)
     \<and> \<not> bit (pic_mask (slave p)) i \<and> \<not> bit (in_service (slave p)) i"
  by (auto simp: slave_bits_def Let_def bit_logic bit_unsigned_iff bit_drop_bit_eq
      add.commute)

lemma bit_master_direct:
  "bit (master_direct p) i \<longleftrightarrow> i < 8 \<and> i \<noteq> 2 \<and> bit (inputs p OR latched p) i
     \<and> \<not> bit (pic_mask (master p)) i \<and> \<not> bit (in_service (master p)) i"
  by (auto simp: master_direct_def bit_logic bit_unsigned_iff)

lemma trailing_zeros8_find: "trailing_zeros8 w = (case find (bit w) [0..<8] of None \<Rightarrow> 8 | Some i \<Rightarrow> i)"
proof -
  have "(case filter P xs of [] \<Rightarrow> d | i # _ \<Rightarrow> i) = (case find P xs of None \<Rightarrow> d | Some i \<Rightarrow> i)"
    for P :: "nat \<Rightarrow> bool" and xs d
    by (induction xs) auto
  then show ?thesis by (simp add: trailing_zeros8_def)
qed

lemma word8_eq_0_iff: "w = 0 \<longleftrightarrow> find (bit w) [0..<8] = None" for w :: u8
  by (auto simp: find_None_iff word_eq_0_iff_bits)


lemma find_deliverable_slave:
  "initialized (master p) \<Longrightarrow> find (pic_deliverable p) [8..<16] = map_option (\<lambda>i. i + 8) (find (bit (slave_bits p)) [0..<8])"
proof -
  assume i: "initialized (master p)"
  have "[8..<16] = map (\<lambda>i. i + 8) [0..<8::nat]"
    by (simp add: map_add_upt)
  moreover have "find (pic_deliverable p \<circ> (\<lambda>i. i + 8)) [0..<8] = find (bit (slave_bits p)) [0..<8]"
    using i by (intro find_cong_set) (auto simp: pic_deliverable_def bit_slave_bits)
  ultimately show ?thesis by (simp add: find_map)
qed

lemma pending_irq_scan:
  assumes "initialized (master p)"
  defines "mp \<equiv> master_direct p OR (if slave_bits p \<noteq> 0 then shl1 2 else 0)"
  shows "pending_irq p = (case find (bit mp) [0..<8] of None \<Rightarrow> None
           | Some l \<Rightarrow> Some (if l = 2 then 8 + of_nat (trailing_zeros8 (slave_bits p)) else of_nat l))"
proof -
  have z: "mp = 0 \<longleftrightarrow> find (bit mp) [0..<8] = None"
    by (rule word8_eq_0_iff)
  have t: "trailing_zeros8 mp = (case find (bit mp) [0..<8] of None \<Rightarrow> 8 | Some i \<Rightarrow> i)"
    by (rule trailing_zeros8_find)
  have "pending_irq p = (if mp = 0 then None
      else if trailing_zeros8 mp = 2 then Some (8 + of_nat (trailing_zeros8 (slave_bits p)))
      else Some (of_nat (trailing_zeros8 mp)))"
    using assms(1) by (simp only: pending_irq_def Let_def mp_def not_True_eq_False if_False)
  then show ?thesis
    unfolding z t by (cases "find (bit mp) [0..<8]") (simp_all del: find.simps upt_Suc)
qed

lemma find_master_pending:
  assumes "initialized (master p)"
  defines "mp \<equiv> master_direct p OR (if slave_bits p \<noteq> 0 then shl1 2 else 0)"
  shows "find (bit mp) [0..<8] =
    (case find (pic_deliverable p) [0, 1] of Some i \<Rightarrow> Some i
     | None \<Rightarrow> if slave_bits p \<noteq> 0 then Some 2 else find (pic_deliverable p) [3..<8])"
proof -
  have m: "bit mp i \<longleftrightarrow> bit (master_direct p) i \<or> i = 2 \<and> slave_bits p \<noteq> 0" for i
    by (auto simp: mp_def bit_or_iff)
  have a: "find (bit mp) [0, 1] = find (pic_deliverable p) [0, 1]"
    using assms(1) by (intro find_cong_set) (auto simp: m bit_master_direct pic_deliverable_def)
  have b: "find (bit mp) [3..<8] = find (pic_deliverable p) [3..<8]"
    using assms(1) by (intro find_cong_set) (auto simp: m bit_master_direct pic_deliverable_def)
  have c: "find (bit mp) [2] = (if slave_bits p \<noteq> 0 then Some 2 else None)"
    by (simp add: m bit_master_direct)
  have "[0..<8] = [0, 1] @ [2] @ [3..<8::nat]"
    by (simp add: upt_rec)
  then show ?thesis
    by (simp only: find_append a b c split: option.splits if_splits) simp
qed

lemma pending_irq_find:
  "pending_irq p = map_option of_nat (find (pic_deliverable p) pic_scan_order)"
proof (cases "initialized (master p)")
  case False
  then show ?thesis by (simp add: pending_irq_def pic_deliverable_def find_None_iff)
next
  case True
  have r: "find (pic_deliverable p) [0, 1] = Some i \<Longrightarrow> i \<noteq> 2" for i
    by (drule find_SomeD) auto
  have r2: "find (pic_deliverable p) [3..<8] = Some i \<Longrightarrow> i \<noteq> 2" for i
    by (drule find_SomeD) auto
  have z: "slave_bits p = 0 \<longleftrightarrow> find (bit (slave_bits p)) [0..<8] = None"
    by (rule word8_eq_0_iff)
  show ?thesis
  proof (cases "find (pic_deliverable p) [0, 1]")
    case (Some i)
    with r [OF Some] show ?thesis
      by (simp only: pending_irq_scan [OF True] find_master_pending [OF True] pic_scan_order_def
          find_append option.simps if_False option.map)
  next
    case None
    show ?thesis
      unfolding pending_irq_scan [OF True] find_master_pending [OF True]
      by (cases "find (bit (slave_bits p)) [0..<8]"; cases "find (pic_deliverable p) [3..<8]")
        (simp_all only: None z pic_scan_order_def find_append find_deliverable_slave [OF True] trailing_zeros8_find
          option.simps if_False if_True simp_thms option.map r2 of_nat_add
          of_nat_numeral add.commute)
  qed
qed

section \<open>The invariant\<close>

lemma pic_wf_new: "pic_wf pic8259_new"
  by (simp add: pic_wf_def chip_wf_def pic8259_new_def pic_default_def)

lemma chip_wf_command [wf_intros]: "chip_wf c \<Longrightarrow> chip_wf (pic_command c v)"
  by (simp add: chip_wf_def pic_command_def)

lemma and_F8_and_7: "(v AND 0xF8) AND 7 = (0 :: u8)"
  by (simp add: and.assoc)

lemma chip_wf_data [wf_intros]: "chip_wf c \<Longrightarrow> chip_wf (pic_data c v)"
  by (auto simp: chip_wf_def pic_data_def and_F8_and_7)

lemma pic_wf_write [wf_intros]: "pic_wf p \<Longrightarrow> pic_write p port sz v = Inr p' \<Longrightarrow> pic_wf p'"
  by (auto simp: pic_wf_def pic_write_def Let_def write_master_command_def write_slave_command_def
      write_master_data_def write_slave_data_def intro: wf_intros)

lemma pic_read_state: "pic_read p port sz = Inr (v, p') \<Longrightarrow> p' = p"
  by (auto simp: pic_read_def split: if_splits)

lemma pic_wf_step [wf_intros]: "pic_wf p \<Longrightarrow> pic_wf (pic_step e p)"
proof (cases e)
  case (Pic_Write port sz v)
  assume "pic_wf p"
  with Pic_Write show ?thesis by (auto intro: pic_wf_write split: sum.splits)
next
  case (Pic_Read port sz)
  assume "pic_wf p"
  with Pic_Read show ?thesis by (auto dest: pic_read_state split: sum.splits)
next
  case (Pic_Acknowledge irq)
  assume "pic_wf p"
  with Pic_Acknowledge show ?thesis by (auto simp: acknowledge_def Let_def pic_wf_def chip_wf_def)
qed (auto simp: pic_wf_def chip_wf_def set_input_def pulse_def pic_end_of_interrupt_def)

lemma pic_wf_run [wf_intros]: "pic_wf p \<Longrightarrow> pic_wf (pic_run es p)"
  unfolding pic_run_def by (induction es arbitrary: p) (auto intro: wf_intros)

interpretation pic_port: port_device pic_ops pic_wf
proof
  fix s :: pic8259 and port sz v
  assume s: "pic_wf s"
  show "\<exists>v s'. pd_read pic_ops s port sz = Inr (v, s') \<and> pic_wf s'"
    using s by (simp add: pic_ops_def pic_read_def)
  show "\<exists>s'. pd_write pic_ops s port sz v = Inr s' \<and> pic_wf s'"
    using pic_wf_write [OF s] by (simp add: pic_ops_def pic_write_def Let_def)
qed

section \<open>The INTA cycle and end of interrupt\<close>

lemma pending_irq_SomeD:
  assumes "pending_irq p = Some irq"
  shows "unat irq < 16 \<and> pic_deliverable p (unat irq)"
proof -
  obtain i where i: "find (pic_deliverable p) pic_scan_order = Some i" "irq = of_nat i"
    using assms by (auto simp: pending_irq_find simp del: find.simps)
  have "pic_deliverable p i" using find_SomeD [OF i(1)] by simp
  moreover from this have "i < 16" by (simp add: pic_deliverable_def)
  ultimately show ?thesis using i(2) by (simp add: unat_of_nat)
qed

lemma unat_and_7: "unat (b AND 7) = unat b mod 8" for b :: u8
proof -
  have "b AND 7 = take_bit 3 b"
    by (simp add: take_bit_eq_mask mask_eq_exp_minus_1)
  then show ?thesis by (simp add: take_bit_eq_mod unat_mod)
qed

lemma low_bits_add:
  assumes "b AND 7 = (0 :: u8)" "k < 8"
  shows "unat (b + k) = unat b + unat k" "(b + k) AND 7 = k"
proof -
  have k: "unat k < 8" using assms(2) by (simp add: word_less_nat_alt)
  have b: "unat b mod 8 = 0" using assms(1) by (metis unat_and_7 unat_0)
  moreover have "unat b < 256" using unat_bound [of b] by simp
  ultimately have "unat b + unat k < 256" using k by presburger
  then show *: "unat (b + k) = unat b + unat k" by (intro unat_add_no_wrap) simp
  show "(b + k) AND 7 = k"
    using b k by (simp add: word_unat_eq_iff unat_and_7 * mod_add_left_eq [symmetric])
qed

definition pic_chip :: "pic8259 \<Rightarrow> u8 \<Rightarrow> pic" where
  "pic_chip p irq = (if 8 \<le> irq then slave p else master p)"

lemma pic_chip_wf: "pic_wf p \<Longrightarrow> chip_wf (pic_chip p irq)"
  by (simp add: pic_chip_def pic_wf_def)

lemma deliverable_chip:
  "pic_deliverable p (unat irq) \<Longrightarrow> initialized (pic_chip p irq)"
  by (auto simp: pic_deliverable_def pic_chip_def word_le_nat_alt)

lemma acknowledge_vector:
  assumes "pic_wf p" "pic_deliverable p (unat irq)"
  shows "unat (fst (acknowledge p irq)) = unat (vector_offset (pic_chip p irq)) + unat irq mod 8"
    and "fst (acknowledge p irq) AND 7 = irq AND 7"
proof -
  let ?k = "if 8 \<le> irq then irq - 8 else irq"
  have irq: "unat irq < 16" using assms(2) by (simp add: pic_deliverable_def)
  have uk: "unat ?k = unat irq mod 8"
    using irq by (auto simp: word_le_nat_alt unat_sub mod_if)
  then have k: "?k < 8" by (simp add: word_less_nat_alt)
  have "?k = irq AND 7" by (simp add: word_unat_eq_iff uk unat_and_7)
  moreover have "fst (acknowledge p irq) = vector_offset (pic_chip p irq) + ?k"
    using assms(2) deliverable_chip [OF assms(2)]
    by (auto simp: acknowledge_def Let_def pic_chip_def pic_deliverable_def)
  moreover have "vector_offset (pic_chip p irq) AND 7 = 0"
    using pic_chip_wf [OF assms(1), of irq] by (simp add: chip_wf_def)
  ultimately show "unat (fst (acknowledge p irq)) = unat (vector_offset (pic_chip p irq)) + unat irq mod 8"
    and "fst (acknowledge p irq) AND 7 = irq AND 7"
    using low_bits_add [OF _ k] uk by metis+
qed

lemma deliverable_acknowledge:
  assumes "pic_deliverable p (unat irq)"
  shows "pic_deliverable (snd (acknowledge p irq)) j \<longleftrightarrow> pic_deliverable p j \<and> j \<noteq> unat irq"
proof -
  have irq: "unat irq < 16" using assms by (simp add: pic_deliverable_def)
  then have 8: "8 \<le> irq \<Longrightarrow> unat (irq - 8) = unat irq - 8"
    by (simp add: word_le_nat_alt unat_sub)
  show ?thesis
    using assms irq deliverable_chip [OF assms] 8
    by (auto simp: acknowledge_def Let_def pic_deliverable_def pic_chip_def word_le_nat_alt
        bit_or_iff bit_and_iff bit_not_iff)
qed

lemma inputs_acknowledge [simp]: "inputs (snd (acknowledge p irq)) = inputs p"
  by (simp add: acknowledge_def Let_def)

lemma deliverable_eoi:
  assumes "pic_deliverable p (unat irq)"
  shows "pic_deliverable (pic_end_of_interrupt (snd (acknowledge p irq)) irq) (unat irq)
           \<longleftrightarrow> bit (inputs p) (unat irq)"
proof -
  have irq: "unat irq < 16" using assms by (simp add: pic_deliverable_def)
  then have 8: "8 \<le> irq \<Longrightarrow> unat (irq - 8) = unat irq - 8"
    by (simp add: word_le_nat_alt unat_sub)
  show ?thesis
    using assms irq deliverable_chip [OF assms] 8
    by (auto simp: acknowledge_def Let_def pic_end_of_interrupt_def pic_deliverable_def pic_chip_def
        word_le_nat_alt bit_or_iff bit_and_iff bit_not_iff)
qed

lemma latched_step:
  assumes "bit (latched p) i" "i < 16" "e \<noteq> Pic_Acknowledge (of_nat i)"
    and "\<And>irq. e = Pic_Acknowledge irq \<Longrightarrow> irq < 16"
  shows "bit (latched (pic_step e p)) i"
proof (cases e)
  case (Pic_Write port sz v)
  with assms show ?thesis
    by (simp add: pic_write_def Let_def write_master_command_def write_slave_command_def
        write_master_data_def write_slave_data_def)
next
  case (Pic_Acknowledge irq)
  with assms have "unat irq < 16" "unat irq \<noteq> i"
    by (auto simp: word_less_nat_alt)
  with assms(1,2) Pic_Acknowledge show ?thesis
    by (simp add: acknowledge_def Let_def bit_and_iff bit_not_iff)
qed (use assms in \<open>auto simp: pic_read_def set_input_def pulse_def pic_end_of_interrupt_def bit_or_iff\<close>)

lemma latched_run:
  assumes "bit (latched p) i" "i < 16"
    and "\<forall>irq. Pic_Acknowledge irq \<in> set es \<longrightarrow> irq < 16 \<and> unat irq \<noteq> i"
  shows "bit (latched (pic_run es p)) i"
  using assms unfolding pic_run_def
proof (induction es arbitrary: p)
  case Nil
  then show ?case by simp
next
  case (Cons e es)
  have "bit (latched (pic_step e p)) i"
    using Cons.prems by (intro latched_step) (auto simp: unat_of_nat)
  with Cons show ?case by simp
qed

section \<open>Properties\<close>

text \<open>
  The branch-free bit scan of \<open>pending_irq\<close> is the first deliverable line in the fixed order
  0, 1, 8, ..., 15, 3, ..., 7: a line is delivered only when it is requested, its chip (and the
  master) has completed its ICW sequence, it is neither masked nor in service, and no
  higher-priority line is deliverable; nothing is reported when no line is deliverable.
\<close>
theorem pending_irq_spec:
  "pending_irq p = map_option of_nat (find (pic_deliverable p) pic_scan_order)"
  by (rule pending_irq_find)

text \<open>
  C26: the INTA cycle on a line \<open>pending_irq\<close> reported yields the vector base of its chip plus the
  line within the chip, without wrap-around; the line leaves the pending set, every other line
  keeps its status, and after the end of interrupt the line is pending again exactly when its
  input is still high (the edge itself has been consumed).
\<close>
theorem pic_acknowledge_cycle:
  assumes "pic_wf p" and "pending_irq p = Some irq"
  defines "p' \<equiv> snd (acknowledge p irq)"
  shows "unat (fst (acknowledge p irq)) = unat (vector_offset (pic_chip p irq)) + unat irq mod 8
    \<and> (\<forall>j. pic_deliverable p' j \<longleftrightarrow> pic_deliverable p j \<and> j \<noteq> unat irq)
    \<and> pending_irq p' \<noteq> Some irq
    \<and> (pic_deliverable (pic_end_of_interrupt p' irq) (unat irq) \<longleftrightarrow> bit (inputs p) (unat irq))"
proof -
  have d: "pic_deliverable p (unat irq)" using pending_irq_SomeD [OF assms(2)] by simp
  note ack = deliverable_acknowledge [OF d]
  have "pending_irq p' \<noteq> Some irq"
    using pending_irq_SomeD [of p' irq] ack by (auto simp: p'_def)
  with acknowledge_vector(1) [OF assms(1) d] ack deliverable_eoi [OF d] show ?thesis
    by (simp add: p'_def)
qed


text \<open>
  C28: a rising edge is never lost: once \<open>set_input\<close> has seen line \<open>i\<close> go high, the request stays
  latched through any sequence of port accesses, input changes (the line may drop), pulses,
  ends of interrupt and acknowledgements of other lines.
\<close>
theorem pic_edge_not_lost:
  assumes "i < 16" and "bit (asserted l) i" and "\<not> bit (inputs p) i"
    and "\<forall>irq. Pic_Acknowledge irq \<in> set es \<longrightarrow> irq < 16 \<and> unat irq \<noteq> i"
  shows "bit (latched (pic_run es (set_input p l))) i"
  using assms by (intro latched_run) (auto simp: set_input_def bit_or_iff bit_and_iff bit_not_iff)

section \<open>Witnesses\<close>

text \<open>The ICW sequence Linux writes at boot (bases 0x30 and 0x38), then a pulse on line 4.\<close>

definition pic_boot_trace :: "pic_event list" where
  "pic_boot_trace =
     [Pic_Write 0x20 1 0x11, Pic_Write 0x21 1 0x30, Pic_Write 0x21 1 0x04, Pic_Write 0x21 1 0x01,
      Pic_Write 0xA0 1 0x11, Pic_Write 0xA1 1 0x38, Pic_Write 0xA1 1 0x02, Pic_Write 0xA1 1 0x01,
      Pic_Pulse 4]"

lemma pic_boot_pending: "pending_irq (pic_run pic_boot_trace pic8259_new) = Some 4"
  by code_simp

lemma pic_boot_base: "unat (vector_offset (pic_chip (pic_run pic_boot_trace pic8259_new) 4)) = 0x30"
  by code_simp

theorem pic_acknowledge_cycle_witness:
  "unat (fst (acknowledge (pic_run pic_boot_trace pic8259_new) 4)) = 0x34
   \<and> pending_irq (snd (acknowledge (pic_run pic_boot_trace pic8259_new) 4)) \<noteq> Some 4"
  using pic_acknowledge_cycle [OF pic_wf_run [OF pic_wf_new] pic_boot_pending] pic_boot_base
  by simp


theorem pic_edge_not_lost_witness:
  "bit (latched (pic_run [Pic_Set_Input \<lparr>asserted = 0\<rparr>, Pic_Acknowledge 3, Pic_Eoi 3]
     (set_input pic8259_new \<lparr>asserted = 0x10\<rparr>))) 4"
  by (rule pic_edge_not_lost) (auto simp: pic8259_new_def)

end
