(* ===== verification/Io_Apic.thy ===== *)
theory Io_Apic
  imports Cpu_Error
begin

text \<open>
  The I/O APIC (\<open>devices/ioapic.rs\<close>): 24 redirection entries, the line-level input register, the
  remote-IRR handshake of level-triggered entries, and the indirect register window. The loops
  over the pins are folds over \<open>[0..<24]\<close>, one step function per loop body.
\<close>

section \<open>State\<close>

definition IOAPIC_PINS :: nat where "IOAPIC_PINS = 24"

definition ENTRY_MASKED :: u64 where "ENTRY_MASKED = shl1 16"
definition ENTRY_LEVEL_TRIGGERED :: u64 where "ENTRY_LEVEL_TRIGGERED = shl1 15"
definition ENTRY_REMOTE_IRR :: u64 where "ENTRY_REMOTE_IRR = shl1 14"

record io_apic =
  io_id :: u32
  register_select :: u32
  redirection :: "u64 list"
  io_lines :: u32

definition io_apic_new :: io_apic where
  "io_apic_new = \<lparr>io_id = 0, register_select = 0,
     redirection = replicate IOAPIC_PINS ENTRY_MASKED, io_lines = 0\<rparr>"

section \<open>Operations\<close>

definition entry_vector :: "u64 \<Rightarrow> u8" where
  "entry_vector entry = ucast (entry AND 0xFF)"

text \<open>One iteration of the loop of \<open>set_lines\<close>.\<close>

definition set_lines_pin :: "u32 \<Rightarrow> nat \<Rightarrow> u64 list \<times> u8 list \<Rightarrow> u64 list \<times> u8 list" where
  "set_lines_pin rising pin st =
     (case st of (red, fired) \<Rightarrow>
        if rising AND shl1 pin = 0 then (red, fired)
        else let entry = red ! pin
             in if entry AND ENTRY_MASKED \<noteq> 0 then (red, fired)
                else if entry AND ENTRY_LEVEL_TRIGGERED \<noteq> 0 \<and> entry AND ENTRY_REMOTE_IRR \<noteq> 0
                     then (red, fired)
                else let red = (if entry AND ENTRY_LEVEL_TRIGGERED \<noteq> 0
                                then red[pin := red ! pin OR ENTRY_REMOTE_IRR] else red);
                         vector = entry_vector entry
                     in (red, if 16 \<le> vector then fired @ [vector] else fired))"

definition set_lines :: "io_apic \<Rightarrow> u32 \<Rightarrow> u8 list \<times> io_apic" where
  "set_lines io new =
     (let rising = new AND NOT (io_lines io);
          (red, fired) = fold (set_lines_pin rising) [0..<IOAPIC_PINS] (redirection io, [])
      in (fired, io\<lparr>io_lines := new, redirection := red\<rparr>))"

definition eoi_pin :: "u32 \<Rightarrow> u8 \<Rightarrow> nat \<Rightarrow> u64 list \<times> u8 list \<Rightarrow> u64 list \<times> u8 list" where
  "eoi_pin lines vector pin st =
     (case st of (red, refired) \<Rightarrow>
        let entry = red ! pin
        in if entry AND ENTRY_LEVEL_TRIGGERED = 0 \<or> entry AND ENTRY_REMOTE_IRR = 0
              \<or> entry_vector entry \<noteq> vector
           then (red, refired)
           else let red = red[pin := red ! pin AND NOT ENTRY_REMOTE_IRR]
                in if lines AND shl1 pin \<noteq> 0 \<and> entry AND ENTRY_MASKED = 0
                   then (red[pin := red ! pin OR ENTRY_REMOTE_IRR], refired @ [vector])
                   else (red, refired))"

definition ioapic_end_of_interrupt :: "io_apic \<Rightarrow> u8 \<Rightarrow> u8 list \<times> io_apic" where
  "ioapic_end_of_interrupt io vector =
     (let (red, refired) = fold (eoi_pin (io_lines io) vector) [0..<IOAPIC_PINS] (redirection io, [])
      in (refired, io\<lparr>redirection := red\<rparr>))"

definition read_register :: "io_apic \<Rightarrow> u32 \<Rightarrow> u32" where
  "read_register io register =
     (if register = 0x00 then push_bit 24 (io_id io)
      else if register = 0x01 then 0x11 OR push_bit 16 (of_nat IOAPIC_PINS - 1)
      else if register = 0x02 then push_bit 24 (io_id io)
      else let index = unat (register - 0x10);
               pin = index div 2
           in if IOAPIC_PINS \<le> pin then 0
              else let entry = redirection io ! pin
                   in if index mod 2 = 0 then ucast entry else ucast (drop_bit 32 entry))"

definition writable :: u64 where
  "writable = 0xFFFFFFFF AND NOT (ENTRY_REMOTE_IRR OR shl1 12)"

definition write_register :: "io_apic \<Rightarrow> u32 \<Rightarrow> u32 \<Rightarrow> io_apic" where
  "write_register io register value =
     (if register = 0x00 then io\<lparr>io_id := drop_bit 24 value AND 0xF\<rparr>
      else if register = 0x01 \<or> register = 0x02 then io
      else let index = unat (register - 0x10);
               pin = index div 2
           in if IOAPIC_PINS \<le> pin then io
              else let entry = redirection io ! pin
                   in io\<lparr>redirection := (redirection io)[pin :=
                        if index mod 2 = 0
                        then (entry AND NOT writable) OR (ucast value AND writable)
                        else (entry AND 0xFFFFFFFF) OR push_bit 32 (ucast value)]\<rparr>)"

definition ioapic_read :: "io_apic \<Rightarrow> u64 \<Rightarrow> u8 \<Rightarrow> u32" where
  "ioapic_read io offset sz =
     (if offset = 0x00 then register_select io
      else if offset = 0x10 then read_register io (register_select io)
      else 0)"

definition ioapic_write :: "io_apic \<Rightarrow> u64 \<Rightarrow> u8 \<Rightarrow> u32 \<Rightarrow> io_apic" where
  "ioapic_write io offset sz value =
     (if offset = 0x00 then io\<lparr>register_select := value AND 0xFF\<rparr>
      else if offset = 0x10 then write_register io (register_select io) value
      else if offset = 0x40 then snd (ioapic_end_of_interrupt io (ucast (value AND 0xFF)))
      else io)"

section \<open>Specification\<close>

definition entry_masked :: "u64 \<Rightarrow> bool" where "entry_masked e \<longleftrightarrow> bit e 16"
definition entry_level :: "u64 \<Rightarrow> bool" where "entry_level e \<longleftrightarrow> bit e 15"
definition entry_irr :: "u64 \<Rightarrow> bool" where "entry_irr e \<longleftrightarrow> bit e 14"

lemma entry_tests [simp]:
  "e AND ENTRY_MASKED = 0 \<longleftrightarrow> \<not> entry_masked e"
  "e AND ENTRY_LEVEL_TRIGGERED = 0 \<longleftrightarrow> \<not> entry_level e"
  "e AND ENTRY_REMOTE_IRR = 0 \<longleftrightarrow> \<not> entry_irr e"
  by (simp_all add: ENTRY_MASKED_def ENTRY_LEVEL_TRIGGERED_def ENTRY_REMOTE_IRR_def
      entry_masked_def entry_level_def entry_irr_def and_shl1_eq_0)

text \<open>A pin's request is accepted: unmasked, and for a level entry no earlier request outstanding.\<close>

definition accepts :: "u64 \<Rightarrow> bool" where
  "accepts e \<longleftrightarrow> \<not> entry_masked e \<and> \<not> (entry_level e \<and> entry_irr e)"

definition raise_entry :: "u64 \<Rightarrow> u64" where
  "raise_entry e = (if accepts e \<and> entry_level e then e OR ENTRY_REMOTE_IRR else e)"

definition awaiting_eoi :: "u8 \<Rightarrow> u64 \<Rightarrow> bool" where
  "awaiting_eoi v e \<longleftrightarrow> entry_level e \<and> entry_irr e \<and> entry_vector e = v"

definition io_wf :: "io_apic \<Rightarrow> bool" where
  "io_wf io \<longleftrightarrow> length (redirection io) = IOAPIC_PINS"

text \<open>
  A fold whose step at pin \<open>i\<close> rewrites only entry \<open>i\<close> and appends at most one vector is a
  pointwise map of the entries and a filter of the pins.
\<close>

lemma fold_pins:
  assumes step: "\<And>i red out. i < length red \<Longrightarrow>
      f i (red, out) = (red[i := g i (red ! i)], out @ (if P i (red ! i) then [h i (red ! i)] else []))"
    and "n \<le> length red"
  shows "fold f [0..<n] (red, out) =
    (map (\<lambda>i. if i < n then g i (red ! i) else red ! i) [0..<length red],
     out @ map (\<lambda>i. h i (red ! i)) (filter (\<lambda>i. P i (red ! i)) [0..<n]))"
  using assms(2)
proof (induction n)
  case 0
  then show ?case by (simp add: map_nth)
next
  case (Suc n)
  let ?red = "map (\<lambda>i. if i < n then g i (red ! i) else red ! i) [0..<length red]"
  have n: "n < length ?red" "?red ! n = red ! n" using Suc.prems by simp_all
  have "?red[n := g n (red ! n)]
      = map (\<lambda>i. if i < Suc n then g i (red ! i) else red ! i) [0..<length red]"
    using Suc.prems by (intro nth_equalityI) (auto simp: nth_list_update)
  then show ?case
    using Suc by (simp add: step [OF n(1)] n(2))
qed

lemma set_lines_pin_step:
  "i < length red \<Longrightarrow> set_lines_pin rising i (red, out) =
     (red[i := if bit rising i then raise_entry (red ! i) else red ! i],
      out @ (if bit rising i \<and> accepts (red ! i) \<and> 16 \<le> entry_vector (red ! i)
             then [entry_vector (red ! i)] else []))"
  by (auto simp: set_lines_pin_def Let_def raise_entry_def accepts_def and_shl1_eq_0)

lemma entry_bits [simp]:
  "entry_masked (e OR ENTRY_REMOTE_IRR) = entry_masked e"
  "entry_level (e OR ENTRY_REMOTE_IRR) = entry_level e"
  "entry_irr (e OR ENTRY_REMOTE_IRR)"
  "entry_masked (e AND NOT ENTRY_REMOTE_IRR) = entry_masked e"
  "entry_level (e AND NOT ENTRY_REMOTE_IRR) = entry_level e"
  "\<not> entry_irr (e AND NOT ENTRY_REMOTE_IRR)"
  by (simp_all add: ENTRY_REMOTE_IRR_def entry_masked_def entry_level_def entry_irr_def bit_logic)

lemma bit_FF: "bit (0xFF :: u64) i \<longleftrightarrow> i < 8"
  by (auto simp: bit_mask_iff [where 'a = "64 word", of 8 i, unfolded mask_eq_exp_minus_1, simplified])

lemma entry_vector_irr [simp]:
  "entry_vector (e OR ENTRY_REMOTE_IRR) = entry_vector e"
  "entry_vector (e AND NOT ENTRY_REMOTE_IRR) = entry_vector e"
  by (rule bit_eqI; auto simp: entry_vector_def ENTRY_REMOTE_IRR_def bit_unsigned_iff bit_logic bit_FF)+

lemma irr_restore: "entry_irr e \<Longrightarrow> e AND NOT ENTRY_REMOTE_IRR OR ENTRY_REMOTE_IRR = e"
  by (rule bit_eqI) (auto simp: entry_irr_def ENTRY_REMOTE_IRR_def bit_logic)

lemma eoi_pin_step:
  "i < length red \<Longrightarrow> eoi_pin lines v i (red, out) =
     (red[i := if awaiting_eoi v (red ! i) \<and> \<not> (bit lines i \<and> \<not> entry_masked (red ! i))
               then red ! i AND NOT ENTRY_REMOTE_IRR else red ! i],
      out @ (if awaiting_eoi v (red ! i) \<and> bit lines i \<and> \<not> entry_masked (red ! i)
             then [v] else []))"
  by (auto simp: eoi_pin_def Let_def awaiting_eoi_def irr_restore)

lemma set_lines_eq:
  fixes new :: u32
  assumes "io_wf io"
  defines "rising \<equiv> new AND NOT (io_lines io)"
  shows "set_lines io new =
    (map (\<lambda>i. entry_vector (redirection io ! i))
       (filter (\<lambda>i. bit rising i \<and> accepts (redirection io ! i)
                    \<and> 16 \<le> entry_vector (redirection io ! i)) [0..<IOAPIC_PINS]),
     io\<lparr>io_lines := new,
       redirection := map (\<lambda>i. if bit rising i then raise_entry (redirection io ! i)
                               else redirection io ! i) [0..<IOAPIC_PINS]\<rparr>)"
  using assms(1) unfolding set_lines_def Let_def rising_def io_wf_def
  by (subst fold_pins [OF set_lines_pin_step]) (auto intro!: map_cong)

lemma ioapic_eoi_eq:
  assumes "io_wf io"
  defines "still \<equiv> \<lambda>i. bit (io_lines io) i \<and> \<not> entry_masked (redirection io ! i)"
  shows "ioapic_end_of_interrupt io v =
    (map (\<lambda>i. v) (filter (\<lambda>i. awaiting_eoi v (redirection io ! i) \<and> still i) [0..<IOAPIC_PINS]),
     io\<lparr>redirection := map (\<lambda>i. if awaiting_eoi v (redirection io ! i) \<and> \<not> still i
                               then redirection io ! i AND NOT ENTRY_REMOTE_IRR
                               else redirection io ! i) [0..<IOAPIC_PINS]\<rparr>)"
  using assms(1) unfolding ioapic_end_of_interrupt_def Let_def still_def io_wf_def
  by (subst fold_pins [OF eoi_pin_step]) (auto intro!: map_cong)

section \<open>Invariant\<close>

lemma io_wf_new: "io_wf io_apic_new"
  by (simp add: io_wf_def io_apic_new_def)

lemma io_wf_set_lines [wf_intros]: "io_wf io \<Longrightarrow> io_wf (snd (set_lines io new))"
  by (simp add: set_lines_eq) (simp add: io_wf_def)

lemma io_wf_eoi [wf_intros]: "io_wf io \<Longrightarrow> io_wf (snd (ioapic_end_of_interrupt io v))"
  by (simp add: ioapic_eoi_eq) (simp add: io_wf_def)

lemma io_wf_write [wf_intros]: "io_wf io \<Longrightarrow> io_wf (ioapic_write io offset sz v)"
  using io_wf_eoi [of io] by (auto simp: ioapic_write_def write_register_def Let_def) (auto simp: io_wf_def)

section \<open>Deliveries of one pin along a sequence of line levels\<close>

fun io_run_lines :: "io_apic \<Rightarrow> u32 list \<Rightarrow> u8 list \<times> io_apic" where
  "io_run_lines io [] = ([], io)"
| "io_run_lines io (l # ls) =
     (let (fired, io1) = set_lines io l; (rest, io2) = io_run_lines io1 ls in (fired @ rest, io2))"

fun rising_edges :: "nat \<Rightarrow> u32 \<Rightarrow> u32 list \<Rightarrow> nat" where
  "rising_edges i prev [] = 0"
| "rising_edges i prev (l # ls) =
     (if bit l i \<and> \<not> bit prev i then 1 else 0) + rising_edges i l ls"

text \<open>Pin \<open>i\<close> is the only pin whose entry carries vector \<open>v\<close>.\<close>

definition sole_vector :: "io_apic \<Rightarrow> nat \<Rightarrow> u8 \<Rightarrow> bool" where
  "sole_vector io i v \<longleftrightarrow> io_wf io \<and> i < IOAPIC_PINS \<and> 16 \<le> v
     \<and> (\<forall>j < IOAPIC_PINS. entry_vector (redirection io ! j) = v \<longleftrightarrow> j = i)"

lemma entry_vector_raise [simp]: "entry_vector (raise_entry e) = entry_vector e"
  by (simp add: raise_entry_def)

lemma sole_vector_set_lines: "sole_vector io i v \<Longrightarrow> sole_vector (snd (set_lines io l)) i v"
  by (simp add: sole_vector_def io_wf_set_lines) (simp add: set_lines_eq)

lemma count_list_map_filter:
  assumes "distinct xs" "i \<in> set xs" "\<And>j. j \<in> set xs \<Longrightarrow> f j = v \<longleftrightarrow> j = i"
  shows "count_list (map f (filter P xs)) v = (if P i then 1 else 0)"
  using assms
proof (induction xs)
  case (Cons x xs)
  show ?case
  proof (cases "x = i")
    case True
    then have "v \<notin> f ` (set xs)" using Cons.prems by auto
    then have "count_list (map f (filter P xs)) v = 0" by (auto simp: count_list_0_iff)
    with True Cons.prems(3) show ?thesis by auto
  next
    case False
    with Cons show ?thesis by auto
  qed
qed simp

lemma set_lines_count:
  assumes "sole_vector io i v"
  shows "count_list (fst (set_lines io l)) v =
    (if bit l i \<and> \<not> bit (io_lines io) i \<and> accepts (redirection io ! i) then 1 else 0)"
proof -
  have wf: "io_wf io" and i: "i < IOAPIC_PINS" and v: "entry_vector (redirection io ! i) = v" "16 \<le> v"
    using assms by (auto simp: sole_vector_def)
  have u: "\<And>j. j \<in> set [0..<IOAPIC_PINS] \<Longrightarrow> entry_vector (redirection io ! j) = v \<longleftrightarrow> j = i"
    using assms by (simp add: sole_vector_def)
  show ?thesis
    unfolding set_lines_eq [OF wf] fst_conv
    by (subst count_list_map_filter [where i = i]) (use i u v in \<open>auto simp: bit_logic IOAPIC_PINS_def\<close>)
qed

lemma set_lines_next:
  assumes "io_wf io" "i < IOAPIC_PINS"
  shows "io_lines (snd (set_lines io l)) = l"
    and "redirection (snd (set_lines io l)) ! i =
      (if bit l i \<and> \<not> bit (io_lines io) i then raise_entry (redirection io ! i) else redirection io ! i)"
  using assms by (auto simp: set_lines_eq bit_logic IOAPIC_PINS_def)

lemma io_run_edge:
  assumes "sole_vector io i v" "\<not> entry_masked (redirection io ! i)" "\<not> entry_level (redirection io ! i)"
  shows "count_list (fst (io_run_lines io ls)) v = rising_edges i (io_lines io) ls"
  using assms
proof (induction ls arbitrary: io)
  case (Cons l ls)
  have wf: "io_wf io" "i < IOAPIC_PINS" using Cons.prems(1) by (auto simp: sole_vector_def)
  have r: "redirection (snd (set_lines io l)) ! i = redirection io ! i"
    using Cons.prems by (simp add: set_lines_next [OF wf] raise_entry_def)
  have "count_list (fst (io_run_lines (snd (set_lines io l)) ls)) v = rising_edges i l ls"
    using Cons.IH [OF sole_vector_set_lines [OF Cons.prems(1)], of l] Cons.prems
    by (simp add: r set_lines_next(1) [OF wf])
  with set_lines_count [OF Cons.prems(1), of l] Cons.prems show ?case
    by (simp add: Let_def split_beta accepts_def)
qed simp

lemma io_run_level_blocked:
  assumes "sole_vector io i v" "entry_level (redirection io ! i)" "entry_irr (redirection io ! i)"
  shows "count_list (fst (io_run_lines io ls)) v = 0"
  using assms
proof (induction ls arbitrary: io)
  case (Cons l ls)
  have wf: "io_wf io" "i < IOAPIC_PINS" using Cons.prems(1) by (auto simp: sole_vector_def)
  have r: "redirection (snd (set_lines io l)) ! i = redirection io ! i"
    using Cons.prems by (simp add: set_lines_next [OF wf] raise_entry_def accepts_def)
  have "count_list (fst (io_run_lines (snd (set_lines io l)) ls)) v = 0"
    using Cons.IH [OF sole_vector_set_lines [OF Cons.prems(1)], of l] Cons.prems by (simp add: r)
  with set_lines_count [OF Cons.prems(1), of l] Cons.prems show ?case
    by (simp add: Let_def split_beta accepts_def)
qed simp

lemma io_run_level:
  assumes "sole_vector io i v" "\<not> entry_masked (redirection io ! i)"
    "entry_level (redirection io ! i)" "\<not> entry_irr (redirection io ! i)"
  shows "count_list (fst (io_run_lines io ls)) v = min 1 (rising_edges i (io_lines io) ls)"
  using assms
proof (induction ls arbitrary: io)
  case (Cons l ls)
  let ?io = "snd (set_lines io l)"
  have wf: "io_wf io" "i < IOAPIC_PINS" using Cons.prems(1) by (auto simp: sole_vector_def)
  note sv = sole_vector_set_lines [OF Cons.prems(1), of l]
  show ?case
  proof (cases "bit l i \<and> \<not> bit (io_lines io) i")
    case True
    then have "redirection ?io ! i = redirection io ! i OR ENTRY_REMOTE_IRR"
      using Cons.prems by (simp add: set_lines_next [OF wf] raise_entry_def accepts_def)
    then have "count_list (fst (io_run_lines ?io ls)) v = 0"
      using Cons.prems by (intro io_run_level_blocked [OF sv]) simp_all
    with True set_lines_count [OF Cons.prems(1), of l] Cons.prems show ?thesis
      by (simp add: Let_def split_beta accepts_def)
  next
    case False
    then have "redirection ?io ! i = redirection io ! i"
      by (auto simp: set_lines_next [OF wf])
    with False Cons.IH [OF sv] set_lines_count [OF Cons.prems(1), of l] Cons.prems show ?thesis
      by (auto simp: Let_def split_beta set_lines_next(1) [OF wf])
  qed
qed simp

section \<open>Properties\<close>

text \<open>
  The loop of \<open>set_lines\<close> updates the pins independently: the vectors returned are those of
  the pins that rise, are unmasked, carry a legal vector (16 or above) and, for a level-triggered
  entry, have no request outstanding, in pin order; exactly the accepted level entries get their
  remote-IRR bit, and no other entry changes.
\<close>
theorem set_lines_spec:
  assumes "io_wf io"
  shows "set_lines io new =
    (map (\<lambda>i. entry_vector (redirection io ! i))
       (filter (\<lambda>i. bit (new AND NOT (io_lines io)) i \<and> accepts (redirection io ! i)
                    \<and> 16 \<le> entry_vector (redirection io ! i)) [0..<IOAPIC_PINS]),
     io\<lparr>io_lines := new,
       redirection := map (\<lambda>i. if bit (new AND NOT (io_lines io)) i
                               then raise_entry (redirection io ! i)
                               else redirection io ! i) [0..<IOAPIC_PINS]\<rparr>)"
  by (rule set_lines_eq [OF assms])

text \<open>
  C20: along any sequence of line levels an unmasked edge-triggered pin delivers its vector once
  per rising edge, and an unmasked level-triggered pin with no request outstanding delivers it at
  most once, on its first rising edge, until an end of interrupt clears remote-IRR.
\<close>
theorem ioapic_deliveries:
  assumes "sole_vector io i v" and "\<not> entry_masked (redirection io ! i)"
    and "\<not> entry_irr (redirection io ! i)"
  shows "count_list (fst (io_run_lines io ls)) v =
    (if entry_level (redirection io ! i) then min 1 (rising_edges i (io_lines io) ls)
     else rising_edges i (io_lines io) ls)"
  using io_run_edge io_run_level assms by simp

text \<open>
  C35: a directed EOI written to the IOEOI register while the level line is still asserted
  discards the refired vector but keeps remote-IRR set, so the pin delivers nothing along any
  later sequence of line levels; the local APIC's own EOI on the same state refires the vector.
\<close>
theorem ioapic_directed_eoi_drops_refire:
  assumes "sole_vector io i (ucast (value AND 0xFF))"
    and "awaiting_eoi (ucast (value AND 0xFF)) (redirection io ! i)"
    and "bit (io_lines io) i" and "\<not> entry_masked (redirection io ! i)"
  defines "v \<equiv> ucast (value AND 0xFF) :: u8"
  shows "count_list (fst (io_run_lines (ioapic_write io 0x40 sz value) ls)) v = 0
    \<and> v \<in> set (fst (ioapic_end_of_interrupt io v))"
proof -
  have wf: "io_wf io" and i: "i < IOAPIC_PINS" using assms(1) by (auto simp: sole_vector_def)
  let ?io = "ioapic_write io 0x40 sz value"
  have io: "?io = snd (ioapic_end_of_interrupt io v)"
    by (simp add: ioapic_write_def v_def)
  have "redirection ?io ! i = redirection io ! i"
    using assms(2-4) i unfolding io ioapic_eoi_eq [OF wf] by simp
  moreover have "sole_vector ?io i v"
    using assms(1) wf unfolding io v_def [symmetric]
    by (simp add: sole_vector_def io_wf_eoi) (simp add: ioapic_eoi_eq)
  ultimately have "count_list (fst (io_run_lines ?io ls)) v = 0"
    using assms(2) by (intro io_run_level_blocked) (auto simp: awaiting_eoi_def)
  moreover have "v \<in> set (fst (ioapic_end_of_interrupt io v))"
    using assms(2-4) i unfolding ioapic_eoi_eq [OF wf] v_def by auto
  ultimately show ?thesis by simp
qed

section \<open>Witnesses\<close>

text \<open>Pin 9 as a level entry with vector 0x49, pin 4 as an edge entry with vector 0x44.\<close>

definition io_example :: io_apic where
  "io_example = io_apic_new\<lparr>redirection :=
     (replicate IOAPIC_PINS ENTRY_MASKED)[4 := 0x44, 9 := 0x49 OR ENTRY_LEVEL_TRIGGERED]\<rparr>"

lemma io_example_facts:
  "io_wf io_example" "sole_vector io_example 4 0x44"
  "sole_vector (snd (set_lines io_example 0x200)) 9 0x49"
  "awaiting_eoi 0x49 (redirection (snd (set_lines io_example 0x200)) ! 9)"
  "io_lines (snd (set_lines io_example 0x200)) = 0x200"
  "\<not> entry_masked (redirection (snd (set_lines io_example 0x200)) ! 9)"
  by code_simp+

theorem set_lines_spec_witness: "fst (set_lines io_example 0x210) = [0x44, 0x49]"
  unfolding set_lines_spec [OF io_example_facts(1)] by code_simp

theorem ioapic_deliveries_witness:
  "count_list (fst (io_run_lines io_example [0x10, 0, 0x10, 0x10])) 0x44 = 2"
  using ioapic_deliveries [OF io_example_facts(2), of "[0x10, 0, 0x10, 0x10]"]
  by (simp add: io_example_def entry_masked_def entry_irr_def entry_level_def io_apic_new_def
      IOAPIC_PINS_def)

theorem ioapic_directed_eoi_drops_refire_witness:
  "count_list (fst (io_run_lines (ioapic_write (snd (set_lines io_example 0x200)) 0x40 4 0x49)
     [0, 0x200])) 0x49 = 0"
  using ioapic_directed_eoi_drops_refire [of "snd (set_lines io_example 0x200)" 9 "0x49"] io_example_facts
  by (simp del: io_run_lines.simps)

end
