(* ===== verification/Local_Apic.thy ===== *)
theory Local_Apic
  imports Cpu_Error
begin

text \<open>
  The local APIC (\<open>devices/lapic.rs\<close>): the request and in-service bitmaps, the priority rule of
  \<open>dispatch_ready\<close>, EOI, self-IPI, the divided countdown timer and the register file. The bitmaps
  are refined to sets of vectors, on which the dispatch rule is stated with maxima.
\<close>

section \<open>State\<close>

definition QUEUE_LIMIT :: nat where "QUEUE_LIMIT = 64"
definition LVT_MASKED :: u32 where "LVT_MASKED = shl1 16"
definition LVT_TIMER_MODE :: u32 where "LVT_TIMER_MODE = push_bit 17 3"
definition LVT_TIMER_PERIODIC :: u32 where "LVT_TIMER_PERIODIC = shl1 17"
definition SVR_ENABLED :: u32 where "SVR_ENABLED = shl1 8"

record local_apic =
  la_id :: u32
  la_svr :: u32
  la_tpr :: u32
  la_ldr :: u32
  la_dfr :: u32
  la_esr :: u32
  la_icr_lo :: u32
  la_icr_hi :: u32
  lvt_timer :: u32
  lvt_thermal :: u32
  lvt_perf :: u32
  lvt_lint0 :: u32
  lvt_lint1 :: u32
  lvt_error :: u32
  timer_initial :: u32
  timer_current :: u32
  timer_divide :: u32
  timer_fractional :: u64
  la_irr :: "u32 list"
  la_isr :: "u32 list"
  interrupt_queue :: "u8 list"

definition local_apic_new :: local_apic where
  "local_apic_new = \<lparr>la_id = 0, la_svr = 0xFF, la_tpr = 0, la_ldr = 0, la_dfr = 0xFFFFFFFF, la_esr = 0,
     la_icr_lo = 0, la_icr_hi = 0, lvt_timer = LVT_MASKED, lvt_thermal = LVT_MASKED,
     lvt_perf = LVT_MASKED, lvt_lint0 = LVT_MASKED, lvt_lint1 = LVT_MASKED, lvt_error = LVT_MASKED,
     timer_initial = 0, timer_current = 0, timer_divide = 0, timer_fractional = 0,
     la_irr = replicate 8 0, la_isr = replicate 8 0, interrupt_queue = []\<rparr>"

section \<open>Operations\<close>

definition software_enabled :: "local_apic \<Rightarrow> bool" where
  "software_enabled l \<longleftrightarrow> la_svr l AND SVR_ENABLED \<noteq> 0"

text \<open>\<open>leading_zeros\<close> of a 32-bit value; 32 for zero, as in Rust.\<close>

definition leading_zeros32 :: "u32 \<Rightarrow> nat" where
  "leading_zeros32 w = length (takeWhile (\<lambda>i. \<not> bit w i) (rev [0..<32]))"

fun highest_from :: "nat \<Rightarrow> u32 list \<Rightarrow> u8 option" where
  "highest_from 0 bitmap = None"
| "highest_from (Suc index) bitmap =
     (let word = bitmap ! index
      in if word \<noteq> 0 then Some (of_nat (index * 32 + (31 - leading_zeros32 word)))
         else highest_from index bitmap)"

definition highest :: "u32 list \<Rightarrow> u8 option" where
  "highest bitmap = highest_from 8 bitmap"

definition set_vector :: "u32 list \<Rightarrow> u8 \<Rightarrow> u32 list" where
  "set_vector bm v = bm[unat v div 32 := bm ! (unat v div 32) OR shl1 (unat v mod 32)]"

definition clear_vector :: "u32 list \<Rightarrow> u8 \<Rightarrow> u32 list" where
  "clear_vector bm v = bm[unat v div 32 := bm ! (unat v div 32) AND NOT (shl1 (unat v mod 32))]"

definition request :: "local_apic \<Rightarrow> u8 \<Rightarrow> local_apic" where
  "request l vector = l\<lparr>la_irr := set_vector (la_irr l) vector\<rparr>"

definition dispatch_ready :: "local_apic \<Rightarrow> local_apic" where
  "dispatch_ready l =
     (if \<not> software_enabled l then l
      else case highest (la_irr l) of None \<Rightarrow> l
      | Some vector \<Rightarrow>
          let priority = drop_bit 4 (ucast vector) :: u32
          in if priority \<le> drop_bit 4 (la_tpr l) then l
             else if (case highest (la_isr l) of None \<Rightarrow> False
                      | Some in_service \<Rightarrow> priority \<le> drop_bit 4 (ucast in_service)) then l
             else l\<lparr>la_irr := clear_vector (la_irr l) vector,
                    la_isr := set_vector (la_isr l) vector,
                    interrupt_queue := (if length (interrupt_queue l) < QUEUE_LIMIT
                      then interrupt_queue l @ [vector] else interrupt_queue l)\<rparr>)"

definition lapic_end_of_interrupt :: "local_apic \<Rightarrow> u8 option \<times> local_apic" where
  "lapic_end_of_interrupt l =
     (let retired = highest (la_isr l);
          l = (case retired of None \<Rightarrow> l | Some vector \<Rightarrow> l\<lparr>la_isr := clear_vector (la_isr l) vector\<rparr>)
      in (retired, dispatch_ready l))"

definition pop_interrupt :: "local_apic \<Rightarrow> u8 option \<times> local_apic" where
  "pop_interrupt l = (case interrupt_queue l of [] \<Rightarrow> (None, l)
     | v # q \<Rightarrow> (Some v, l\<lparr>interrupt_queue := q\<rparr>))"

definition raise_lvt :: "local_apic \<Rightarrow> u32 \<Rightarrow> local_apic" where
  "raise_lvt l entry =
     (if entry AND LVT_MASKED \<noteq> 0 \<or> \<not> software_enabled l then l
      else let vector = ucast (entry AND 0xFF)
           in if 16 \<le> vector then request l vector else l)"

definition divisor :: "u32 \<Rightarrow> u64" where
  "divisor configuration =
     (let c = configuration AND 0xB
      in if c = 0 then 2 else if c = 1 then 4 else if c = 2 then 8 else if c = 3 then 16
         else if c = 8 then 32 else if c = 9 then 64 else if c = 0xA then 128
         else 1)"

definition advance_timer :: "local_apic \<Rightarrow> u32 \<Rightarrow> local_apic" where
  "advance_timer l instructions =
     (if timer_initial l = 0 \<or> timer_current l = 0 then l
      else let divide = divisor (timer_divide l);
               fractional = saturating_add (timer_fractional l) (ucast instructions);
               elapsed = fractional div divide
           in if elapsed = 0 then l\<lparr>timer_fractional := fractional\<rparr>
              else let l = l\<lparr>timer_fractional := fractional - elapsed * divide\<rparr>;
                       periodic = (lvt_timer l AND LVT_TIMER_MODE = LVT_TIMER_PERIODIC);
                       remaining = ucast (timer_current l)
                   in if elapsed < remaining
                      then l\<lparr>timer_current := timer_current l - ucast elapsed\<rparr>
                      else if periodic
                      then let period = ucast (timer_initial l) :: u64;
                               overshoot = elapsed - remaining
                           in raise_lvt (l\<lparr>timer_current := ucast (period - overshoot mod period)\<rparr>)
                                (lvt_timer l)
                      else raise_lvt (l\<lparr>timer_current := 0\<rparr>) (lvt_timer l))"

definition lapic_tick :: "local_apic \<Rightarrow> u32 \<Rightarrow> local_apic" where
  "lapic_tick l instructions = dispatch_ready (advance_timer l instructions)"

definition processor_priority :: "local_apic \<Rightarrow> u32" where
  "processor_priority l =
     (let in_service = (case highest (la_isr l) of None \<Rightarrow> 0
                        | Some v \<Rightarrow> push_bit 4 (drop_bit 4 (ucast v)));
          task = la_tpr l AND 0xF0
      in max task in_service)"

definition lapic_register :: "local_apic \<Rightarrow> u64 \<Rightarrow> u32" where
  "lapic_register l aligned =
     (if aligned = 0x20 then push_bit 24 (la_id l)
      else if aligned = 0x30 then 0x00050014
      else if aligned = 0x80 then la_tpr l
      else if aligned = 0x90 then 0
      else if aligned = 0xA0 then processor_priority l
      else if aligned = 0xB0 \<or> aligned = 0xC0 then 0
      else if aligned = 0xD0 then la_ldr l
      else if aligned = 0xE0 then la_dfr l
      else if aligned = 0xF0 then la_svr l
      else if 0x100 \<le> aligned \<and> aligned \<le> 0x17F then la_isr l ! unat ((aligned - 0x100) div 16)
      else if 0x180 \<le> aligned \<and> aligned \<le> 0x1FF then 0
      else if 0x200 \<le> aligned \<and> aligned \<le> 0x27F then la_irr l ! unat ((aligned - 0x200) div 16)
      else if aligned = 0x280 then la_esr l
      else if aligned = 0x300 then la_icr_lo l AND NOT (shl1 12)
      else if aligned = 0x310 then la_icr_hi l
      else if aligned = 0x320 then lvt_timer l
      else if aligned = 0x330 then lvt_thermal l
      else if aligned = 0x340 then lvt_perf l
      else if aligned = 0x350 then lvt_lint0 l
      else if aligned = 0x360 then lvt_lint1 l
      else if aligned = 0x370 then lvt_error l
      else if aligned = 0x380 then timer_initial l
      else if aligned = 0x390 then timer_current l
      else if aligned = 0x3E0 then timer_divide l
      else 0)"

definition lapic_read :: "local_apic \<Rightarrow> u64 \<Rightarrow> u8 \<Rightarrow> u32" where
  "lapic_read l offset sz =
     (let value = lapic_register l (offset AND NOT 3)
      in if sz = 1 then drop_bit (unat ((offset AND 3) * 8)) value AND 0xFF
         else if sz = 2 then drop_bit (unat ((offset AND 2) * 8)) value AND 0xFFFF
         else value)"

definition send_ipi :: "local_apic \<Rightarrow> u32 \<Rightarrow> local_apic" where
  "send_ipi l value =
     (let l = l\<lparr>la_icr_lo := value\<rparr>
      in if value AND push_bit 8 7 \<noteq> 0 then l
         else let shorthand = value AND push_bit 18 3;
                  to_self = (shorthand = push_bit 18 1
                    \<or> (shorthand = 0 \<and> drop_bit 24 (la_icr_hi l) = la_id l))
              in if \<not> to_self then l
                 else let vector = ucast (value AND 0xFF)
                      in if 16 \<le> vector then dispatch_ready (request l vector) else l)"

definition lapic_write :: "local_apic \<Rightarrow> u64 \<Rightarrow> u8 \<Rightarrow> u32 \<Rightarrow> u8 option \<times> local_apic" where
  "lapic_write l offset sz value =
     (if sz \<noteq> 4 then (None, l)
      else if offset = 0x20 then (None, l\<lparr>la_id := drop_bit 24 value\<rparr>)
      else if offset = 0x80 then (None, dispatch_ready (l\<lparr>la_tpr := value AND 0xFF\<rparr>))
      else if offset = 0xB0 then lapic_end_of_interrupt l
      else if offset = 0xD0 then (None, l\<lparr>la_ldr := value AND 0xFF000000\<rparr>)
      else if offset = 0xE0 then (None, l\<lparr>la_dfr := value OR 0x0FFFFFFF\<rparr>)
      else if offset = 0xF0 then
        (let l = l\<lparr>la_svr := value\<rparr> in (None, if software_enabled l then dispatch_ready l else l))
      else if offset = 0x280 then (None, l\<lparr>la_esr := 0\<rparr>)
      else if offset = 0x310 then (None, l\<lparr>la_icr_hi := value\<rparr>)
      else if offset = 0x300 then (None, send_ipi l value)
      else if offset = 0x320 then (None, l\<lparr>lvt_timer := value\<rparr>)
      else if offset = 0x330 then (None, l\<lparr>lvt_thermal := value\<rparr>)
      else if offset = 0x340 then (None, l\<lparr>lvt_perf := value\<rparr>)
      else if offset = 0x350 then (None, l\<lparr>lvt_lint0 := value\<rparr>)
      else if offset = 0x360 then (None, l\<lparr>lvt_lint1 := value\<rparr>)
      else if offset = 0x370 then (None, l\<lparr>lvt_error := value\<rparr>)
      else if offset = 0x380 then
        (None, l\<lparr>timer_initial := value, timer_current := value, timer_fractional := 0\<rparr>)
      else if offset = 0x3E0 then (None, l\<lparr>timer_divide := value AND 0xB\<rparr>)
      else (None, l))"

section \<open>Bitmaps as sets of vectors\<close>

definition vset :: "u32 list \<Rightarrow> nat set" where
  "vset bm = {v. v < 256 \<and> bit (bm ! (v div 32)) (v mod 32)}"

lemma finite_vset [simp]: "finite (vset bm)"
  by (rule finite_subset [of _ "{..<256}"]) (auto simp: vset_def)

lemma length_takeWhile_less: "x \<in> set xs \<Longrightarrow> \<not> P x \<Longrightarrow> length (takeWhile P xs) < length xs"
  by (induction xs) auto

lemma leading_zeros32_top:
  assumes "w \<noteq> 0"
  shows "bit w (31 - leading_zeros32 w)" "31 - leading_zeros32 w < 32"
    and "\<And>i. bit w i \<Longrightarrow> i \<le> 31 - leading_zeros32 w"
proof -
  let ?n = "leading_zeros32 w" and ?xs = "rev [0..<32::nat]"
  obtain j where j: "bit w j" using assms by (auto simp: word_eq_0_iff_bits)
  then have j32: "j < 32" using bit_imp_le_length by fastforce
  have n: "?n < length ?xs"
    unfolding leading_zeros32_def
    by (rule length_takeWhile_less [of j]) (use j j32 in auto)
  have "bit w (?xs ! ?n)"
    using nth_length_takeWhile [OF n [unfolded leading_zeros32_def]] by (simp add: leading_zeros32_def)
  moreover have "?xs ! ?n = 31 - ?n" using n by (simp add: rev_nth)
  ultimately show "bit w (31 - ?n)" by simp
  show "31 - ?n < 32" by simp
  fix i assume i: "bit w i"
  then have i32: "i < 32" using bit_imp_le_length by fastforce
  show "i \<le> 31 - ?n"
  proof (rule ccontr)
    assume "\<not> i \<le> 31 - ?n"
    then have "31 - i < ?n" using i32 by simp
    then have "\<not> bit w (?xs ! (31 - i))"
      using nth_mem [of "31 - i" "takeWhile (\<lambda>i. \<not> bit w i) ?xs"]
      by (metis leading_zeros32_def set_takeWhileD takeWhile_nth)
    with i i32 show False by (simp add: rev_nth)
  qed
qed

lemma highest_from_None: "highest_from n bm = None \<longleftrightarrow> (\<forall>v < 32 * n. \<not> bit (bm ! (v div 32)) (v mod 32))"
proof (induction n)
  case (Suc n)
  have "(\<forall>v < 32 * Suc n. \<not> bit (bm ! (v div 32)) (v mod 32))
    \<longleftrightarrow> (\<forall>v < 32 * n. \<not> bit (bm ! (v div 32)) (v mod 32)) \<and> (\<forall>k < 32. \<not> bit (bm ! n) k)"
  proof safe
    fix v assume a: "\<forall>v < 32 * n. \<not> bit (bm ! (v div 32)) (v mod 32)" "\<forall>k < 32. \<not> bit (bm ! n) k"
      and v: "v < 32 * Suc n" "bit (bm ! (v div 32)) (v mod 32)"
    show False
    proof (cases "v < 32 * n")
      case False
      with v have "v div 32 = n" by (auto intro: div_nat_eqI)
      with a v show False by simp
    qed (use a v in auto)
  next
    fix k :: nat assume a: "\<forall>v < 32 * Suc n. \<not> bit (bm ! (v div 32)) (v mod 32)" "k < 32" "bit (bm ! n) k"
    then show False by (auto dest: spec [of _ "32 * n + k"])
  qed auto
  moreover have "bm ! n = 0 \<longleftrightarrow> (\<forall>k < 32. \<not> bit (bm ! n) k)"
    by (simp add: word_eq_0_iff_bits)
  ultimately show ?case using Suc by (simp add: Let_def)
qed simp

lemma highest_from_Some:
  assumes "highest_from n bm = Some x" "n \<le> 8"
  shows "unat x < 32 * n \<and> bit (bm ! (unat x div 32)) (unat x mod 32)
    \<and> (\<forall>v < 32 * n. bit (bm ! (v div 32)) (v mod 32) \<longrightarrow> v \<le> unat x)"
  using assms
proof (induction n)
  case (Suc n)
  show ?case
  proof (cases "bm ! n = 0")
    case True
    with Suc have IH: "unat x < 32 * n" "bit (bm ! (unat x div 32)) (unat x mod 32)"
      "\<And>v. v < 32 * n \<Longrightarrow> bit (bm ! (v div 32)) (v mod 32) \<Longrightarrow> v \<le> unat x" by auto
    have "v < 32 * n" if "v < 32 * Suc n" "bit (bm ! (v div 32)) (v mod 32)" for v
    proof (rule ccontr)
      assume "\<not> v < 32 * n"
      with that(1) have "v div 32 = n" by (auto intro: div_nat_eqI)
      with that(2) True show False by simp
    qed
    with IH show ?thesis by auto
  next
    case False
    note top = leading_zeros32_top [OF False]
    let ?b = "31 - leading_zeros32 (bm ! n)"
    have xb: "x = of_nat (n * 32 + ?b)" using Suc.prems False by (simp add: Let_def)
    have x: "unat x = n * 32 + ?b"
      unfolding xb by (rule unat_of_nat_small) (use Suc.prems top(2) in simp)
    have "v \<le> unat x" if "v < 32 * Suc n" "bit (bm ! (v div 32)) (v mod 32)" for v
    proof (cases "v div 32 = n")
      case True
      with that(2) top(3) have "v mod 32 \<le> ?b" by simp
      with True x show ?thesis by (metis add_le_cancel_left div_mult_mod_eq)
    next
      case False
      with that(1) have "v < 32 * n" by (metis div_less_iff_less_mult less_Suc_eq mult.commute zero_less_numeral)
      with x show ?thesis by simp
    qed
    then show ?thesis using x top(1,2) by simp
  qed
qed simp

lemma highest_None: "highest bm = None \<longleftrightarrow> vset bm = {}"
  by (auto simp: highest_def highest_from_None vset_def)

lemma highest_Some: "highest bm = Some x \<longleftrightarrow> vset bm \<noteq> {} \<and> unat x = Max (vset bm)"
proof -
  have "unat x = Max (vset bm)" if "highest bm = Some x" for x
    using highest_from_Some [OF that [unfolded highest_def]]
    by (intro Max_eqI [symmetric]) (auto simp: vset_def)
  then show ?thesis
    by (metis highest_None option.distinct(1) option.exhaust word_unat_eq_iff)
qed

lemma vector_index: "unat v div 32 < 8" for v :: u8
  using unat_bound [of v] by simp

lemma vset_set_vector:
  assumes "length bm = 8"
  shows "vset (set_vector bm v) = insert (unat v) (vset bm)"
proof -
  have v: "unat v < 256" using unat_bound [of v] by simp
  have "bit (set_vector bm v ! (w div 32)) (w mod 32) \<longleftrightarrow> w = unat v \<or> bit (bm ! (w div 32)) (w mod 32)"
    if "w < 256" for w
    using assms vector_index [of v] that
    by (auto simp: set_vector_def nth_list_update bit_logic) (metis div_mult_mod_eq)
  with v show ?thesis by (auto simp: vset_def)
qed

lemma vset_clear_vector:
  assumes "length bm = 8"
  shows "vset (clear_vector bm v) = vset bm - {unat v}"
proof -
  have "bit (clear_vector bm v ! (w div 32)) (w mod 32) \<longleftrightarrow> w \<noteq> unat v \<and> bit (bm ! (w div 32)) (w mod 32)"
    if "w < 256" for w
    using assms vector_index [of v] that
    by (auto simp: clear_vector_def nth_list_update bit_logic) (metis div_mult_mod_eq)
  then show ?thesis by (auto simp: vset_def)
qed

lemma length_set_clear [simp]:
  "length (set_vector bm v) = length bm" "length (clear_vector bm v) = length bm"
  by (simp_all add: set_vector_def clear_vector_def)

section \<open>The abstract controller\<close>

text \<open>
  Vectors as numbers below 256, the bitmaps as sets; the priority class of a vector is its upper
  nibble.
\<close>

record abs_lapic =
  abs_enabled :: bool
  abs_task_class :: nat
  abs_requested :: "nat set"
  abs_in_service :: "nat set"
  abs_queue :: "nat list"

definition lapic_abs :: "local_apic \<Rightarrow> abs_lapic" where
  "lapic_abs l = \<lparr>abs_enabled = software_enabled l, abs_task_class = unat (la_tpr l) div 16,
     abs_requested = vset (la_irr l), abs_in_service = vset (la_isr l),
     abs_queue = map unat (interrupt_queue l)\<rparr>"

definition abs_ready :: "abs_lapic \<Rightarrow> bool" where
  "abs_ready a \<longleftrightarrow> abs_enabled a \<and> abs_requested a \<noteq> {}
     \<and> abs_task_class a < Max (abs_requested a) div 16
     \<and> (\<forall>s \<in> abs_in_service a. s div 16 < Max (abs_requested a) div 16)"

definition abs_dispatch :: "abs_lapic \<Rightarrow> abs_lapic" where
  "abs_dispatch a =
     (if abs_ready a
      then let v = Max (abs_requested a)
           in a\<lparr>abs_requested := abs_requested a - {v}, abs_in_service := insert v (abs_in_service a),
                abs_queue := (if length (abs_queue a) < QUEUE_LIMIT then abs_queue a @ [v] else abs_queue a)\<rparr>
      else a)"

definition abs_request :: "abs_lapic \<Rightarrow> nat \<Rightarrow> abs_lapic" where
  "abs_request a v = a\<lparr>abs_requested := insert v (abs_requested a)\<rparr>"

definition abs_eoi :: "abs_lapic \<Rightarrow> nat option \<times> abs_lapic" where
  "abs_eoi a =
     (if abs_in_service a = {} then (None, abs_dispatch a)
      else let v = Max (abs_in_service a)
           in (Some v, abs_dispatch (a\<lparr>abs_in_service := abs_in_service a - {v}\<rparr>)))"

definition lapic_wf :: "local_apic \<Rightarrow> bool" where
  "lapic_wf l \<longleftrightarrow> length (la_irr l) = 8 \<and> length (la_isr l) = 8
     \<and> inj_on (\<lambda>v. v div 16) (vset (la_isr l))
     \<and> length (interrupt_queue l) \<le> QUEUE_LIMIT
     \<and> timer_current l \<le> timer_initial l"

lemma unat_task: "unat (drop_bit 4 (t :: u32)) = unat t div 16"
  by (simp only: drop_bit_eq_div unat_div) simp

lemma unat_class: "unat (drop_bit 4 (ucast v :: u32)) = unat v div 16" for v :: u8
  by (simp only: unat_task) (simp add: unat_ucast_up)

lemma lapic_abs_simps [simp]:
  "abs_enabled (lapic_abs l) = software_enabled l"
  "abs_task_class (lapic_abs l) = unat (la_tpr l) div 16"
  "abs_requested (lapic_abs l) = vset (la_irr l)"
  "abs_in_service (lapic_abs l) = vset (la_isr l)"
  "abs_queue (lapic_abs l) = map unat (interrupt_queue l)"
  by (simp_all add: lapic_abs_def)

text \<open>The classes in service are all below \<open>c\<close> exactly when the highest vector's class is.\<close>

lemma in_service_below:
  "(case highest bm of None \<Rightarrow> False | Some s \<Rightarrow> c \<le> unat s div 16) \<longleftrightarrow> \<not> (\<forall>s \<in> vset bm. s div 16 < c)"
proof (cases "highest bm")
  case None
  then have "vset bm = {}" by (simp add: highest_None)
  with None show ?thesis by simp
next
  case (Some x)
  then have ne: "vset bm \<noteq> {}" and x: "unat x = Max (vset bm)" by (auto simp: highest_Some)
  have "(\<forall>s \<in> vset bm. s div 16 < c) \<longleftrightarrow> Max (vset bm) div 16 < c"
  proof
    assume "Max (vset bm) div 16 < c"
    then show "\<forall>s \<in> vset bm. s div 16 < c"
      using div_le_mono [OF Max_ge [OF finite_vset]] by (meson le_less_trans)
  qed (use Max_in [OF finite_vset ne] in blast)
  with Some x show ?thesis by (simp add: not_less)
qed

lemma dispatch_ready_cases:
  "dispatch_ready l =
     (if abs_ready (lapic_abs l)
      then let v = of_nat (Max (vset (la_irr l)))
           in l\<lparr>la_irr := clear_vector (la_irr l) v, la_isr := set_vector (la_isr l) v,
                interrupt_queue := (if length (interrupt_queue l) < QUEUE_LIMIT
                  then interrupt_queue l @ [v] else interrupt_queue l)\<rparr>
      else l)"
proof (cases "highest (la_irr l)")
  case None
  then have "vset (la_irr l) = {}" by (simp add: highest_None)
  with None show ?thesis by (simp add: dispatch_ready_def abs_ready_def)
next
  case (Some x)
  then have x: "vset (la_irr l) \<noteq> {}" "Max (vset (la_irr l)) = unat x" by (auto simp: highest_Some)
  have s: "(case highest (la_isr l) of None \<Rightarrow> False
      | Some s \<Rightarrow> drop_bit 4 (ucast x :: u32) \<le> drop_bit 4 (ucast s)) \<longleftrightarrow>
      \<not> (\<forall>s \<in> vset (la_isr l). s div 16 < unat x div 16)"
    using in_service_below [where bm = "la_isr l" and c = "unat x div 16"]
    by (simp add: word_le_nat_alt unat_class split: option.splits)
  have t: "drop_bit 4 (ucast x :: u32) \<le> drop_bit 4 (la_tpr l) \<longleftrightarrow> unat x div 16 \<le> unat (la_tpr l) div 16"
    by (simp add: word_le_nat_alt unat_task unat_ucast_up)
  show ?thesis
    using x by (auto simp: dispatch_ready_def Some s t abs_ready_def Let_def)
qed

lemma vset_bound: "v \<in> vset bm \<Longrightarrow> v < 256"
  by (simp add: vset_def)

lemma abs_dispatch_ready:
  assumes "lapic_wf l"
  shows "lapic_abs (dispatch_ready l) = abs_dispatch (lapic_abs l)"
proof (cases "abs_ready (lapic_abs l)")
  case True
  let ?m = "Max (vset (la_irr l))"
  from True have "vset (la_irr l) \<noteq> {}" by (simp add: abs_ready_def)
  then have "?m < 256" by (intro vset_bound [of _ "la_irr l"]) simp
  then have m: "unat (of_nat ?m :: u8) = ?m" by (intro unat_of_nat_small) simp
  from assms True show ?thesis
    by (simp add: dispatch_ready_cases abs_dispatch_def Let_def lapic_abs_def software_enabled_def
        vset_set_vector vset_clear_vector m lapic_wf_def)
next
  case False
  then show ?thesis by (simp add: dispatch_ready_cases abs_dispatch_def)
qed

lemma abs_lapic_eoi:
  assumes "lapic_wf l"
  shows "map_option unat (fst (lapic_end_of_interrupt l)) = fst (abs_eoi (lapic_abs l))
    \<and> lapic_abs (snd (lapic_end_of_interrupt l)) = snd (abs_eoi (lapic_abs l))"
proof (cases "highest (la_isr l)")
  case None
  then have "vset (la_isr l) = {}" by (simp add: highest_None)
  with None show ?thesis
    by (simp add: lapic_end_of_interrupt_def abs_eoi_def abs_dispatch_ready [OF assms])
next
  case (Some x)
  let ?l = "l\<lparr>la_isr := clear_vector (la_isr l) x\<rparr>"
  from Some have x: "vset (la_isr l) \<noteq> {}" "Max (vset (la_isr l)) = unat x" by (auto simp: highest_Some)
  have v: "vset (clear_vector (la_isr l) x) = vset (la_isr l) - {unat x}"
    using assms by (intro vset_clear_vector) (simp add: lapic_wf_def)
  have "lapic_wf ?l" using assms by (auto simp: lapic_wf_def v inj_on_diff)
  then have "lapic_abs (dispatch_ready ?l) = abs_dispatch (lapic_abs ?l)"
    by (rule abs_dispatch_ready)
  moreover have "lapic_abs ?l = lapic_abs l\<lparr>abs_in_service := vset (la_isr l) - {unat x}\<rparr>"
    by (simp add: lapic_abs_def software_enabled_def v)
  ultimately show ?thesis
    using Some x by (simp add: lapic_end_of_interrupt_def abs_eoi_def Let_def)
qed

section \<open>Invariant\<close>

lemma lapic_wf_new: "lapic_wf local_apic_new"
proof -
  have "replicate 8 (0 :: u32) ! (v div 32) = 0" if "v < 256" for v
    by (rule nth_replicate) (use that in simp)
  then have "vset (replicate 8 0) = {}"
    unfolding vset_def by (metis (mono_tags, lifting) bit_0_eq bot_apply bot_bool_def empty_Collect_eq)
  then show ?thesis by (simp add: lapic_wf_def local_apic_new_def)
qed

lemma lapic_wf_dispatch [wf_intros]:
  assumes "lapic_wf l"
  shows "lapic_wf (dispatch_ready l)"
proof (cases "abs_ready (lapic_abs l)")
  case True
  let ?m = "Max (vset (la_irr l))"
  from True have ne: "vset (la_irr l) \<noteq> {}" and hi: "\<And>s. s \<in> vset (la_isr l) \<Longrightarrow> s div 16 < ?m div 16"
    by (auto simp: abs_ready_def)
  then have "?m < 256" by (intro vset_bound [of _ "la_irr l"]) simp
  then have m: "unat (of_nat ?m :: u8) = ?m" by (intro unat_of_nat_small) simp
  have "inj_on (\<lambda>v. v div 16) (insert ?m (vset (la_isr l)))"
    using assms hi by (auto simp: lapic_wf_def) (metis image_eqI nat_neq_iff)
  with assms True show ?thesis
    by (simp add: dispatch_ready_cases Let_def lapic_wf_def vset_set_vector m)
next
  case False
  with assms show ?thesis by (simp add: dispatch_ready_cases)
qed

lemma lapic_wf_eoi [wf_intros]:
  assumes "lapic_wf l"
  shows "lapic_wf (snd (lapic_end_of_interrupt l))"
proof (cases "highest (la_isr l)")
  case None
  with assms show ?thesis by (simp add: lapic_end_of_interrupt_def lapic_wf_dispatch)
next
  case (Some x)
  have "vset (clear_vector (la_isr l) x) = vset (la_isr l) - {unat x}"
    using assms by (intro vset_clear_vector) (simp add: lapic_wf_def)
  with assms have "lapic_wf (l\<lparr>la_isr := clear_vector (la_isr l) x\<rparr>)"
    by (simp add: lapic_wf_def inj_on_diff)
  with Some show ?thesis by (simp add: lapic_end_of_interrupt_def lapic_wf_dispatch)
qed

lemma lapic_wf_request [wf_intros]: "lapic_wf l \<Longrightarrow> lapic_wf (request l v)"
  by (simp add: lapic_wf_def request_def)

lemma lapic_wf_raise [wf_intros]: "lapic_wf l \<Longrightarrow> lapic_wf (raise_lvt l e)"
  by (simp add: raise_lvt_def Let_def lapic_wf_request)

lemma lapic_wf_pop [wf_intros]: "lapic_wf l \<Longrightarrow> lapic_wf (snd (pop_interrupt l))"
  by (auto simp: lapic_wf_def pop_interrupt_def split: list.splits)

lemma lapic_wf_update [simp]:
  "lapic_wf (l\<lparr>la_id := x0\<rparr>) = lapic_wf l"
  "lapic_wf (l\<lparr>la_svr := x1\<rparr>) = lapic_wf l"
  "lapic_wf (l\<lparr>la_tpr := x2\<rparr>) = lapic_wf l"
  "lapic_wf (l\<lparr>la_ldr := x3\<rparr>) = lapic_wf l"
  "lapic_wf (l\<lparr>la_dfr := x4\<rparr>) = lapic_wf l"
  "lapic_wf (l\<lparr>la_esr := x5\<rparr>) = lapic_wf l"
  "lapic_wf (l\<lparr>la_icr_lo := x6\<rparr>) = lapic_wf l"
  "lapic_wf (l\<lparr>la_icr_hi := x7\<rparr>) = lapic_wf l"
  "lapic_wf (l\<lparr>lvt_timer := x8\<rparr>) = lapic_wf l"
  "lapic_wf (l\<lparr>lvt_thermal := x9\<rparr>) = lapic_wf l"
  "lapic_wf (l\<lparr>lvt_perf := x10\<rparr>) = lapic_wf l"
  "lapic_wf (l\<lparr>lvt_lint0 := x11\<rparr>) = lapic_wf l"
  "lapic_wf (l\<lparr>lvt_lint1 := x12\<rparr>) = lapic_wf l"
  "lapic_wf (l\<lparr>lvt_error := x13\<rparr>) = lapic_wf l"
  "lapic_wf (l\<lparr>timer_divide := x14\<rparr>) = lapic_wf l"
  "lapic_wf (l\<lparr>timer_fractional := x15\<rparr>) = lapic_wf l"
  by (simp_all add: lapic_wf_def)

lemma lapic_wf_timer [wf_intros]:
  "lapic_wf l \<Longrightarrow> c \<le> i \<Longrightarrow> lapic_wf (l\<lparr>timer_initial := i, timer_current := c\<rparr>)"
  by (simp add: lapic_wf_def)

lemma lapic_wf_ipi [wf_intros]: "lapic_wf l \<Longrightarrow> lapic_wf (send_ipi l v)"
  by (simp add: send_ipi_def Let_def wf_intros)

lemma lapic_wf_write [wf_intros]: "lapic_wf l \<Longrightarrow> lapic_wf (snd (lapic_write l offset sz v))"
  by (simp add: lapic_write_def Let_def wf_intros)

section \<open>The countdown timer\<close>

definition timer_divisor :: "local_apic \<Rightarrow> nat" where
  "timer_divisor l = unat (divisor (timer_divide l))"

definition timer_period :: "local_apic \<Rightarrow> nat" where
  "timer_period l = unat (timer_initial l) * timer_divisor l"

definition timer_periodic :: "local_apic \<Rightarrow> bool" where
  "timer_periodic l \<longleftrightarrow> lvt_timer l AND LVT_TIMER_MODE = LVT_TIMER_PERIODIC"

text \<open>Instructions left until the countdown expires.\<close>

definition timer_left :: "local_apic \<Rightarrow> nat" where
  "timer_left l = unat (timer_current l) * timer_divisor l - unat (timer_fractional l)"

definition timer_armed :: "local_apic \<Rightarrow> bool" where
  "timer_armed l \<longleftrightarrow> timer_initial l \<noteq> 0 \<and> timer_current l \<noteq> 0
     \<and> timer_current l \<le> timer_initial l \<and> unat (timer_fractional l) < timer_divisor l"

text \<open>The counter pair reached \<open>n\<close> instructions later, over the natural numbers.\<close>

definition timer_after :: "local_apic \<Rightarrow> nat \<Rightarrow> nat \<times> nat" where
  "timer_after l n =
     (let f = unat (timer_fractional l) + n; e = f div timer_divisor l; c = unat (timer_current l)
      in (if e < c then c - e
          else if timer_periodic l then unat (timer_initial l) - (e - c) mod unat (timer_initial l)
          else 0, f mod timer_divisor l))"

lemma divisor_bounds: "0 < timer_divisor l" "timer_divisor l \<le> 128"
  by (simp_all add: timer_divisor_def divisor_def Let_def)

lemma advance_timer_armed:
  fixes n :: u32 and l :: local_apic
  defines "F \<equiv> saturating_add (timer_fractional l) (ucast n)" and "d \<equiv> divisor (timer_divide l)"
  assumes "timer_armed l"
  shows "advance_timer l n =
    (if F div d = 0 then l\<lparr>timer_fractional := F\<rparr>
     else if F div d < ucast (timer_current l)
     then l\<lparr>timer_fractional := F - F div d * d, timer_current := timer_current l - ucast (F div d)\<rparr>
     else raise_lvt (l\<lparr>timer_fractional := F - F div d * d,
            timer_current := if timer_periodic l
              then ucast (ucast (timer_initial l)
                - (F div d - ucast (timer_current l)) mod ucast (timer_initial l) :: u64)
              else 0\<rparr>) (lvt_timer l))"
  using assms(3) by (simp add: advance_timer_def Let_def timer_periodic_def timer_armed_def F_def d_def)

lemma advance_timer_eq:
  assumes "timer_armed l"
  shows "advance_timer l n =
    (let l' = l\<lparr>timer_fractional := of_nat (snd (timer_after l (unat n))),
                timer_current := of_nat (fst (timer_after l (unat n)))\<rparr>
     in if unat n < timer_left l then l' else raise_lvt l' (lvt_timer l))"
proof -
  let ?D = "timer_divisor l" and ?f = "unat (timer_fractional l) + unat n"
  let ?F = "saturating_add (timer_fractional l) (ucast n)" and ?d = "divisor (timer_divide l)"
  let ?c = "unat (timer_current l)" and ?i = "unat (timer_initial l)"
  note D = divisor_bounds [of l]
  have frac: "unat (timer_fractional l) < ?D" using assms by (simp add: timer_armed_def)
  then have "?f < 2 ^ 64" using D unat_bound [of n] by simp
  then have F: "unat ?F = ?f" by (simp add: unat_saturating_add unat_ucast_up)
  have e: "unat (?F div ?d) = ?f div ?D" by (simp add: unat_div F timer_divisor_def)
  have r: "?F - ?F div ?d * ?d = of_nat (?f mod ?D)"
    by (rule word_of_nat_eqI) (simp add: minus_div_mult_eq_mod unat_mod F timer_divisor_def)
  have lt: "?F div ?d < ucast (timer_current l) \<longleftrightarrow> ?f div ?D < ?c"
    by (simp add: word_less_nat_alt e unat_ucast_up)
  have z: "?F div ?d = 0 \<longleftrightarrow> ?f div ?D = 0" by (simp add: word_unat_eq_iff e)
  have left: "unat n < timer_left l \<longleftrightarrow> ?f div ?D < ?c"
    using D frac by (simp add: timer_left_def div_less_iff_less_mult) linarith
  have c0: "0 < ?c" "timer_initial l \<noteq> 0" using assms by (simp_all add: timer_armed_def unat_gt_0)
  note base = advance_timer_armed [OF assms, of n]
  consider "?f div ?D = 0" | "?f div ?D \<noteq> 0" "?f div ?D < ?c" | "?f div ?D \<noteq> 0" "?c \<le> ?f div ?D"
    using c0 by fastforce
  then show ?thesis
  proof cases
    case 1
    then have "?F = of_nat (?f mod ?D)"
      using D(1) by (intro word_of_nat_eqI) (simp add: F div_eq_0_iff)
    with c0 1 show ?thesis unfolding base Let_def z left timer_after_def by simp
  next
    case 2
    then show ?thesis
      unfolding base Let_def z left timer_after_def r lt
        countdown_sub [of "?F div ?d" "timer_current l", unfolded e, OF 2(2)] by simp
  next
    case 3
    then show ?thesis
      unfolding base Let_def z left timer_after_def r lt
        countdown_reload [of "timer_current l" "?F div ?d", unfolded e, OF 3(2) c0(2), simplified] by simp
  qed
qed

lemma raise_lvt_fields [simp]:
  "timer_initial (raise_lvt l e) = timer_initial l" "timer_current (raise_lvt l e) = timer_current l"
  "timer_divide (raise_lvt l e) = timer_divide l" "timer_fractional (raise_lvt l e) = timer_fractional l"
  "lvt_timer (raise_lvt l e) = lvt_timer l"
  by (simp_all add: raise_lvt_def Let_def request_def)

lemma timer_after_bounds:
  assumes "timer_armed l"
  shows "fst (timer_after l n) \<le> unat (timer_initial l)" "snd (timer_after l n) < timer_divisor l"
  using assms divisor_bounds(1) [of l]
  by (auto simp: timer_after_def Let_def timer_armed_def word_le_nat_alt)

lemma advance_timer_fields:
  assumes "timer_armed l"
  shows "timer_initial (advance_timer l n) = timer_initial l" "timer_divide (advance_timer l n) = timer_divide l"
    "lvt_timer (advance_timer l n) = lvt_timer l"
    "unat (timer_current (advance_timer l n)) = fst (timer_after l (unat n))"
    "unat (timer_fractional (advance_timer l n)) = snd (timer_after l (unat n))"
proof -
  note b = timer_after_bounds [OF assms, of "unat n"]
  have "fst (timer_after l (unat n)) < 2 ^ 32" using b(1) unat_bound [of "timer_initial l"] by simp
  moreover have "snd (timer_after l (unat n)) < 2 ^ 64" using b(2) divisor_bounds(2) [of l] by simp
  ultimately have u: "unat (of_nat (fst (timer_after l (unat n))) :: u32) = fst (timer_after l (unat n))"
    "unat (of_nat (snd (timer_after l (unat n))) :: u64) = snd (timer_after l (unat n))"
    by (simp_all add: unat_of_nat_small)
  show "timer_initial (advance_timer l n) = timer_initial l" "timer_divide (advance_timer l n) = timer_divide l"
    "lvt_timer (advance_timer l n) = lvt_timer l"
    "unat (timer_current (advance_timer l n)) = fst (timer_after l (unat n))"
    "unat (timer_fractional (advance_timer l n)) = snd (timer_after l (unat n))"
    by (simp_all add: advance_timer_eq [OF assms] Let_def u)
qed

lemma timer_phase_arith:
  fixes c D f n I :: nat
  assumes "f < D" "0 < c" "c \<le> I"
  defines "e \<equiv> (f + n) div D" and "P \<equiv> c * D - f"
  shows "e < c \<Longrightarrow> (c - e) * D - (f + n) mod D = P - n"
    and "\<not> e < c \<Longrightarrow> (I - (e - c) mod I) * D - (f + n) mod D = I * D - (n - P) mod (I * D)"
proof -
  have fn: "f + n = e * D + (f + n) mod D" by (simp add: e_def)
  then show "(c - e) * D - (f + n) mod D = P - n" unfolding P_def by (simp add: diff_mult_distrib)
  assume "\<not> e < c"
  then obtain k where k: "e = c + k" using le_Suc_ex not_less by blast
  have "f \<le> c * D" using assms(1,2) by (cases c) auto
  then have "n - P = k * D + (f + n) mod D"
    using fn unfolding P_def k by (simp add: add_mult_distrib)
  moreover have "(k * D + (f + n) mod D) mod (I * D) = (k mod I) * D + (f + n) mod D"
    using assms by (simp add: mod_mult2_eq mult.commute [of I D])
  ultimately show "(I - (e - c) mod I) * D - (f + n) mod D = I * D - (n - P) mod (I * D)"
    by (simp add: k diff_mult_distrib)
qed

lemma timer_left_advance:
  assumes "timer_armed l" "timer_periodic l"
  shows "timer_left (advance_timer l n) =
    (if unat n < timer_left l then timer_left l - unat n
     else timer_period l - (unat n - timer_left l) mod timer_period l)"
proof -
  let ?D = "timer_divisor l" and ?f = "unat (timer_fractional l)"
  let ?c = "unat (timer_current l)" and ?i = "unat (timer_initial l)"
  have a: "?f < ?D" "0 < ?c" "?c \<le> ?i" using assms(1) by (simp_all add: timer_armed_def unat_gt_0 word_le_nat_alt)
  have left: "unat n < timer_left l \<longleftrightarrow> (?f + unat n) div ?D < ?c"
    using divisor_bounds(1) [of l] a by (simp add: timer_left_def div_less_iff_less_mult) linarith
  have "timer_divisor (advance_timer l n) = ?D"
    by (simp add: timer_divisor_def advance_timer_fields [OF assms(1)])
  then show ?thesis
    using timer_phase_arith [OF a, of "unat n"] assms(2)
    by (simp add: left) (simp add: timer_left_def timer_period_def advance_timer_fields [OF assms(1)]
        timer_after_def Let_def)
qed

lemma timer_armed_advance:
  assumes "timer_armed l" "timer_periodic l"
  shows "timer_armed (advance_timer l n)" "timer_periodic (advance_timer l n)"
    "timer_divisor (advance_timer l n) = timer_divisor l" "timer_period (advance_timer l n) = timer_period l"
proof -
  note f = advance_timer_fields [OF assms(1)]
  have i: "0 < unat (timer_initial l)" using assms(1) by (simp add: timer_armed_def unat_gt_0)
  have "0 < fst (timer_after l (unat n))"
    using assms(2) i by (simp add: timer_after_def Let_def)
  moreover note timer_after_bounds [OF assms(1), of "unat n"]
  ultimately show "timer_armed (advance_timer l n)"
    using i by (simp add: timer_armed_def f timer_divisor_def word_le_nat_alt flip: unat_gt_0)
  show "timer_periodic (advance_timer l n)" using assms(2) by (simp add: timer_periodic_def f)
  show "timer_divisor (advance_timer l n) = timer_divisor l"
    "timer_period (advance_timer l n) = timer_period l"
    by (simp_all add: timer_divisor_def timer_period_def f)
qed

lemma timer_left_bounds:
  assumes "timer_armed l"
  shows "0 < timer_left l" "timer_left l \<le> timer_period l"
proof -
  have a: "unat (timer_fractional l) < timer_divisor l" "0 < unat (timer_current l)"
    "unat (timer_current l) \<le> unat (timer_initial l)"
    using assms by (simp_all add: timer_armed_def unat_gt_0 word_le_nat_alt)
  then have "timer_divisor l \<le> unat (timer_current l) * timer_divisor l" by simp
  with a(1) show "0 < timer_left l" by (simp only: timer_left_def zero_less_diff)
  show "timer_left l \<le> timer_period l"
    unfolding timer_left_def timer_period_def
    using mult_le_mono1 [OF a(3), of "timer_divisor l"] by linarith
qed

text \<open>The phase determines the counter pair.\<close>

lemma timer_left_inject:
  assumes "timer_armed l" "timer_armed l'" "timer_divisor l = timer_divisor l'" "timer_left l = timer_left l'"
  shows "timer_current l = timer_current l'" "timer_fractional l = timer_fractional l'"
proof -
  have c: "unat (timer_current k) = (timer_left k + timer_divisor k - 1) div timer_divisor k
      \<and> unat (timer_fractional k) = unat (timer_current k) * timer_divisor k - timer_left k"
    if k: "timer_armed k" for k
  proof -
    let ?c = "unat (timer_current k)" and ?D = "timer_divisor k" and ?f = "unat (timer_fractional k)"
    have a: "?f < ?D" "0 < ?c" using k by (simp_all add: timer_armed_def unat_gt_0)
    then have f: "?f \<le> ?c * ?D" by (cases ?c) auto
    have "timer_left k + ?D - 1 = ?c * ?D + (?D - 1 - ?f)"
      using a f by (simp add: timer_left_def)
    then have "(timer_left k + ?D - 1) div ?D = ?c"
      using a(1) by (simp only: div_mult_self3 [of ?D] div_less)
    with f show ?thesis by (simp add: timer_left_def)
  qed
  show "timer_current l = timer_current l'" "timer_fractional l = timer_fractional l'"
    using c [OF assms(1)] c [OF assms(2)] assms(3,4) by (simp_all add: word_unat_eq_iff)
qed

lemma phase_advance:
  "timer_armed l \<Longrightarrow> timer_periodic l \<Longrightarrow>
   timer_left (advance_timer l n) = phase_step (timer_period l) (timer_left l) (unat n)"
  by (simp add: timer_left_advance phase_step_def)

lemma advance_timer_batches:
  fixes ns :: "u32 list"
  assumes "timer_armed l" "timer_periodic l"
  defines "l' \<equiv> fold (\<lambda>n l. advance_timer l n) ns l"
  shows "timer_armed l' \<and> timer_periodic l' \<and> timer_divisor l' = timer_divisor l
    \<and> timer_period l' = timer_period l
    \<and> (ns \<noteq> [] \<longrightarrow> timer_left l' = phase_step (timer_period l) (timer_left l) (sum_list (map unat ns)))"
  unfolding l'_def using assms(1,2)
proof (induction ns arbitrary: l)
  case (Cons n ns)
  note adv = timer_armed_advance [OF Cons.prems, of n]
  note b = timer_left_bounds [OF Cons.prems(1)]
  from Cons.IH [OF adv(1,2)] adv(3,4) show ?case
    by (cases "ns = []") (simp_all add: phase_advance [OF Cons.prems] phase_step_add [OF b])
qed simp

section \<open>Everything the machine does to the controller\<close>

datatype lapic_event =
    Lapic_Tick u32
  | Lapic_Request u8
  | Lapic_Pop
  | Lapic_Write u64 u8 u32

fun lapic_step :: "lapic_event \<Rightarrow> local_apic \<Rightarrow> local_apic" where
  "lapic_step (Lapic_Tick n) l = lapic_tick l n"
| "lapic_step (Lapic_Request v) l = request l v"
| "lapic_step Lapic_Pop l = snd (pop_interrupt l)"
| "lapic_step (Lapic_Write offset sz v) l = snd (lapic_write l offset sz v)"

lemma lapic_wf_advance [wf_intros]:
  assumes "lapic_wf l"
  shows "lapic_wf (advance_timer l n)"
proof -
  have 1: "c - ucast e \<le> i" if "ucast c > (e :: u64)" "c \<le> i" for c i :: u32 and e
  proof -
    have "unat e < unat c" using that(1) by (simp add: word_less_nat_alt unat_ucast_up)
    then have "c - ucast e = of_nat (unat c - unat e)" by (rule countdown_sub)
    moreover have "unat (of_nat (unat c - unat e) :: u32) = unat c - unat e"
      using unat_bound [of c] by (intro unat_of_nat_small) simp
    ultimately show ?thesis using that(2) unfolding word_le_nat_alt by (metis diff_le_self le_trans)
  qed
  have 2: "ucast (ucast i - (e - ucast c) mod ucast i :: u64) \<le> i" if "i \<noteq> 0" "\<not> (e :: u64) < ucast c" for c i :: u32 and e
  proof -
    have "unat c \<le> unat e" using that(2) by (simp add: word_less_nat_alt unat_ucast_up)
    from countdown_reload [OF this that(1)] have "ucast (ucast i - (e - ucast c) mod ucast i :: u64)
      = (of_nat (unat i - (unat e - unat c) mod unat i) :: u32)" by simp
    then show ?thesis
      using unat_bound [of i] by (simp only: word_le_nat_alt unat_of_nat_small)
  qed
  have upd: "lapic_wf (l\<lparr>timer_fractional := f, timer_current := c\<rparr>)" if "c \<le> timer_initial l" for f c
    using assms that by (simp add: lapic_wf_def)
  have "timer_current l \<le> timer_initial l" using assms by (simp add: lapic_wf_def)
  then show ?thesis
    using assms by (simp add: advance_timer_def Let_def upd 1 2 lapic_wf_raise)
qed

lemma lapic_wf_step [wf_intros]: "lapic_wf l \<Longrightarrow> lapic_wf (lapic_step e l)"
  by (cases e) (simp_all add: lapic_tick_def wf_intros)

lemma lapic_wf_fold [wf_intros]: "lapic_wf l \<Longrightarrow> lapic_wf (fold lapic_step es l)"
  by (induction es arbitrary: l) (simp_all add: wf_intros)

section \<open>Properties\<close>

text \<open>
  C2: the bitmap code implements the abstract controller: \<open>dispatch_ready\<close> moves the maximal
  requested vector into service exactly when the controller is enabled and the vector's class
  exceeds the task priority and the class of everything in service, and a write to EOI retires
  the maximal in-service vector and then dispatches.
\<close>
theorem lapic_refines_abstract:
  assumes "lapic_wf l"
  shows "lapic_abs (request l v) = abs_request (lapic_abs l) (unat v)
    \<and> lapic_abs (dispatch_ready l) = abs_dispatch (lapic_abs l)
    \<and> map_option unat (fst (lapic_end_of_interrupt l)) = fst (abs_eoi (lapic_abs l))
    \<and> lapic_abs (snd (lapic_end_of_interrupt l)) = snd (abs_eoi (lapic_abs l))"
proof -
  have "lapic_abs (request l v) = abs_request (lapic_abs l) (unat v)"
    using assms by (simp add: abs_request_def request_def lapic_abs_def software_enabled_def
        vset_set_vector lapic_wf_def)
  then show ?thesis using abs_dispatch_ready [OF assms] abs_lapic_eoi [OF assms] by simp
qed

text \<open>
  C18: from reset, under any sequence of timer ticks, requests, queue pops and register writes,
  at most one vector of each priority class is in service (so at most sixteen), the delivery
  queue never exceeds its limit, and the countdown never exceeds its initial value.
\<close>
theorem lapic_invariant:
  "let l = fold lapic_step es local_apic_new
   in inj_on (\<lambda>v. v div 16) (vset (la_isr l)) \<and> card (vset (la_isr l)) \<le> 16
      \<and> length (interrupt_queue l) \<le> QUEUE_LIMIT \<and> timer_current l \<le> timer_initial l"
proof -
  let ?l = "fold lapic_step es local_apic_new"
  have wf: "lapic_wf ?l" by (rule lapic_wf_fold [OF lapic_wf_new])
  have "(\<lambda>v. v div 16) ` vset (la_isr ?l) \<subseteq> {..<16}" by (auto simp: vset_def)
  then have "card (vset (la_isr ?l)) \<le> card {..<16::nat}"
    using wf by (intro card_inj_on_le) (auto simp: lapic_wf_def)
  with wf show ?thesis by (simp add: lapic_wf_def Let_def)
qed

text \<open>
  C19: the periodic countdown keeps its phase: however the guest's instructions are grouped into
  batches, the counter and its fraction after them are those of a single batch of the total, the
  countdown stays armed, and a batch raises the timer vector exactly when it reaches the
  instructions left (otherwise only the counter pair changes).
\<close>
theorem lapic_timer_batching:
  assumes "timer_armed l" and "timer_periodic l" and "ns \<noteq> []"
    and "sum_list (map unat ns) < 2 ^ 32"
  defines "whole \<equiv> advance_timer l (of_nat (sum_list (map unat ns)))"
    and "split \<equiv> fold (\<lambda>n l. advance_timer l n) ns l"
  shows "timer_current split = timer_current whole \<and> timer_fractional split = timer_fractional whole
    \<and> timer_armed split
    \<and> (\<forall>n. advance_timer l n =
          (let l' = l\<lparr>timer_fractional := of_nat (snd (timer_after l (unat n))),
                      timer_current := of_nat (fst (timer_after l (unat n)))\<rparr>
           in if unat n < timer_left l then l' else raise_lvt l' (lvt_timer l)))"
proof -
  let ?n = "of_nat (sum_list (map unat ns)) :: u32"
  have n: "unat ?n = sum_list (map unat ns)" using assms(4) by (intro unat_of_nat_small) simp
  note s = advance_timer_batches [OF assms(1,2), of ns, folded split_def]
  note w = timer_armed_advance [OF assms(1,2), of ?n, folded whole_def]
  have "timer_left split = timer_left whole"
    using s assms(3) phase_advance [OF assms(1,2), of ?n] by (simp add: whole_def n)
  with timer_left_inject [of split whole] s w advance_timer_eq [OF assms(1)] show ?thesis by simp
qed

section \<open>Witnesses\<close>

definition lapic_example :: local_apic where
  "lapic_example = local_apic_new\<lparr>la_svr := 0x1FF, lvt_timer := 0x20030, timer_initial := 5,
     timer_current := 5\<rparr>"

lemma lapic_example_armed: "timer_armed lapic_example" "timer_periodic lapic_example"
  by code_simp+

theorem lapic_refines_abstract_witness:
  "lapic_abs (dispatch_ready local_apic_new) = abs_dispatch (lapic_abs local_apic_new)"
  using lapic_refines_abstract [OF lapic_wf_new] by simp

theorem lapic_timer_batching_witness:
  "timer_current (fold (\<lambda>n l. advance_timer l n) [3, 4, 6] lapic_example)
     = timer_current (advance_timer lapic_example 13)"
  using lapic_timer_batching [OF lapic_example_armed, of "[3, 4, 6]", THEN conjunct1] by simp

end
