(* ===== verification/Pit8254.thy ===== *)
theory Pit8254
  imports Port_Bus
begin

text \<open>
  The 8254 interval timer (\<open>devices/pit8254.rs\<close>): three channels with their access and counting
  modes, the nanosecond-to-tick accumulator of \<open>advance\<close>, the counter latch and port 0x61.
\<close>

section \<open>State\<close>

definition PIT_BASE_FREQUENCY_HZ :: u64 where "PIT_BASE_FREQUENCY_HZ = 1193182"
definition REFRESH_TOGGLE_NANOSECONDS :: u64 where "REFRESH_TOGGLE_NANOSECONDS = 15085"

datatype access_mode = LowByte | HighByte | LowHigh

record pit_channel =
  ch_reload :: u16
  ch_counter :: u16
  ch_mode :: u8
  ch_access :: access_mode
  partial_write :: "u8 option"
  ch_latched :: "u16 option"
  read_high_next :: bool
  ch_gate :: bool
  ch_output :: bool

record pit8254 =
  pit_channels :: "pit_channel list"
  control_b :: u8
  fractional_ticks :: u64
  refresh_nanoseconds :: u64
  refresh_state :: bool

definition pit_channel_default :: pit_channel where
  "pit_channel_default = \<lparr>ch_reload = - 1, ch_counter = - 1, ch_mode = 0, ch_access = LowHigh,
     partial_write = None, ch_latched = None, read_high_next = False, ch_gate = True,
     ch_output = False\<rparr>"

definition pit_new :: pit8254 where
  "pit_new = \<lparr>pit_channels =
     [pit_channel_default, pit_channel_default, pit_channel_default\<lparr>ch_gate := False\<rparr>],
     control_b = 0, fractional_ticks = 0, refresh_nanoseconds = 0, refresh_state = False\<rparr>"

section \<open>Operations\<close>

definition channel_advance :: "pit_channel \<Rightarrow> u64 \<Rightarrow> bool \<times> pit_channel" where
  "channel_advance ch ticks =
     (if \<not> ch_gate ch then (False, ch)
      else let period = max (ucast (ch_reload ch)) 1 :: u64;
               remaining = ucast (ch_counter ch) :: u64
           in if ch_mode ch AND 7 = 0 \<or> ch_mode ch AND 7 = 4
              then if remaining \<le> ticks
                   then (\<not> ch_output ch, ch\<lparr>ch_counter := 0, ch_output := True\<rparr>)
                   else (False, ch\<lparr>ch_counter := ch_counter ch - ucast ticks\<rparr>)
              else if ticks < remaining
                   then (False, ch\<lparr>ch_counter := ch_counter ch - ucast ticks, ch_output := False\<rparr>)
                   else let overshoot = ticks - remaining
                        in (True, ch\<lparr>ch_counter := ucast (period - overshoot mod period),
                                     ch_output := True\<rparr>))"

text \<open>The refresh loop subtracts one toggle period at a time.\<close>

function refresh_loop :: "u64 \<Rightarrow> bool \<Rightarrow> u64 \<times> bool" where
  "refresh_loop ns st =
     (if REFRESH_TOGGLE_NANOSECONDS \<le> ns
      then refresh_loop (ns - REFRESH_TOGGLE_NANOSECONDS) (\<not> st) else (ns, st))"
  by auto
termination
  by (relation "measure (\<lambda>(ns, _). unat ns)")
    (auto simp: REFRESH_TOGGLE_NANOSECONDS_def word_le_nat_alt unat_sub)

declare refresh_loop.simps [simp del]

definition pit_advance :: "pit8254 \<Rightarrow> u64 \<Rightarrow> bool \<times> pit8254" where
  "pit_advance p host_nanoseconds =
     (let (ns, st) = refresh_loop (saturating_add (refresh_nanoseconds p) host_nanoseconds)
                       (refresh_state p);
          fractional = saturating_add (fractional_ticks p)
                         (saturating_mul host_nanoseconds PIT_BASE_FREQUENCY_HZ);
          p = p\<lparr>refresh_nanoseconds := ns, refresh_state := st, fractional_ticks := fractional\<rparr>;
          ticks = fractional div 1000000000
      in if ticks = 0 then (False, p)
         else let stepped = map (\<lambda>ch. channel_advance ch ticks) (pit_channels p)
              in (fst (stepped ! 0),
                  p\<lparr>fractional_ticks := fractional - ticks * 1000000000,
                    pit_channels := map snd stepped\<rparr>))"

definition channel0_count :: "pit8254 \<Rightarrow> u16" where
  "channel0_count p = ch_counter (pit_channels p ! 0)"

definition read_control_b :: "pit8254 \<Rightarrow> u8" where
  "read_control_b p =
     (let value = control_b p AND (shl1 0 OR shl1 1);
          value = (if refresh_state p then value OR shl1 4 else value)
      in if ch_output (pit_channels p ! 2) then value OR shl1 5 else value)"

definition write_control_b :: "pit8254 \<Rightarrow> u8 \<Rightarrow> pit8254" where
  "write_control_b p value =
     p\<lparr>control_b := value AND (shl1 0 OR shl1 1),
       pit_channels := (pit_channels p)[2 := (pit_channels p ! 2)\<lparr>ch_gate := value AND shl1 0 \<noteq> 0\<rparr>]\<rparr>"

definition channel_read :: "pit_channel \<Rightarrow> u8 \<times> pit_channel" where
  "channel_read ch =
     (let value = (case ch_latched ch of Some v \<Rightarrow> v | None \<Rightarrow> ch_counter ch)
      in if ch_access ch = LowByte then (ucast value, ch\<lparr>ch_latched := None\<rparr>)
         else if ch_access ch = HighByte then (ucast (drop_bit 8 value), ch\<lparr>ch_latched := None\<rparr>)
         else if read_high_next ch
              then (ucast (drop_bit 8 value), ch\<lparr>read_high_next := False, ch_latched := None\<rparr>)
              else (ucast value, ch\<lparr>read_high_next := True\<rparr>))"

definition reload_with :: "pit_channel \<Rightarrow> u16 \<Rightarrow> pit_channel" where
  "reload_with ch reload = ch\<lparr>ch_reload := reload, ch_counter := reload, ch_output := False\<rparr>"

definition channel_write :: "pit_channel \<Rightarrow> u8 \<Rightarrow> pit_channel" where
  "channel_write ch value =
     (case ch_access ch of
        LowByte \<Rightarrow> reload_with ch (ucast value)
      | HighByte \<Rightarrow> reload_with ch (push_bit 8 (ucast value))
      | LowHigh \<Rightarrow>
          (case partial_write ch of
             None \<Rightarrow> ch\<lparr>partial_write := Some value\<rparr>
           | Some low \<Rightarrow> reload_with (ch\<lparr>partial_write := None\<rparr>) (ucast low OR push_bit 8 (ucast value))))"

definition channel_of_port :: "u16 \<Rightarrow> nat option" where
  "channel_of_port port = (if port = 0x40 then Some 0 else if port = 0x41 then Some 1
     else if port = 0x42 then Some 2 else None)"

definition pit_read :: "pit8254 \<Rightarrow> u16 \<Rightarrow> u8 \<Rightarrow> cpu_error + u32 \<times> pit8254" where
  "pit_read p port sz =
     (if port = 0x61 then Inr (ucast (read_control_b p), p)
      else case channel_of_port port of
        None \<Rightarrow> Inr (- 1, p)
      | Some i \<Rightarrow> let (v, ch) = channel_read (pit_channels p ! i)
                  in Inr (ucast v, p\<lparr>pit_channels := (pit_channels p)[i := ch]\<rparr>))"

definition channel_command :: "pit_channel \<Rightarrow> u32 \<Rightarrow> pit_channel" where
  "channel_command ch value =
     (let access = drop_bit 4 value AND 3
      in if access = 0 then ch\<lparr>ch_latched := Some (ch_counter ch), read_high_next := False\<rparr>
         else ch\<lparr>ch_access := (if access = 1 then LowByte else if access = 2 then HighByte else LowHigh),
                 ch_mode := ucast (drop_bit 1 value AND 7), partial_write := None,
                 read_high_next := False, ch_latched := None, ch_output := False\<rparr>)"

definition pit_write :: "pit8254 \<Rightarrow> u16 \<Rightarrow> u8 \<Rightarrow> u32 \<Rightarrow> cpu_error + pit8254" where
  "pit_write p port sz value =
     (if port = 0x61 then Inr (write_control_b p (ucast value))
      else if port = 0x43
      then let i = unat (drop_bit 6 value AND 3)
           in if 3 \<le> i then Inr p
              else Inr (p\<lparr>pit_channels := (pit_channels p)[i := channel_command (pit_channels p ! i) value]\<rparr>)
      else case channel_of_port port of
        None \<Rightarrow> Inr p
      | Some i \<Rightarrow>
          Inr (p\<lparr>pit_channels := (pit_channels p)[i := channel_write (pit_channels p ! i) (ucast value)]\<rparr>))"

definition pit_ops :: "pit8254 port_ops" where
  "pit_ops = \<lparr>pd_read = pit_read, pd_write = pit_write\<rparr>"

section \<open>Invariant\<close>

text \<open>
  Three channels, a counter never above the programmed period (a reload of zero counts as one),
  and less than one tick, respectively one toggle, left in the accumulators.
\<close>

definition channel_wf :: "pit_channel \<Rightarrow> bool" where
  "channel_wf ch \<longleftrightarrow> unat (ch_counter ch) \<le> max (unat (ch_reload ch)) 1"

definition pit_wf :: "pit8254 \<Rightarrow> bool" where
  "pit_wf p \<longleftrightarrow> length (pit_channels p) = 3 \<and> (\<forall>ch \<in> set (pit_channels p). channel_wf ch)
     \<and> unat (fractional_ticks p) < 1000000000 \<and> unat (refresh_nanoseconds p) < 15085"

lemma refresh_loop_eq:
  "refresh_loop ns st = (of_nat (unat ns mod 15085), if even (unat ns div 15085) then st else \<not> st)"
proof (induction ns st rule: refresh_loop.induct)
  case (1 ns st)
  show ?case
  proof (cases "REFRESH_TOGGLE_NANOSECONDS \<le> ns")
    case True
    then have le: "15085 \<le> unat ns" by (simp add: REFRESH_TOGGLE_NANOSECONDS_def word_le_nat_alt)
    then have s: "unat (ns - REFRESH_TOGGLE_NANOSECONDS) = unat ns - 15085"
      by (simp add: REFRESH_TOGGLE_NANOSECONDS_def unat_sub word_le_nat_alt)
    have "unat ns div 15085 = Suc ((unat ns - 15085) div 15085)" "(unat ns - 15085) mod 15085 = unat ns mod 15085"
      using le by (simp_all add: le_div_geq le_mod_geq)
    with 1 [OF True] True s show ?thesis by (subst refresh_loop.simps) simp
  next
    case False
    then have "unat ns < 15085" by (simp add: REFRESH_TOGGLE_NANOSECONDS_def word_le_nat_alt)
    with False show ?thesis by (subst refresh_loop.simps) simp
  qed
qed

definition channel_periodic :: "pit_channel \<Rightarrow> bool" where
  "channel_periodic ch \<longleftrightarrow> ch_gate ch \<and> ch_mode ch AND 7 \<noteq> 0 \<and> ch_mode ch AND 7 \<noteq> 4
     \<and> ch_counter ch \<noteq> 0 \<and> unat (ch_counter ch) \<le> unat (ch_reload ch)"

lemma channel_advance_fields [simp]:
  "ch_reload (snd (channel_advance ch t)) = ch_reload ch" "ch_mode (snd (channel_advance ch t)) = ch_mode ch"
  "ch_gate (snd (channel_advance ch t)) = ch_gate ch"
  "ch_latched (snd (channel_advance ch t)) = ch_latched ch"
  "ch_access (snd (channel_advance ch t)) = ch_access ch"
  "read_high_next (snd (channel_advance ch t)) = read_high_next ch"
  by (simp_all add: channel_advance_def Let_def)

lemma channel_advance_periodic:
  assumes "channel_periodic ch"
  shows "unat (ch_counter (snd (channel_advance ch t))) =
      phase_step (unat (ch_reload ch)) (unat (ch_counter ch)) (unat t)"
    and "fst (channel_advance ch t) \<longleftrightarrow> unat (ch_counter ch) \<le> unat t"
proof -
  let ?c = "ch_counter ch" and ?i = "ch_reload ch"
  have i0: "?i \<noteq> 0" and ci: "unat ?c \<le> unat ?i" and i16: "unat ?i < 2 ^ 16"
    using assms unat_bound [of ?i] by (auto simp: channel_periodic_def unat_eq_zero [symmetric])
  have mx: "max (ucast ?i) 1 = (ucast ?i :: u64)"
  proof -
    have "0 < unat ?i" using i0 by (simp add: unat_gt_0)
    then show ?thesis by (intro max.absorb1) (simp add: word_le_nat_alt unat_ucast_up)
  qed
  have lt: "t < ucast ?c \<longleftrightarrow> unat t < unat ?c" by (simp add: word_less_nat_alt unat_ucast_up)
  have adv: "channel_advance ch t =
    (if unat t < unat ?c then (False, ch\<lparr>ch_counter := ?c - ucast t, ch_output := False\<rparr>)
     else (True, ch\<lparr>ch_counter := ucast (ucast ?i - (t - ucast ?c) mod ucast ?i :: u64), ch_output := True\<rparr>))"
    using assms by (simp add: channel_advance_def Let_def channel_periodic_def mx lt)
  then show "fst (channel_advance ch t) \<longleftrightarrow> unat ?c \<le> unat t" by simp
  show "unat (ch_counter (snd (channel_advance ch t))) = phase_step (unat ?i) (unat ?c) (unat t)"
  proof (cases "unat t < unat ?c")
    case True
    have "unat (of_nat (unat ?c - unat t) :: u16) = unat ?c - unat t"
      using ci i16 by (intro unat_of_nat_small) simp
    with True show ?thesis by (simp only: adv if_True countdown_sub) (simp add: phase_step_def)
  next
    case False
    have "unat (of_nat (unat ?i - (unat t - unat ?c) mod unat ?i) :: u16) = unat ?i - (unat t - unat ?c) mod unat ?i"
      using i16 by (intro unat_of_nat_small) simp
    with False countdown_reload [of ?c t ?i] i0 show ?thesis
      by (simp add: adv phase_step_def not_less)
  qed
qed

text \<open>The accumulator after \<open>ns\<close> nanoseconds, over the natural numbers.\<close>

definition tick_sum :: "pit8254 \<Rightarrow> nat \<Rightarrow> nat" where
  "tick_sum p ns = unat (fractional_ticks p) + ns * 1193182"

lemma saturating_tick_sum:
  assumes "tick_sum p (unat ns) < 2 ^ 64"
  shows "unat (saturating_add (fractional_ticks p) (saturating_mul ns PIT_BASE_FREQUENCY_HZ))
    = tick_sum p (unat ns)"
  using assms
  by (simp add: unat_saturating_add unat_saturating_mul tick_sum_def PIT_BASE_FREQUENCY_HZ_def)

lemma pit_advance_eq:
  assumes "pit_wf p" "tick_sum p (unat ns) < 2 ^ 64" "i < 3"
  shows "unat (fractional_ticks (snd (pit_advance p ns))) = tick_sum p (unat ns) mod 1000000000"
    and "length (pit_channels (snd (pit_advance p ns))) = 3"
    and "pit_channels (snd (pit_advance p ns)) ! i =
      (if tick_sum p (unat ns) div 1000000000 = 0 then pit_channels p ! i
       else snd (channel_advance (pit_channels p ! i) (of_nat (tick_sum p (unat ns) div 1000000000))))"
proof -
  let ?F = "saturating_add (fractional_ticks p) (saturating_mul ns PIT_BASE_FREQUENCY_HZ)"
  note F = saturating_tick_sum [OF assms(2)]
  have t: "unat (?F div 1000000000) = tick_sum p (unat ns) div 1000000000" by (simp add: unat_div F)
  then have tw: "?F div 1000000000 = of_nat (tick_sum p (unat ns) div 1000000000)" by (rule word_of_nat_eqI)
  have z: "?F div 1000000000 = 0 \<longleftrightarrow> tick_sum p (unat ns) div 1000000000 = 0"
    by (simp only: word_unat_eq_iff t unat_0)
  have f: "unat (?F - ?F div 1000000000 * 1000000000) = tick_sum p (unat ns) mod 1000000000"
    by (simp add: minus_div_mult_eq_mod unat_mod F)
  have len: "length (pit_channels p) = 3" using assms(1) by (simp add: pit_wf_def)
  have small: "tick_sum p (unat ns) div 1000000000 = 0 \<Longrightarrow> unat ?F = tick_sum p (unat ns) mod 1000000000"
    by (simp add: F div_eq_0_iff)
  have "fractional_ticks (snd (pit_advance p ns)) =
      (if ?F div 1000000000 = 0 then ?F else ?F - ?F div 1000000000 * 1000000000)"
    by (simp add: pit_advance_def Let_def split_beta)
  with f small z show "unat (fractional_ticks (snd (pit_advance p ns))) = tick_sum p (unat ns) mod 1000000000"
    by presburger
  show "length (pit_channels (snd (pit_advance p ns))) = 3"
    using len by (simp add: pit_advance_def Let_def split_beta)
  show "pit_channels (snd (pit_advance p ns)) ! i =
      (if tick_sum p (unat ns) div 1000000000 = 0 then pit_channels p ! i
       else snd (channel_advance (pit_channels p ! i) (of_nat (tick_sum p (unat ns) div 1000000000))))"
    using len assms(3) unfolding pit_advance_def Let_def split_beta z
    by (simp add: tw)
qed

lemma phase_step_bounds:
  assumes "0 < left" "left \<le> T"
  shows "0 < phase_step T left n" "phase_step T left n \<le> T"
  using assms by (auto simp: phase_step_def)

lemma phase_step_0 [simp]: "0 < left \<Longrightarrow> phase_step T left 0 = left"
  by (simp add: phase_step_def)

lemma pit_advance_phase:
  assumes "pit_wf p" "i < 3" "channel_periodic (pit_channels p ! i)" "tick_sum p (unat ns) < 2 ^ 64"
  defines "ch \<equiv> pit_channels p ! i" and "ch' \<equiv> pit_channels (snd (pit_advance p ns)) ! i"
  shows "unat (ch_counter ch') =
      phase_step (unat (ch_reload ch)) (unat (ch_counter ch)) (tick_sum p (unat ns) div 1000000000)"
    and "ch_reload ch' = ch_reload ch" and "channel_periodic ch'"
proof -
  let ?t = "tick_sum p (unat ns) div 1000000000"
  have c: "0 < unat (ch_counter ch)" "unat (ch_counter ch) \<le> unat (ch_reload ch)"
    using assms(3) by (simp_all add: channel_periodic_def ch_def unat_gt_0)
  have "?t < 2 ^ 64" using assms(4) by simp
  then have t: "unat (of_nat ?t :: u64) = ?t" by (intro unat_of_nat_small) simp
  note e = pit_advance_eq(3) [OF assms(1,4,2), folded ch_def ch'_def]
  note a = channel_advance_periodic(1) [OF assms(3), of "of_nat ?t", folded ch_def, unfolded t]
  show count: "unat (ch_counter ch') = phase_step (unat (ch_reload ch)) (unat (ch_counter ch)) ?t"
    using a c e by (cases "?t = 0") simp_all
  have f: "ch_reload ch' = ch_reload ch" "ch_mode ch' = ch_mode ch" "ch_gate ch' = ch_gate ch"
    unfolding e by simp_all
  then show "ch_reload ch' = ch_reload ch" by simp
  show "channel_periodic ch'"
    using phase_step_bounds [OF c, of ?t] assms(3) f
    by (simp add: channel_periodic_def ch_def [symmetric] count [symmetric] unat_gt_0)
qed

lemma channel_wf_advance [wf_intros]:
  assumes "channel_wf ch"
  shows "channel_wf (snd (channel_advance ch t))"
proof -
  let ?c = "ch_counter ch" and ?p = "max (ucast (ch_reload ch)) 1 :: u64"
  have up: "unat ?p = max (unat (ch_reload ch)) 1"
    by (auto simp: max_def word_le_nat_alt unat_ucast_up)
  have sub: "unat (?c - ucast t) \<le> unat ?c" if "t < ucast ?c"
  proof -
    have t: "unat t < unat ?c" using that by (simp add: word_less_nat_alt unat_ucast_up)
    have "unat (of_nat (unat ?c - unat t) :: u16) \<le> unat ?c - unat t" by (simp add: unat_of_nat)
    with countdown_sub [OF t] show ?thesis by simp
  qed
  have le: "unat (ucast (?p - x mod ?p) :: u16) \<le> max (unat (ch_reload ch)) 1" for x
  proof -
    have "unat (x mod ?p) \<le> unat ?p" using up by (simp add: unat_mod less_imp_le)
    then have "unat (?p - x mod ?p) \<le> unat ?p" by (simp add: unat_sub word_le_nat_alt)
    then show ?thesis unfolding unat_ucast_mod up by (rule le_trans [OF mod_less_eq_dividend])
  qed
  show ?thesis
    using assms sub le
    by (auto simp: channel_wf_def channel_advance_def Let_def not_le intro: le_trans)
qed

lemma channel_wf_reload [wf_intros]: "channel_wf (reload_with ch r)"
  by (simp add: channel_wf_def reload_with_def)

lemma channel_wf_ports [wf_intros]:
  "channel_wf ch \<Longrightarrow> channel_wf (snd (channel_read ch))"
  "channel_wf ch \<Longrightarrow> channel_wf (channel_write ch v)"
  "channel_wf ch \<Longrightarrow> channel_wf (channel_command ch w)"
  "channel_wf ch \<Longrightarrow> channel_wf (ch\<lparr>ch_gate := g\<rparr>)"
  by (auto simp: channel_write_def channel_wf_reload split: access_mode.splits option.splits)
    (auto simp: channel_wf_def channel_read_def channel_command_def Let_def)

lemma pit_wf_channel: "pit_wf p \<Longrightarrow> i < 3 \<Longrightarrow> channel_wf (pit_channels p ! i)"
  by (simp add: pit_wf_def)

lemma pit_wf_update [wf_intros]:
  assumes "pit_wf p" "channel_wf ch"
  shows "pit_wf (p\<lparr>pit_channels := (pit_channels p)[i := ch]\<rparr>)"
  using assms set_update_subset_insert [of "pit_channels p" i ch] by (auto simp: pit_wf_def)

lemma channel_of_port_less: "channel_of_port port = Some i \<Longrightarrow> i < 3"
  by (auto simp: channel_of_port_def split: if_splits)

lemma pit_wf_new: "pit_wf pit_new"
  by (simp add: pit_wf_def pit_new_def pit_channel_default_def channel_wf_def)

lemma pit_read_ok: "pit_wf p \<Longrightarrow> \<exists>v p'. pit_read p port sz = Inr (v, p') \<and> pit_wf p'"
  by (auto simp: pit_read_def split_beta pit_wf_channel intro!: wf_intros
      dest: channel_of_port_less split: option.splits)

lemma pit_wf_control_b [wf_intros]: "pit_wf p \<Longrightarrow> pit_wf (write_control_b p v)"
  using pit_wf_update [of p "(pit_channels p ! 2)\<lparr>ch_gate := v AND shl1 0 \<noteq> 0\<rparr>" 2]
    channel_wf_ports(4) [OF pit_wf_channel [of p 2]]
  by (auto simp: write_control_b_def pit_wf_def)

lemma pit_write_ok: "pit_wf p \<Longrightarrow> \<exists>p'. pit_write p port sz v = Inr p' \<and> pit_wf p'"
  by (auto simp: pit_write_def Let_def pit_wf_channel intro!: wf_intros
      dest: channel_of_port_less split: option.splits)

interpretation pit_port: port_device pit_ops pit_wf
  by unfold_locales (simp_all add: pit_ops_def pit_read_ok pit_write_ok)

lemma pit_wf_advance [wf_intros]:
  assumes "pit_wf p"
  shows "pit_wf (snd (pit_advance p ns))"
proof -
  let ?F = "saturating_add (fractional_ticks p) (saturating_mul ns PIT_BASE_FREQUENCY_HZ)"
  have r: "unat (fst (refresh_loop w st)) < 15085" for w st
    by (simp add: refresh_loop_eq unat_of_nat_small)
  have f: "unat (?F - ?F div 1000000000 * 1000000000) < 1000000000"
    by (simp only: minus_div_mult_eq_mod unat_mod) simp
  have z: "?F div 1000000000 = 0 \<Longrightarrow> unat ?F < 1000000000"
    by (simp add: word_unat_eq_iff unat_div div_eq_0_iff)
  show ?thesis
  proof (cases "?F div 1000000000 = 0")
    case True
    with assms r z show ?thesis by (simp add: pit_advance_def Let_def split_beta pit_wf_def)
  next
    case False
    have "\<forall>ch \<in> set (pit_channels p). channel_wf (snd (channel_advance ch (?F div 1000000000)))"
      using assms by (simp add: pit_wf_def channel_wf_advance)
    with False assms r f show ?thesis
      by (simp add: pit_advance_def Let_def split_beta pit_wf_def)
  qed
qed

lemma div_mod_split: "0 < k \<Longrightarrow> (a + b) div k = a div k + (a mod k + b) div k" for a b k :: nat
proof -
  assume k: "0 < k"
  have "a + b = a div k * k + (a mod k + b)" by simp
  then have "(a + b) div k = (a div k * k + (a mod k + b)) div k" by (rule arg_cong)
  with k show ?thesis by (simp only: div_mult_self3 [of k])
qed

lemma pit_advance_batches:
  assumes "pit_wf p" "i < 3" "channel_periodic (pit_channels p ! i)"
    and "tick_sum p (sum_list (map unat nss)) < 2 ^ 64"
  defines "q \<equiv> fold (\<lambda>ns p. snd (pit_advance p ns)) nss p"
    and "ticks \<equiv> tick_sum p (sum_list (map unat nss))"
  shows "unat (ch_counter (pit_channels q ! i)) = phase_step (unat (ch_reload (pit_channels p ! i)))
      (unat (ch_counter (pit_channels p ! i))) (ticks div 1000000000)
    \<and> unat (fractional_ticks q) = ticks mod 1000000000"
  unfolding q_def ticks_def using assms(1-4)
proof (induction nss arbitrary: p)
  case Nil
  then have "unat (fractional_ticks p) < 1000000000" "0 < unat (ch_counter (pit_channels p ! i))"
    by (simp_all add: pit_wf_def channel_periodic_def unat_gt_0)
  then show ?case by (simp add: tick_sum_def)
next
  case (Cons ns nss)
  let ?p = "snd (pit_advance p ns)" and ?ch = "pit_channels p ! i" and ?K = "1000000000 :: nat"
  have lim: "tick_sum p (unat ns) < 2 ^ 64" using Cons.prems(4) by (simp add: tick_sum_def)
  note ph = pit_advance_phase [OF Cons.prems(1-3) lim]
  note fr = pit_advance_eq(1) [OF Cons.prems(1) lim Cons.prems(2)]
  let ?rest = "sum_list (map unat nss)"
  have ts: "tick_sum ?p ?rest = tick_sum p (unat ns) mod ?K + ?rest * 1193182"
    by (simp add: tick_sum_def [of ?p] fr)
  have tot: "tick_sum p (sum_list (map unat (ns # nss))) = tick_sum p (unat ns) + ?rest * 1193182"
    by (simp add: tick_sum_def algebra_simps)
  have "tick_sum ?p ?rest < 2 ^ 64"
    using Cons.prems(4) mod_less_eq_dividend [of "tick_sum p (unat ns)" ?K] unfolding ts tot by linarith
  note IH = Cons.IH [OF pit_wf_advance [OF Cons.prems(1)] Cons.prems(2) ph(3) this]
  have c: "0 < unat (ch_counter ?ch)" "unat (ch_counter ?ch) \<le> unat (ch_reload ?ch)"
    using Cons.prems(3) by (simp_all add: channel_periodic_def unat_gt_0)
  show ?case
    using IH unfolding ts tot
    by (simp add: ph(1,2) phase_step_add [OF c] mod_add_left_eq
        div_mod_split [of ?K "tick_sum p (unat ns)" "?rest * 1193182", symmetric])
qed

lemma pit_advance_channel:
  assumes "pit_wf p" "i < 3"
  obtains "pit_channels (snd (pit_advance p ns)) ! i = pit_channels p ! i"
  | t where "pit_channels (snd (pit_advance p ns)) ! i = snd (channel_advance (pit_channels p ! i) t)"
proof -
  let ?t = "saturating_add (fractional_ticks p) (saturating_mul ns PIT_BASE_FREQUENCY_HZ) div 1000000000"
  have "pit_channels (snd (pit_advance p ns)) ! i =
      (if ?t = 0 then pit_channels p ! i else snd (channel_advance (pit_channels p ! i) ?t))"
    using assms by (simp add: pit_advance_def Let_def split_beta pit_wf_def)
  with that show thesis by (metis (full_types))
qed

text \<open>Advancing time touches neither the latch nor the read flip-flop of a channel.\<close>

lemma pit_advance_latch:
  fixes ns :: u64
  assumes "pit_wf p" "i < 3"
  defines "ch \<equiv> pit_channels (snd (pit_advance p ns)) ! i"
  shows "ch_latched ch = ch_latched (pit_channels p ! i) \<and> ch_access ch = ch_access (pit_channels p ! i)
    \<and> read_high_next ch = read_high_next (pit_channels p ! i)"
  unfolding ch_def by (rule pit_advance_channel [OF assms(1,2), of ns]) simp_all

lemma port_of_channel: "i < 3 \<Longrightarrow> channel_of_port (0x40 + of_nat i) = Some i \<and> 0x40 + of_nat i \<noteq> (0x61 :: u16)"
proof -
  assume "i < 3"
  then consider "i = 0" | "i = 1" | "i = 2" by linarith
  then show ?thesis by cases (simp_all add: channel_of_port_def)
qed

lemma pit_read_channel:
  assumes "pit_wf p" "i < 3" "pit_read p (0x40 + of_nat i) sz = Inr (v, p')"
  shows "v = ucast (fst (channel_read (pit_channels p ! i)))"
    and "pit_channels p' ! i = snd (channel_read (pit_channels p ! i))" and "pit_wf p'"
  using assms pit_read_ok [OF assms(1), of "0x40 + of_nat i" sz]
  by (auto simp: pit_read_def port_of_channel split_beta pit_wf_def)

lemma pit_write_latch:
  assumes "pit_wf p" "i < 3" "pit_write p 0x43 sz (push_bit 6 (of_nat i)) = Inr p'"
  shows "pit_wf p' \<and> pit_channels p' ! i = (pit_channels p ! i)
    \<lparr>ch_latched := Some (ch_counter (pit_channels p ! i)), read_high_next := False\<rparr>"
proof -
  from assms(2) consider "i = 0" | "i = 1" | "i = 2" by linarith
  then have "unat (drop_bit 6 (push_bit 6 (of_nat i) :: u32) AND 3) = i"
    "drop_bit 4 (push_bit 6 (of_nat i) :: u32) AND 3 = 0"
    by (cases; simp)+
  with assms pit_write_ok [OF assms(1), of "0x43" sz "push_bit 6 (of_nat i)"] show ?thesis
    by (auto simp: pit_write_def channel_command_def pit_wf_def)
qed

section \<open>Properties\<close>

text \<open>
  C29: no tick is lost between calls: a periodic channel's count and the accumulated fraction after
  any sequence of \<open>advance\<close> calls are those of one call with the total number of nanoseconds, as
  long as the accumulator does not saturate (about four hours of host time in one sequence).
\<close>
theorem pit_no_tick_lost:
  assumes "pit_wf p" and "i < 3" and "channel_periodic (pit_channels p ! i)"
    and "tick_sum p (sum_list (map unat nss)) < 2 ^ 64"
  defines "split \<equiv> fold (\<lambda>ns p. snd (pit_advance p ns)) nss p"
    and "whole \<equiv> snd (pit_advance p (of_nat (sum_list (map unat nss))))"
  shows "ch_counter (pit_channels split ! i) = ch_counter (pit_channels whole ! i)
    \<and> fractional_ticks split = fractional_ticks whole"
proof -
  let ?n = "of_nat (sum_list (map unat nss)) :: u64"
  have n: "unat ?n = sum_list (map unat nss)"
    using assms(4) by (intro unat_of_nat_small) (simp add: tick_sum_def)
  have "sum_list (map unat [?n]) = sum_list (map unat nss)" by (simp add: n)
  with pit_advance_batches [OF assms(1-4)] pit_advance_batches [OF assms(1-3), of "[?n]"] assms(4)
  show ?thesis by (simp add: split_def whole_def word_unat_eq_iff)
qed

text \<open>
  The counter latch freezes the count: after a latch command for channel \<open>i\<close> in low/high access
  mode, the next two reads of its port return the low and high byte of the count at the time of
  the command, even when time advances before and between the reads; the read after that sees
  the live counter again.
\<close>
theorem pit_latch_stable:
  assumes "pit_wf p" and "i < 3" and "ch_access (pit_channels p ! i) = LowHigh"
    and "pit_write p 0x43 1 (push_bit 6 (of_nat i)) = Inr p1"
    and "pit_read (snd (pit_advance p1 n1)) (0x40 + of_nat i) 1 = Inr (low, p2)"
    and "pit_read (snd (pit_advance p2 n2)) (0x40 + of_nat i) 1 = Inr (high, p3)"
  shows "low = ucast (ucast (ch_counter (pit_channels p ! i)) :: u8)
    \<and> high = ucast (ucast (drop_bit 8 (ch_counter (pit_channels p ! i))) :: u8)
    \<and> ch_latched (pit_channels p3 ! i) = None"
proof -
  note w = pit_write_latch [OF assms(1,2,4)]
  have wf1: "pit_wf (snd (pit_advance p1 n1))" using w by (simp add: wf_intros)
  note r1 = pit_read_channel [OF wf1 assms(2,5)]
  note r2 = pit_read_channel [OF pit_wf_advance [OF r1(3)] assms(2,6)]
  have a1: "ch_latched (pit_channels (snd (pit_advance p1 n1)) ! i) = Some (ch_counter (pit_channels p ! i))"
    "ch_access (pit_channels (snd (pit_advance p1 n1)) ! i) = LowHigh"
    "\<not> read_high_next (pit_channels (snd (pit_advance p1 n1)) ! i)"
    using pit_advance_latch [of p1 i n1] w assms(2,3) by simp_all
  moreover have "ch_latched (pit_channels (snd (pit_advance p2 n2)) ! i) = Some (ch_counter (pit_channels p ! i))"
    "ch_access (pit_channels (snd (pit_advance p2 n2)) ! i) = LowHigh"
    "read_high_next (pit_channels (snd (pit_advance p2 n2)) ! i)"
    using pit_advance_latch [OF r1(3) assms(2), of n2] a1 by (simp_all add: r1(2) channel_read_def)
  ultimately show ?thesis
    using r1(1) r2(1,2) by (simp add: channel_read_def)
qed

section \<open>Witnesses\<close>

text \<open>Channel 0 as Linux programs it: rate generator, low/high access, reload 11932 (100 Hz).\<close>

definition pit_example :: pit8254 where
  "pit_example = pit_new\<lparr>pit_channels := (pit_channels pit_new)
     [0 := pit_channel_default\<lparr>ch_mode := 2, ch_reload := 11932, ch_counter := 11932\<rparr>]\<rparr>"

lemma pit_example_facts:
  "pit_wf pit_example" "channel_periodic (pit_channels pit_example ! 0)"
  "ch_access (pit_channels pit_example ! 0) = LowHigh"
  "fractional_ticks pit_example = 0"
  by (simp_all add: pit_example_def pit_new_def pit_channel_default_def pit_wf_def channel_wf_def
      channel_periodic_def)

theorem pit_no_tick_lost_witness:
  "ch_counter (pit_channels (fold (\<lambda>ns p. snd (pit_advance p ns)) [500, 700, 999] pit_example) ! 0)
   = ch_counter (pit_channels (snd (pit_advance pit_example 2199)) ! 0)"
  using pit_no_tick_lost [OF pit_example_facts(1) _ pit_example_facts(2), of "[500, 700, 999]"]
  by (simp add: tick_sum_def pit_example_facts(4))

theorem pit_latch_stable_witness:
  "\<exists>p1 low p2 high p3. pit_write pit_example 0x43 1 0 = Inr p1
     \<and> pit_read (snd (pit_advance p1 100000)) 0x40 1 = Inr (low, p2)
     \<and> pit_read (snd (pit_advance p2 5)) 0x40 1 = Inr (high, p3)
     \<and> low = ucast (ucast (ch_counter (pit_channels pit_example ! 0)) :: u8)
     \<and> high = ucast (ucast (drop_bit 8 (ch_counter (pit_channels pit_example ! 0))) :: u8)"
proof -
  obtain p1 where p1: "pit_write pit_example 0x43 1 0 = Inr p1" "pit_wf p1"
    using pit_write_ok [OF pit_example_facts(1)] by blast
  obtain low p2 where p2: "pit_read (snd (pit_advance p1 100000)) 0x40 1 = Inr (low, p2)" "pit_wf p2"
    using pit_read_ok [OF pit_wf_advance [OF p1(2)]] by blast
  obtain high p3 where p3: "pit_read (snd (pit_advance p2 5)) 0x40 1 = Inr (high, p3)"
    using pit_read_ok [OF pit_wf_advance [OF p2(2)]] by blast
  from pit_latch_stable [OF pit_example_facts(1) _ pit_example_facts(3), of p1 100000 low p2 5 high p3]
    p1 p2 p3 show ?thesis by simp
qed

end
