(* ===== verification/Uart16550.thy ===== *)
theory Uart16550
  imports Port_Bus "HOL-Library.Sublist"
begin

text \<open>
  The 16550A UART (\<open>devices/uart16550.rs\<close>): the bounded host-to-guest and guest-to-host queues,
  the register file with the DLAB alias, and the interrupt conditions. The properties follow the
  bytes of each direction through any interleaving of guest accesses and host calls.
\<close>

section \<open>State\<close>

record uart16550 =
  u_base :: u16
  u_input :: bytes
  u_output :: bytes
  input_capacity :: nat
  output_capacity :: nat
  u_dropped_output :: u64
  u_divisor :: u16
  u_ier :: u8
  fifo_enabled :: bool
  u_lcr :: u8
  u_mcr :: u8
  u_scr :: u8

definition uart_new :: "u16 \<Rightarrow> nat \<Rightarrow> nat \<Rightarrow> uart16550" where
  "uart_new base icap ocap = \<lparr>u_base = base, u_input = [], u_output = [], input_capacity = icap,
     output_capacity = ocap, u_dropped_output = 0, u_divisor = 1, u_ier = 0, fifo_enabled = False,
     u_lcr = 3, u_mcr = 0, u_scr = 0\<rparr>"

section \<open>Operations\<close>

definition poll_interrupt_edge :: "uart16550 \<Rightarrow> bool" where
  "poll_interrupt_edge u =
     (let rx_now = (u_ier u AND 1 \<noteq> 0 \<and> u_input u \<noteq> []);
          tx_now = (u_ier u AND 2 \<noteq> 0)
      in rx_now \<or> tx_now)"

fun push_input_loop :: "bytes \<Rightarrow> uart16550 \<Rightarrow> nat \<Rightarrow> nat \<times> uart16550" where
  "push_input_loop [] u accepted = (accepted, u)"
| "push_input_loop (b # bs) u accepted =
     (if input_capacity u \<le> length (u_input u) then (accepted, u)
      else push_input_loop bs (u\<lparr>u_input := u_input u @ [b]\<rparr>) (accepted + 1))"

definition push_input :: "uart16550 \<Rightarrow> bytes \<Rightarrow> nat \<times> uart16550" where
  "push_input u bs = push_input_loop bs u 0"

definition drain_output :: "uart16550 \<Rightarrow> bytes \<times> uart16550" where
  "drain_output u =
     (let count = min (length (u_output u)) 4096
      in (take count (u_output u), u\<lparr>u_output := drop count (u_output u)\<rparr>))"

definition dropped_output :: "uart16550 \<Rightarrow> u64" where
  "dropped_output u = u_dropped_output u"

definition has_pending_interrupt :: "uart16550 \<Rightarrow> bool" where
  "has_pending_interrupt u \<longleftrightarrow> (u_ier u AND 1 \<noteq> 0 \<and> u_input u \<noteq> []) \<or> u_ier u AND 2 \<noteq> 0"

definition irq_line :: "uart16550 \<Rightarrow> u8" where
  "irq_line u = (if u_base u = 0x3F8 then 4 else if u_base u = 0x2F8 then 3 else 0)"

definition dlab :: "uart16550 \<Rightarrow> bool" where
  "dlab u \<longleftrightarrow> u_lcr u AND shl1 7 \<noteq> 0"

definition uart_read :: "uart16550 \<Rightarrow> u16 \<Rightarrow> u8 \<Rightarrow> cpu_error + u32 \<times> uart16550" where
  "uart_read u port sz =
     (let reg = port - u_base u
      in if reg = 0
         then if dlab u then Inr (ucast (ucast (u_divisor u) :: u8), u)
              else (case u_input u of [] \<Rightarrow> Inr (0, u)
                    | b # bs \<Rightarrow> Inr (ucast b, u\<lparr>u_input := bs\<rparr>))
         else if reg = 1
         then if dlab u then Inr (ucast (ucast (drop_bit 8 (u_divisor u)) :: u8), u)
              else Inr (ucast (u_ier u), u)
         else if reg = 2
         then let source = (if u_ier u AND 1 \<noteq> 0 \<and> u_input u \<noteq> [] then 4
                            else if u_ier u AND 2 \<noteq> 0 then 2 else 1) :: u8;
                  fifo_bits = (if fifo_enabled u then 0xC0 else 0)
              in Inr (ucast (source OR fifo_bits), u)
         else if reg = 3 then Inr (ucast (u_lcr u), u)
         else if reg = 4 then Inr (ucast (u_mcr u), u)
         else if reg = 5
         then Inr (ucast (shl1 5 OR shl1 6 OR (if u_input u = [] then 0 else shl1 0) :: u8), u)
         else if reg = 6 then Inr (0xB0, u)
         else if reg = 7 then Inr (ucast (u_scr u), u)
         else Inr (0, u))"

definition uart_write :: "uart16550 \<Rightarrow> u16 \<Rightarrow> u8 \<Rightarrow> u32 \<Rightarrow> cpu_error + uart16550" where
  "uart_write u port sz value =
     (let value = ucast value :: u8;
          reg = port - u_base u
      in Inr (if reg = 0
         then if dlab u then u\<lparr>u_divisor := (u_divisor u AND 0xFF00) OR ucast value\<rparr>
              else if length (u_output u) < output_capacity u
              then u\<lparr>u_output := u_output u @ [value]\<rparr>
              else u\<lparr>u_dropped_output := saturating_add (u_dropped_output u) 1\<rparr>
         else if reg = 1
         then if dlab u then u\<lparr>u_divisor := (u_divisor u AND 0x00FF) OR push_bit 8 (ucast value)\<rparr>
              else u\<lparr>u_ier := value AND 0xF\<rparr>
         else if reg = 2
         then let u = u\<lparr>fifo_enabled := value AND shl1 0 \<noteq> 0\<rparr>
              in if value AND shl1 1 \<noteq> 0 then u\<lparr>u_input := []\<rparr> else u
         else if reg = 3 then u\<lparr>u_lcr := value\<rparr>
         else if reg = 4 then u\<lparr>u_mcr := value\<rparr>
         else if reg = 7 then u\<lparr>u_scr := value\<rparr>
         else u))"

definition uart_ops :: "uart16550 port_ops" where
  "uart_ops = \<lparr>pd_read = uart_read, pd_write = uart_write\<rparr>"

section \<open>Invariant\<close>

definition uart_wf :: "uart16550 \<Rightarrow> bool" where
  "uart_wf u \<longleftrightarrow> length (u_input u) \<le> input_capacity u \<and> length (u_output u) \<le> output_capacity u"

lemma push_input_loop_eq:
  "push_input_loop bs u n =
     (let k = min (length bs) (input_capacity u - length (u_input u))
      in (n + k, u\<lparr>u_input := u_input u @ take k bs\<rparr>))"
proof (induction bs arbitrary: u n)
  case (Cons b bs)
  show ?case
  proof (cases "input_capacity u \<le> length (u_input u)")
    case False
    then have "input_capacity u - length (u_input u) = Suc (input_capacity u - Suc (length (u_input u)))"
      by simp
    with False show ?thesis by (simp add: Cons Let_def)
  qed simp
qed simp

lemma push_input_eq:
  "push_input u bs =
     (let k = min (length bs) (input_capacity u - length (u_input u))
      in (k, u\<lparr>u_input := u_input u @ take k bs\<rparr>))"
  by (simp add: push_input_def push_input_loop_eq Let_def)

lemma uart_wf_new: "uart_wf (uart_new base icap ocap)"
  by (simp add: uart_wf_def uart_new_def)

lemma uart_wf_push [wf_intros]: "uart_wf u \<Longrightarrow> uart_wf (snd (push_input u bs))"
  by (auto simp: uart_wf_def push_input_eq Let_def)

lemma uart_wf_drain [wf_intros]: "uart_wf u \<Longrightarrow> uart_wf (snd (drain_output u))"
  by (auto simp: uart_wf_def drain_output_def Let_def)

lemma uart_read_ok: "uart_wf u \<Longrightarrow> \<exists>v u'. uart_read u port sz = Inr (v, u') \<and> uart_wf u'"
  by (auto simp: uart_read_def uart_wf_def Let_def split: list.splits)

lemma uart_write_ok: "uart_wf u \<Longrightarrow> \<exists>u'. uart_write u port sz v = Inr u' \<and> uart_wf u'"
  by (auto simp: uart_write_def uart_wf_def Let_def)

interpretation uart_port: port_device uart_ops uart_wf
  by unfold_locales (simp_all add: uart_ops_def uart_read_ok uart_write_ok)

section \<open>Traces\<close>

datatype uart_event =
    Uart_Read u16 u8
  | Uart_Write u16 u8 u32
  | Uart_Push bytes
  | Uart_Drain

fun uart_step :: "uart_event \<Rightarrow> uart16550 \<Rightarrow> uart16550" where
  "uart_step (Uart_Read port sz) u = (case uart_read u port sz of Inr (_, u') \<Rightarrow> u' | Inl _ \<Rightarrow> u)"
| "uart_step (Uart_Write port sz v) u = (case uart_write u port sz v of Inr u' \<Rightarrow> u' | Inl _ \<Rightarrow> u)"
| "uart_step (Uart_Push bs) u = snd (push_input u bs)"
| "uart_step Uart_Drain u = snd (drain_output u)"

text \<open>What the guest hands to the transmitter, and what the host takes out, at one event.\<close>

fun sent_at :: "uart_event \<Rightarrow> uart16550 \<Rightarrow> bytes" where
  "sent_at (Uart_Write port sz v) u = (if port = u_base u \<and> \<not> dlab u then [ucast v] else [])"
| "sent_at _ u = []"

fun drained_at :: "uart_event \<Rightarrow> uart16550 \<Rightarrow> bytes" where
  "drained_at Uart_Drain u = fst (drain_output u)"
| "drained_at _ u = []"

text \<open>What the host offers, and what the guest reads from the receive buffer, at one event.\<close>

fun pushed_at :: "uart_event \<Rightarrow> uart16550 \<Rightarrow> bytes" where
  "pushed_at (Uart_Push bs) u = take (fst (push_input u bs)) bs"
| "pushed_at _ u = []"

fun received_at :: "uart_event \<Rightarrow> uart16550 \<Rightarrow> bytes" where
  "received_at (Uart_Read port sz) u =
     (if port = u_base u \<and> \<not> dlab u \<and> u_input u \<noteq> []
      then (case uart_read u port sz of Inr (v, _) \<Rightarrow> [ucast v] | Inl _ \<Rightarrow> []) else [])"
| "received_at _ u = []"

fun clears_rx :: "uart_event \<Rightarrow> uart16550 \<Rightarrow> bool" where
  "clears_rx (Uart_Write port sz v) u \<longleftrightarrow> port - u_base u = 2 \<and> (ucast v :: u8) AND shl1 1 \<noteq> 0"
| "clears_rx _ u \<longleftrightarrow> False"

fun collect :: "(uart_event \<Rightarrow> uart16550 \<Rightarrow> bytes) \<Rightarrow> uart_event list \<Rightarrow> uart16550 \<Rightarrow> bytes" where
  "collect f [] u = []"
| "collect f (e # es) u = f e u @ collect f es (uart_step e u)"

fun never :: "(uart_event \<Rightarrow> uart16550 \<Rightarrow> bool) \<Rightarrow> uart_event list \<Rightarrow> uart16550 \<Rightarrow> bool" where
  "never P [] u \<longleftrightarrow> True"
| "never P (e # es) u \<longleftrightarrow> \<not> P e u \<and> never P es (uart_step e u)"

lemma output_step:
  "\<exists>acc. subseq acc (sent_at e u) \<and> drained_at e u @ u_output (uart_step e u) = u_output u @ acc
     \<and> unat (u_dropped_output (uart_step e u))
         = min (unat (u_dropped_output u) + (length (sent_at e u) - length acc)) (2 ^ 64 - 1)"
proof (cases e)
  case (Uart_Write port sz v)
  let ?d = "unat (u_dropped_output u)"
  have d: "?d \<le> 2 ^ 64 - 1" using unat_bound [of "u_dropped_output u"] by simp
  show ?thesis
  proof (cases "port = u_base u \<and> \<not> dlab u")
    case True
    show ?thesis
    proof (cases "length (u_output u) < output_capacity u")
      case True
      with \<open>port = u_base u \<and> \<not> dlab u\<close> d Uart_Write show ?thesis
        by (intro exI [of _ "[ucast v]"]) (simp add: uart_write_def)
    next
      case False
      with \<open>port = u_base u \<and> \<not> dlab u\<close> Uart_Write show ?thesis
        by (intro exI [of _ "[]"]) (simp add: uart_write_def unat_saturating_add)
    qed
  next
    case False
    with d Uart_Write show ?thesis
      by (intro exI [of _ "[]"]) (auto simp: uart_write_def Let_def)
  qed
next
  case (Uart_Read port sz)
  have d: "unat (u_dropped_output u) \<le> 2 ^ 64 - 1" using unat_bound [of "u_dropped_output u"] by simp
  with Uart_Read show ?thesis
    by (intro exI [of _ "[]"]) (auto simp: uart_read_def Let_def split: list.splits)
next
  case (Uart_Push bs)
  have d: "unat (u_dropped_output u) \<le> 2 ^ 64 - 1" using unat_bound [of "u_dropped_output u"] by simp
  with Uart_Push show ?thesis by (intro exI [of _ "[]"]) (auto simp: push_input_eq Let_def)
next
  case Uart_Drain
  have d: "unat (u_dropped_output u) \<le> 2 ^ 64 - 1" using unat_bound [of "u_dropped_output u"] by simp
  with Uart_Drain show ?thesis by (intro exI [of _ "[]"]) (auto simp: drain_output_def Let_def)
qed

lemma input_step:
  assumes "\<not> clears_rx e u"
  shows "received_at e u @ u_input (uart_step e u) = u_input u @ pushed_at e u"
proof (cases e)
  case (Uart_Read port sz)
  then show ?thesis by (auto simp: uart_read_def Let_def ucast_up_down split: list.splits)
next
  case (Uart_Write port sz v)
  with assms show ?thesis by (auto simp: uart_write_def Let_def)
next
  case (Uart_Push bs)
  then show ?thesis by (simp add: push_input_eq Let_def)
next
  case Uart_Drain
  then show ?thesis by (simp add: drain_output_def Let_def)
qed

lemma output_run:
  "\<exists>acc. subseq acc (collect sent_at es u)
     \<and> collect drained_at es u @ u_output (fold uart_step es u) = u_output u @ acc
     \<and> unat (u_dropped_output (fold uart_step es u))
         = min (unat (u_dropped_output u) + (length (collect sent_at es u) - length acc)) (2 ^ 64 - 1)"
proof (induction es arbitrary: u)
  case Nil
  have "unat (u_dropped_output u) \<le> 2 ^ 64 - 1" using unat_bound [of "u_dropped_output u"] by simp
  then show ?case by simp
next
  case (Cons e es)
  obtain a where a: "subseq a (sent_at e u)" "drained_at e u @ u_output (uart_step e u) = u_output u @ a"
    "unat (u_dropped_output (uart_step e u)) = min (unat (u_dropped_output u) + (length (sent_at e u) - length a)) (2 ^ 64 - 1)"
    using output_step by blast
  obtain b where b: "subseq b (collect sent_at es (uart_step e u))"
    "collect drained_at es (uart_step e u) @ u_output (fold uart_step es (uart_step e u)) = u_output (uart_step e u) @ b"
    "unat (u_dropped_output (fold uart_step es (uart_step e u)))
       = min (unat (u_dropped_output (uart_step e u)) + (length (collect sent_at es (uart_step e u)) - length b)) (2 ^ 64 - 1)"
    using Cons by blast
  have len: "length a \<le> length (sent_at e u)" "length b \<le> length (collect sent_at es (uart_step e u))"
    using a(1) b(1) by (simp_all add: list_emb_length)
  have "drained_at e u @ collect drained_at es (uart_step e u) @ u_output (fold uart_step es (uart_step e u))
      = u_output u @ a @ b"
    using a(2) b(2) by simp
  moreover have "unat (u_dropped_output (fold uart_step es (uart_step e u)))
      = min (unat (u_dropped_output u) + (length (collect sent_at (e # es) u) - length (a @ b))) (2 ^ 64 - 1)"
  proof -
    have sat: "min (min (d + x) M + y) M = min (d + (x + y)) M" for d x y M :: nat by simp
    have "length (collect sent_at (e # es) u) - length (a @ b)
        = (length (sent_at e u) - length a) + (length (collect sent_at es (uart_step e u)) - length b)"
      using len by simp
    then show ?thesis unfolding b(3) a(3) by (simp only: sat)
  qed
  ultimately show ?case
    using a(1) b(1) by (intro exI [of _ "a @ b"]) (simp add: list_emb_append_mono)
qed

lemma input_run:
  "never clears_rx es u \<Longrightarrow>
   collect received_at es u @ u_input (fold uart_step es u) = u_input u @ collect pushed_at es u"
proof (induction es arbitrary: u)
  case (Cons e es)
  have "collect received_at es (uart_step e u) @ u_input (fold uart_step es (uart_step e u))
      = u_input (uart_step e u) @ collect pushed_at es (uart_step e u)"
    using Cons by simp
  with input_step [of e u] Cons.prems show ?case by (metis append.assoc collect.simps(2) fold_simps(2) never.simps(2))
qed simp

section \<open>Properties\<close>

text \<open>
  C30: guest-to-host transfer: over any interleaving of port accesses and host calls, the bytes the
  host drains followed by those still queued are the bytes queued before followed by a
  subsequence of what the guest wrote to the transmitter, in order and without duplication, and
  the drop counter grows by exactly the number of bytes refused (saturating).
\<close>
theorem uart_output_conserved:
  "\<exists>acc. subseq acc (collect sent_at es u)
     \<and> collect drained_at es u @ u_output (fold uart_step es u) = u_output u @ acc
     \<and> unat (dropped_output (fold uart_step es u))
         = min (unat (dropped_output u) + (length (collect sent_at es u) - length acc)) (2 ^ 64 - 1)"
  using output_run [of es u] by (simp add: dropped_output_def)

text \<open>
  Host-to-guest transfer: as long as the guest does not reset the receive FIFO, the bytes it
  reads from the receive buffer followed by those still queued are the bytes queued before
  followed by those \<open>push_input\<close> accepted, in order.
\<close>
theorem uart_input_fifo:
  assumes "never clears_rx es u"
  shows "collect received_at es u @ u_input (fold uart_step es u) = u_input u @ collect pushed_at es u"
  by (rule input_run [OF assms])

text \<open>
  \<open>push_input\<close> accepts the longest prefix that fits; what does not fit is dropped and nothing
  in the device counts it: only the queue changes, and two pushes that differ in the excess
  bytes alone leave the same state.
\<close>
theorem uart_push_input_excess:
  assumes "uart_wf u"
  shows "push_input u bs =
      (min (length bs) (input_capacity u - length (u_input u)),
       u\<lparr>u_input := u_input u @ take (input_capacity u - length (u_input u)) bs\<rparr>)
    \<and> uart_wf (snd (push_input u bs))
    \<and> (length (u_input u @ bs) = input_capacity u \<longrightarrow> push_input u (bs @ excess) = push_input u bs)"
proof -
  have "take (input_capacity u - length (u_input u)) (bs @ excess) = bs"
    if "length (u_input u @ bs) = input_capacity u" using that by auto
  then show ?thesis
    using uart_wf_push [OF assms, of bs]
    by (auto simp: push_input_eq Let_def min_def not_le simp flip: take_append)
qed

section \<open>Witnesses\<close>

theorem uart_input_fifo_witness:
  "collect received_at [Uart_Push [0x41, 0x42, 0x43], Uart_Read 0x3F8 1] (uart_new 0x3F8 2 2)
     @ [0x42] = [0x41, 0x42]"
  using uart_input_fifo [of "[Uart_Push [0x41, 0x42, 0x43], Uart_Read 0x3F8 1]" "uart_new 0x3F8 2 2"]
  by (simp add: uart_new_def push_input_def uart_read_def dlab_def)

theorem uart_push_input_excess_witness:
  "push_input (uart_new 0x3F8 2 2) [0x41, 0x42, 0x43] = push_input (uart_new 0x3F8 2 2) [0x41, 0x42]"
  using uart_push_input_excess [OF uart_wf_new, of "0x3F8" 2 2 "[0x41, 0x42]" "[0x43]"]
  by (simp add: uart_new_def)

end
