(* ===== verification/Cmos_Rtc.thy ===== *)
theory Cmos_Rtc
  imports Port_Bus "HOL-Library.Signed_Division"
begin

text \<open>
  The CMOS real-time clock (\<open>devices/cmos.rs\<close>) and the ACPI power-management block
  (\<open>devices/acpi_pm.rs\<close>). The calendar routine is verified against a day count that adds up leap
  years and month lengths, and the RTC registers against the time they encode. The \<open>i64\<close> values
  are integers: the day number is at most \<open>2 ^ 64 div 86400\<close>, so no operation of the routine
  overflows; \<open>sdiv\<close> is Rust's truncating division.
\<close>

section \<open>CMOS\<close>

record cmos =
  cmos_index :: u8
  boot_epoch_seconds :: u64

definition cmos_new :: "u64 \<Rightarrow> cmos" where
  "cmos_new epoch = \<lparr>cmos_index = 0, boot_epoch_seconds = epoch\<rparr>"

definition rtc_seconds :: "cmos \<Rightarrow> u64" where
  "rtc_seconds c = boot_epoch_seconds c"

definition bcd :: "u64 \<Rightarrow> u8" where
  "bcd value = push_bit 4 (ucast (value div 10)) OR ucast (value mod 10)"

definition civil_from_days :: "int \<Rightarrow> int \<times> u32 \<times> u32" where
  "civil_from_days days =
     (let z = days + 719468;
          era = (if 0 \<le> z then z else z - 146096) sdiv 146097;
          doe = z - era * 146097;
          yoe = (doe - doe sdiv 1460 + doe sdiv 36524 - doe sdiv 146096) sdiv 365;
          y = yoe + era * 400;
          doy = doe - (365 * yoe + yoe sdiv 4 - yoe sdiv 100);
          mp = (5 * doy + 2) sdiv 153;
          d = of_int (doy - (153 * mp + 2) sdiv 5 + 1) :: u32;
          m = of_int (if mp < 10 then mp + 3 else mp - 9) :: u32
      in (if m \<le> 2 then y + 1 else y, m, d))"

definition rtc_read_register :: "cmos \<Rightarrow> u8 \<Rightarrow> u8" where
  "rtc_read_register c register =
     (let epoch = rtc_seconds c;
          seconds = epoch mod 60;
          minutes = (epoch div 60) mod 60;
          hours = (epoch div 3600) mod 24;
          days = uint (epoch div 86400);
          (year, month, day) = civil_from_days days;
          weekday = of_int ((days + 4) mod 7) :: u64
      in if register = 0x00 then bcd seconds
         else if register = 0x02 then bcd minutes
         else if register = 0x04 then bcd hours
         else if register = 0x06 then bcd (weekday + 1)
         else if register = 0x07 then bcd (ucast day)
         else if register = 0x08 then bcd (ucast month)
         else if register = 0x09 then bcd (of_int (year mod 100))
         else if register = 0x0A then 0x20
         else if register = 0x0B then 0x02
         else if register = 0x32 then bcd (of_int (year sdiv 100))
         else 0)"

definition cmos_read :: "cmos \<Rightarrow> u16 \<Rightarrow> u8 \<Rightarrow> cpu_error + u32 \<times> cmos" where
  "cmos_read c port sz =
     (if port = 0x71 then Inr (ucast (rtc_read_register c (cmos_index c)), c) else Inr (- 1, c))"

definition cmos_write :: "cmos \<Rightarrow> u16 \<Rightarrow> u8 \<Rightarrow> u32 \<Rightarrow> cpu_error + cmos" where
  "cmos_write c port sz value =
     Inr (if port = 0x70 then c\<lparr>cmos_index := ucast value\<rparr> else c)"

definition cmos_ops :: "cmos port_ops" where
  "cmos_ops = \<lparr>pd_read = cmos_read, pd_write = cmos_write\<rparr>"

interpretation cmos_port: port_device cmos_ops "\<lambda>c. boot_epoch_seconds c = epoch"
  by unfold_locales (auto simp: cmos_ops_def cmos_read_def cmos_write_def)

section \<open>ACPI power management\<close>

record acpi_pm =
  pm_status :: u16
  pm_enable :: u16
  pm_control :: u16

definition acpi_pm_new :: acpi_pm where
  "acpi_pm_new = \<lparr>pm_status = 0, pm_enable = 0, pm_control = shl1 0\<rparr>"

definition pm_handles :: "u16 \<Rightarrow> bool" where
  "pm_handles port \<longleftrightarrow> 0x600 \<le> port \<and> port \<le> 0x60B"

definition pm_read :: "acpi_pm \<Rightarrow> u16 \<Rightarrow> u8 \<Rightarrow> u64 \<Rightarrow> u32" where
  "pm_read a port sz tsc =
     (if port = 0x600 then ucast (pm_status a)
      else if port = 0x602 then ucast (pm_enable a)
      else if port = 0x604 then ucast (pm_control a)
      else if port = 0x608 then ucast (drop_bit 2 tsc AND 0x00FFFFFF)
      else 0)"

definition pm_write :: "acpi_pm \<Rightarrow> u16 \<Rightarrow> u8 \<Rightarrow> u32 \<Rightarrow> acpi_pm" where
  "pm_write a port sz value =
     (if port = 0x600 then a\<lparr>pm_status := pm_status a AND NOT (ucast value)\<rparr>
      else if port = 0x602 then a\<lparr>pm_enable := ucast value\<rparr>
      else if port = 0x604 then a\<lparr>pm_control := ucast value OR shl1 0\<rparr>
      else a)"

lemma pm_write_sci_enabled: "bit (pm_control a) 0 \<Longrightarrow> bit (pm_control (pm_write a port sz v)) 0"
  by (simp add: pm_write_def bit_or_iff)

section \<open>The calendar\<close>

definition is_leap :: "int \<Rightarrow> bool" where
  "is_leap y \<longleftrightarrow> y mod 4 = 0 \<and> (y mod 100 \<noteq> 0 \<or> y mod 400 = 0)"

definition days_in_month :: "int \<Rightarrow> int \<Rightarrow> int" where
  "days_in_month y m =
     (if m = 2 then if is_leap y then 29 else 28
      else if m \<in> {4, 6, 9, 11} then 30 else 31)"

text \<open>Days before 1 January of year \<open>y\<close>, counted from 1 January of year 1.\<close>

definition days_before_year :: "int \<Rightarrow> int" where
  "days_before_year y = 365 * (y - 1) + (y - 1) div 4 - (y - 1) div 100 + (y - 1) div 400"

definition days_before_month :: "int \<Rightarrow> int \<Rightarrow> int" where
  "days_before_month y m = sum_list (map (days_in_month y) [1..m - 1])"

definition days_from_civil :: "int \<Rightarrow> int \<Rightarrow> int \<Rightarrow> int" where
  "days_from_civil y m d =
     days_before_year y - days_before_year 1970 + days_before_month y m + d - 1"

definition valid_date :: "int \<Rightarrow> int \<Rightarrow> int \<Rightarrow> bool" where
  "valid_date y m d \<longleftrightarrow> 1 \<le> m \<and> m \<le> 12 \<and> 1 \<le> d \<and> d \<le> days_in_month y m"

subsection \<open>The year within a 400-year era\<close>

text \<open>First day (from 1 March of the era) of its March-based year \<open>n\<close>, and the day after its last.\<close>

definition era_year_start :: "int \<Rightarrow> int" where
  "era_year_start n = 365 * n + n div 4 - n div 100"

definition era_year_end :: "int \<Rightarrow> int" where
  "era_year_end n = (if n = 399 then 146097 else era_year_start (n + 1))"

definition era_scale :: "int \<Rightarrow> int" where
  "era_scale doe = doe - doe div 1460 + doe div 36524 - doe div 146096"

lemma sdiv_nonneg: "0 \<le> a \<Longrightarrow> 0 < b \<Longrightarrow> a sdiv b = a div b" for a b :: int
  by (cases "a = 0") (simp_all add: signed_divide_int_def)

lemma minus_div_mono: "a \<le> b \<Longrightarrow> 0 < k \<Longrightarrow> a - a div k \<le> b - b div k" for a b k :: int
proof -
  assume ab: "a \<le> b" and k: "0 < k"
  have "b \<le> a + (b - a) * k" using ab k mult_le_cancel_left1 [of "b - a" k] by auto
  then have "b div k \<le> (a + (b - a) * k) div k" using k by (rule zdiv_mono1)
  then show ?thesis using k by simp
qed

lemma era_scale_mono:
  assumes "0 \<le> a" "a \<le> b"
  shows "era_scale a \<le> era_scale b"
proof -
  have q: "x div 146096 = (x div 36524) div 4" for x :: int
    using zdiv_zmult2_eq [of 4 x 36524] by simp
  have "a div 36524 \<le> b div 36524" using assms(2) by (rule zdiv_mono1) simp
  from minus_div_mono [OF assms(2), of 1460] minus_div_mono [OF this, of 4]
  show ?thesis by (simp add: era_scale_def q)
qed

lemma era_table:
  "list_all (\<lambda>n. 0 \<le> era_year_start n \<and> 365 * n \<le> era_scale (era_year_start n)
      \<and> era_scale (era_year_end n - 1) < 365 * (n + 1)
      \<and> era_year_end n - era_year_start n = (if is_leap (n + 1) then 366 else 365)) [0..399]"
  by code_simp

lemma era_year_facts:
  assumes "0 \<le> n" "n \<le> 399"
  shows "365 * n \<le> era_scale (era_year_start n)" "era_scale (era_year_end n - 1) < 365 * (n + 1)"
    "era_year_end n - era_year_start n = (if is_leap (n + 1) then 366 else 365)" "0 \<le> era_year_start n"
  using era_table assms by (simp_all add: list_all_iff)

lemma era_year_exists:
  assumes "0 \<le> doe" "doe < 146097"
  obtains n where "0 \<le> n" "n \<le> 399" "era_year_start n \<le> doe" "doe < era_year_end n"
proof -
  have "\<exists>n. 0 \<le> n \<and> n \<le> 399 \<and> era_year_start n \<le> doe \<and> doe < era_year_end n"
    if "0 \<le> k" "k \<le> 399" "doe < era_year_end k" for k
    using that
  proof (induction "nat k" arbitrary: k)
    case 0
    then have "k = 0" by simp
    with 0 assms(1) show ?case by (intro exI [of _ 0]) (simp add: era_year_start_def)
  next
    case (Suc i)
    show ?case
    proof (cases "era_year_start k \<le> doe")
      case True
      with Suc.prems show ?thesis by blast
    next
      case False
      have "era_year_end (k - 1) = era_year_start k" using Suc.prems by (simp add: era_year_end_def)
      with Suc.prems False show ?thesis using Suc.hyps by (intro Suc.hyps(1) [of "k - 1"]) auto
    qed
  qed
  from this [of 399] assms(2) that show thesis by (auto simp: era_year_end_def)
qed

lemma era_year:
  assumes "0 \<le> doe" "doe < 146097"
  defines "n \<equiv> era_scale doe div 365"
  shows "0 \<le> n \<and> n \<le> 399 \<and> era_year_start n \<le> doe \<and> doe < era_year_end n"
proof -
  obtain k where k: "0 \<le> k" "k \<le> 399" "era_year_start k \<le> doe" "doe < era_year_end k"
    using era_year_exists [OF assms(1,2)] .
  note f = era_year_facts [OF k(1,2)]
  have "era_scale (era_year_start k) \<le> era_scale doe" using f(4) k(3) by (rule era_scale_mono)
  moreover have "era_scale doe \<le> era_scale (era_year_end k - 1)"
    using k(4) assms(1) by (intro era_scale_mono) auto
  ultimately have "365 * k \<le> era_scale doe" "era_scale doe < 365 * (k + 1)" using f by simp_all
  then have "n = k" unfolding n_def by (intro int_div_pos_eq [of _ _ _ "era_scale doe - 365 * k"]) auto
  with k show ?thesis by simp
qed

subsection \<open>The month within a March-based year\<close>

definition march_month :: "int \<Rightarrow> int" where
  "march_month doy = (5 * doy + 2) div 153"

definition civil_month :: "int \<Rightarrow> int" where
  "civil_month doy = (let mp = march_month doy in if mp < 10 then mp + 3 else mp - 9)"

definition civil_day :: "int \<Rightarrow> int" where
  "civil_day doy = doy - (153 * march_month doy + 2) div 5 + 1"

lemma month_table:
  "list_all (\<lambda>doy. let m = civil_month doy; d = civil_day doy in
      1 \<le> m \<and> m \<le> 12 \<and> 1 \<le> d \<and> d \<le> (if doy = 365 then 29 else days_in_month 1 m)
      \<and> (doy = 365 \<longrightarrow> m = 2)
      \<and> doy = (if m \<le> 2 then 306 else - 59) + days_before_month 1 m + d - 1) [0..365]"
  by code_simp

lemma month_facts:
  assumes "0 \<le> doy" "doy \<le> 365"
  defines "m \<equiv> civil_month doy" and "d \<equiv> civil_day doy"
  shows "1 \<le> m" "m \<le> 12" "1 \<le> d" "d \<le> (if doy = 365 then 29 else days_in_month 1 m)"
    "doy = 365 \<longrightarrow> m = 2"
    "doy = (if m \<le> 2 then 306 else - 59) + days_before_month 1 m + d - 1"
  using month_table assms(1,2) unfolding list_all_iff Let_def m_def d_def by auto

lemma days_in_month_common: "\<not> is_leap y \<or> m \<noteq> 2 \<Longrightarrow> days_in_month y m = days_in_month 1 m"
  by (auto simp: days_in_month_def is_leap_def)

text \<open>A leap day shifts the later months by one.\<close>

lemma days_before_month_leap:
  assumes "1 \<le> m" "m \<le> 12"
  shows "days_before_month y m = days_before_month 1 m + (if is_leap y \<and> 2 < m then 1 else 0)"
proof -
  have "m = 1 \<or> m = 2 \<or> m = 3 \<or> m = 4 \<or> m = 5 \<or> m = 6 \<or> m = 7 \<or> m = 8 \<or> m = 9 \<or> m = 10
      \<or> m = 11 \<or> m = 12" using assms by presburger
  moreover have "\<not> is_leap 1" by (simp add: is_leap_def)
  ultimately show ?thesis
    by (elim disjE; hypsubst; simp add: days_before_month_def days_in_month_def upto_rec1)
qed

lemma div_pred:
  fixes a k :: int
  assumes "1 < k"
  shows "a div k - (a - 1) div k = (if a mod k = 0 then 1 else 0)"
proof -
  define q r where "q = a div k" and "r = a mod k"
  have a: "a = q * k + r" by (simp add: q_def r_def)
  have r: "0 \<le> r" "r < k" using assms by (simp_all add: r_def)
  have "(a - 1) div k = (if r = 0 then q - 1 else q)"
  proof (cases "r = 0")
    case True
    with a have "a - 1 = (k - 1) + (q - 1) * k" by (simp add: left_diff_distrib)
    then have "(a - 1) div k = q - 1 + (k - 1) div k"
      by (simp only:) (rule div_mult_self1, use assms in simp)
    with True assms show ?thesis by simp
  next
    case False
    with a have "a - 1 = (r - 1) + q * k" by simp
    then have "(a - 1) div k = q + (r - 1) div k"
      by (simp only:) (rule div_mult_self1, use assms in simp)
    with False r show ?thesis by simp
  qed
  then show ?thesis by (simp add: q_def r_def)
qed

lemma leap_year_length: "days_before_year (y + 1) - days_before_year y = (if is_leap y then 366 else 365)"
proof -
  have dvd: "y mod 400 = 0 \<Longrightarrow> y mod 100 = 0" "y mod 100 = 0 \<Longrightarrow> y mod 4 = 0"
    using dvd_trans [of 100 400 y] dvd_trans [of 4 100 y] by (simp_all add: mod_eq_0_iff_dvd)
  have len: "days_before_year (y + 1) - days_before_year y = 365 + (y div 4 - (y - 1) div 4)
      - (y div 100 - (y - 1) div 100) + (y div 400 - (y - 1) div 400)"
    by (simp add: days_before_year_def)
  have d: "y div k - (y - 1) div k = (if y mod k = 0 then 1 else 0)" if "k \<in> {4, 100, 400}" for k
    by (rule div_pred) (use that in auto)
  have bool: "365 + (if P then 1 else 0) - (if Q then 1 else 0) + (if R then 1 else 0)
      = (if P \<and> (\<not> Q \<or> R) then 366 else (365 :: int))" if "R \<Longrightarrow> Q" "Q \<Longrightarrow> P" for P Q R
    using that by (cases P; cases Q; cases R) simp_all
  show ?thesis
    unfolding len d [of 4, simplified] d [of 100, simplified] d [of 400, simplified] is_leap_def
    by (rule bool) (fact dvd)+
qed

lemma days_before_year_era:
  assumes "0 \<le> n" "n \<le> 399"
  shows "days_before_year (n + era * 400 + 1) = era * 146097 + era_year_start n"
proof -
  have d: "(n + era * 400) div 4 = n div 4 + era * 100" "(n + era * 400) div 100 = n div 100 + era * 4"
    "(n + era * 400) div 400 = era"
    using div_mult_self1 [of 4 n "era * 100"] div_mult_self1 [of 100 n "era * 4"]
      div_mult_self1 [of 400 n era] assms by simp_all
  have ring: "365 * (n + era * 400) + (p + era * 100) - (q + era * 4) + era
      = era * 146097 + (365 * n + p - q)" for p q :: int
    by simp
  show ?thesis
    unfolding days_before_year_def era_year_start_def add_diff_cancel_right' d by (rule ring)
qed

lemma is_leap_era: "is_leap (n + era * 400) = is_leap n"
proof -
  have "(n + era * 400) mod 4 = n mod 4" "(n + era * 400) mod 100 = n mod 100"
    "(n + era * 400) mod 400 = n mod 400"
    using mod_mult_self1 [of n "era * 100" 4] mod_mult_self1 [of n "era * 4" 100]
      mod_mult_self1 [of n era 400] by (simp_all add: mult.commute)
  then show ?thesis by (simp add: is_leap_def)
qed


subsection \<open>The routine\<close>

lemma era_floor: "(if 0 \<le> z then z else z - 146096) sdiv 146097 = z div 146097" for z :: int
proof (cases "0 \<le> z")
  case True
  then show ?thesis by (simp add: sdiv_nonneg)
next
  case False
  define q r where "q = z div 146097" and "r = z mod 146097"
  have z: "z = q * 146097 + r" by (simp add: q_def r_def)
  have r: "0 \<le> r" "r < 146097" by (simp_all add: r_def)
  have "q < 0" using False z r by linarith
  have "(- (z - 146096)) div 146097 = - q"
  proof -
    have "- (z - 146096) = (146096 - r) + (- q) * 146097" by (simp add: z)
    then show ?thesis
      using div_mult_self1 [of 146097 "146096 - r" "- q"] r by (simp add: div_pos_pos_trivial)
  qed
  with False \<open>q < 0\<close> show ?thesis by (simp add: signed_divide_int_def q_def)
qed

text \<open>The routine with its intermediate values in range.\<close>

lemma civil_from_days_parts:
  fixes days :: int
  defines "z \<equiv> days + 719468"
  defines "doe \<equiv> z mod 146097"
  defines "n \<equiv> era_scale doe div 365"
  defines "doy \<equiv> doe - era_year_start n"
  defines "m \<equiv> civil_month doy" and "d \<equiv> civil_day doy"
  shows "civil_from_days days =
      (n + z div 146097 * 400 + (if m \<le> 2 then 1 else 0), of_int m, of_int d)"
    and "0 \<le> n" and "n \<le> 399" and "0 \<le> doy" and "doy \<le> 365" and "doy = 365 \<longrightarrow> is_leap (n + 1)"
proof -
  have doe: "0 \<le> doe" "doe < 146097" by (simp_all add: doe_def)
  from era_year [OF doe] have n: "0 \<le> n" "n \<le> 399" "era_year_start n \<le> doe" "doe < era_year_end n"
    by (simp_all add: n_def)
  from era_year_facts(3) [OF n(1,2)] n(3,4) show doy: "0 \<le> doy" "doy \<le> 365" "doy = 365 \<longrightarrow> is_leap (n + 1)"
    by (auto simp: doy_def split: if_splits)
  show "0 \<le> n" "n \<le> 399" by (fact n)+
  note mf = month_facts [OF doy(1,2), folded m_def d_def]
  have mp: "0 \<le> march_month doy" using doy(1) by (simp add: march_month_def)
  have sc: "0 \<le> era_scale doe" using era_scale_mono [of 0 doe] doe by (simp add: era_scale_def)
  have e1: "z - z div 146097 * 146097 = doe" by (simp add: minus_div_mult_eq_mod doe_def)
  have e2: "(doe - doe sdiv 1460 + doe sdiv 36524 - doe sdiv 146096) sdiv 365 = n"
    using doe sc by (simp add: sdiv_nonneg n_def era_scale_def)
  have e3: "doe - (365 * n + n sdiv 4 - n sdiv 100) = doy"
    using n(1) by (simp add: sdiv_nonneg doy_def era_year_start_def)
  have e4: "(5 * doy + 2) sdiv 153 = march_month doy" "(153 * march_month doy + 2) sdiv 5 = (153 * march_month doy + 2) div 5"
    using doy(1) mp by (simp_all add: sdiv_nonneg march_month_def)
  have e5: "(if march_month doy < 10 then march_month doy + 3 else march_month doy - 9) = m"
    "doy - (153 * march_month doy + 2) div 5 + 1 = d"
    by (simp_all add: m_def d_def civil_month_def civil_day_def)
  have e6: "(of_int m :: u32) \<le> 2 \<longleftrightarrow> m \<le> 2"
  proof -
    have "uint (of_int m :: u32) = m" using mf(1,2) by (simp add: uint_word_of_int_eq take_bit_int_eq_self)
    then show ?thesis by (simp add: word_le_def)
  qed
  show "civil_from_days days =
      (n + z div 146097 * 400 + (if m \<le> 2 then 1 else 0), of_int m, of_int d)"
    unfolding civil_from_days_def Let_def z_def [symmetric] era_floor e1 e2 e3 e4 e5 e6 by simp
qed

lemma civil_from_days_correct:
  fixes days :: int
  assumes "civil_from_days days = (y, mw, dw)"
  shows "valid_date y (uint mw) (uint dw)" "days_from_civil y (uint mw) (uint dw) = days"
proof -
  define z era doe n doy m d where "z = days + 719468" and "era = z div 146097" and "doe = z mod 146097"
    and "n = era_scale doe div 365" and "doy = doe - era_year_start n"
    and "m = civil_month doy" and "d = civil_day doy"
  note p = civil_from_days_parts [of days, folded z_def, folded era_def doe_def, folded n_def, folded doy_def,
      folded m_def d_def]
  note mf = month_facts [OF p(4,5), folded m_def d_def]
  have z: "days = era * 146097 + doe - 719468" using z_def by (simp add: era_def doe_def)
  have leap1: "\<not> is_leap 1" by (simp add: is_leap_def)
  have y: "y = n + era * 400 + (if m \<le> 2 then 1 else 0)" and mw: "mw = of_int m" and dw: "dw = of_int d"
    using assms p(1) by simp_all
  have dm: "days_in_month 1 m \<le> 31" by (simp add: days_in_month_def leap1)
  then have "uint mw = m" "uint dw = d"
    using mf(1-4) by (simp_all add: mw dw uint_word_of_int_eq take_bit_int_eq_self split: if_splits)
  moreover have "valid_date y m d"
  proof (cases "doy = 365")
    case True
    then have m2: "m = 2" and "is_leap (n + 1)" using mf(5) p(6) by simp_all
    moreover have "y = n + 1 + era * 400" using m2 by (simp add: y)
    ultimately have "is_leap y" using is_leap_era [of "n + 1" era] by simp
    with True mf(3,4) m2 show ?thesis by (simp add: valid_date_def days_in_month_def)
  next
    case False
    have "days_in_month 1 m \<le> days_in_month y m" by (simp add: days_in_month_def leap1)
    with False mf(1-4) show ?thesis by (simp add: valid_date_def)
  qed
  moreover have "days_from_civil y m d = days"
  proof -
    have b: "days_before_year (n + era * 400 + 1) = era * 146097 + doe - doy"
      using days_before_year_era [OF p(2,3), of era] by (simp add: doy_def)
    have y70: "days_before_year 1970 = 719162" by (simp add: days_before_year_def)
    show ?thesis
    proof (cases "m \<le> 2")
      case True
      then have "y = n + era * 400 + 1" by (simp add: y)
      with True b mf(6) y70 days_before_month_leap [OF mf(1,2), of y] show ?thesis
        unfolding days_from_civil_def z by simp
    next
      case False
      then have "y + 1 = n + era * 400 + 1" by (simp add: y)
      with b have "days_before_year (y + 1) = era * 146097 + doe - doy" by simp
      with False mf(6) y70 days_before_month_leap [OF mf(1,2), of y] leap_year_length [of y] show ?thesis
        unfolding days_from_civil_def z by (cases "is_leap y") simp_all
    qed
  qed
  ultimately show "valid_date y (uint mw) (uint dw)" "days_from_civil y (uint mw) (uint dw) = days" by simp_all
qed


lemma days_before_year_mono: "y \<le> y' \<Longrightarrow> days_before_year y \<le> days_before_year y'"
proof (induction rule: int_ge_induct)
  case (step i)
  then show ?case using leap_year_length [of i] by (simp split: if_splits)
qed simp

lemma day_of_year_bound:
  assumes "valid_date y m d"
  shows "0 \<le> days_before_month y m" "days_before_month y m + d \<le> days_before_year (y + 1) - days_before_year y"
proof -
  have m: "m = 1 \<or> m = 2 \<or> m = 3 \<or> m = 4 \<or> m = 5 \<or> m = 6 \<or> m = 7 \<or> m = 8 \<or> m = 9 \<or> m = 10
      \<or> m = 11 \<or> m = 12" using assms unfolding valid_date_def by presburger
  have d: "d \<le> days_in_month y m" using assms by (simp add: valid_date_def)
  show "0 \<le> days_before_month y m"
    using m by (elim disjE; hypsubst; simp add: days_before_month_def days_in_month_def upto_rec1)
  show "days_before_month y m + d \<le> days_before_year (y + 1) - days_before_year y"
    using m d unfolding leap_year_length
    by (cases "is_leap y"; elim disjE; hypsubst; simp add: days_before_month_def days_in_month_def upto_rec1)
qed

lemma year_range:
  assumes "valid_date y m d" "0 \<le> days_from_civil y m d" "days_from_civil y m d < 2932897"
  shows "1970 \<le> y" "y \<le> 9999"
proof -
  note b = day_of_year_bound [OF assms(1)]
  have d: "1 \<le> d" using assms(1) by (simp add: valid_date_def)
  have y70: "days_before_year 1970 = 719162" "days_before_year 10000 = 3652059"
    by (simp_all add: days_before_year_def)
  show "1970 \<le> y"
  proof (rule ccontr)
    assume "\<not> 1970 \<le> y"
    then have "days_before_year (y + 1) \<le> days_before_year 1970" by (intro days_before_year_mono) simp
    with b d y70 assms(2) show False by (simp add: days_from_civil_def)
  qed
  show "y \<le> 9999"
  proof (rule ccontr)
    assume "\<not> y \<le> 9999"
    then have "days_before_year 10000 \<le> days_before_year y" by (intro days_before_year_mono) simp
    with b d y70 assms(3) show False by (simp add: days_from_civil_def)
  qed
qed

section \<open>Reading the clock\<close>

definition unbcd :: "u8 \<Rightarrow> int" where
  "unbcd b = 10 * (uint b div 16) + uint b mod 16"

lemma or_nibbles:
  fixes a b :: u8
  assumes "unat a < 16" "unat b < 16"
  shows "unat (push_bit 4 a OR b) = 16 * unat a + unat b"
proof -
  have "b = take_bit 4 b" using assms(2) by (simp add: word_unat_eq_iff unsigned_take_bit_eq take_bit_nat_eq_self)
  then have "\<not> bit (push_bit 4 a) n \<or> \<not> bit b n" for n
    by (metis bit_push_bit_iff bit_take_bit_iff not_le)
  then have "push_bit 4 a OR b = push_bit 4 a + b" by (simp add: disjunctive_add)
  moreover have "unat (push_bit 4 a) = 16 * unat a"
    using assms(1) by (simp add: push_bit_eq_mult unat_mult_no_wrap mult.commute [of a])
  ultimately show ?thesis using assms by (simp add: unat_add_no_wrap)
qed

lemma unbcd_bcd_word:
  fixes w :: u64
  assumes "uint w < 100"
  shows "unbcd (bcd w) = uint w"
proof -
  have w: "unat w < 100" using assms unfolding uint_nat by (simp only: of_nat_less_numeral_iff)
  have "unat (ucast (w div 10) :: u8) = unat w div 10" "unat (ucast (w mod 10) :: u8) = unat w mod 10"
    using w by (simp_all add: unat_ucast_mod unat_div unat_mod)
  then have "unat (bcd w) = 16 * (unat w div 10) + unat w mod 10"
    using w by (simp add: bcd_def or_nibbles)
  then have "uint (bcd w) = 16 * (uint w div 10) + uint w mod 10"
    unfolding uint_nat by (simp only: of_nat_add of_nat_mult of_nat_div of_nat_mod of_nat_numeral)
  moreover have "uint w mod 10 < 16" by (rule less_trans [OF pos_mod_bound]) simp_all
  ultimately show ?thesis by (simp add: unbcd_def)
qed

lemma unbcd_bcd: "0 \<le> v \<Longrightarrow> v < 100 \<Longrightarrow> unbcd (bcd (of_int v)) = v"
  using unbcd_bcd_word [of "of_int v"] by (simp add: uint_word_of_int_eq take_bit_int_eq_self)

text \<open>A guest reads register \<open>r\<close> by selecting it on port 0x70 and reading port 0x71.\<close>

definition rtc_port_read :: "cmos \<Rightarrow> u8 \<Rightarrow> int" where
  "rtc_port_read c r =
     (case cmos_write c 0x70 1 (ucast r) of
        Inr c' \<Rightarrow> (case cmos_read c' 0x71 1 of Inr (v, _) \<Rightarrow> unbcd (ucast v) | Inl _ \<Rightarrow> 0)
      | Inl _ \<Rightarrow> 0)"

definition rtc_decode :: "cmos \<Rightarrow> int" where
  "rtc_decode c =
     days_from_civil (100 * rtc_port_read c 0x32 + rtc_port_read c 0x09) (rtc_port_read c 0x08)
       (rtc_port_read c 0x07) * 86400
     + rtc_port_read c 0x04 * 3600 + rtc_port_read c 0x02 * 60 + rtc_port_read c 0x00"

lemma rtc_port_read_eq: "rtc_port_read c r = unbcd (rtc_read_register (c\<lparr>cmos_index := r\<rparr>) r)"
  by (simp add: rtc_port_read_def cmos_write_def cmos_read_def ucast_up_down)

lemma uint_ucast_up32: "uint (ucast (w :: u32) :: u64) = uint w"
  unfolding uint_nat by (rule arg_cong [where f = int], rule unat_ucast_up) simp

lemma rtc_registers:
  fixes c :: cmos
  defines "e \<equiv> boot_epoch_seconds c"
  assumes "civil_from_days (uint (e div 86400)) = (y, mw, dw)" "1970 \<le> y" "y \<le> 9999"
    "valid_date y (uint mw) (uint dw)"
  shows "rtc_port_read c 0x00 = uint e mod 60" "rtc_port_read c 0x02 = uint e div 60 mod 60"
    "rtc_port_read c 0x04 = uint e div 3600 mod 24" "rtc_port_read c 0x07 = uint dw"
    "rtc_port_read c 0x08 = uint mw" "rtc_port_read c 0x09 = y mod 100" "rtc_port_read c 0x32 = y div 100"
proof -
  have v: "uint mw \<le> 12" "uint dw \<le> 31"
    using assms(5) by (auto simp: valid_date_def days_in_month_def split: if_splits)
  have c: "y sdiv 100 = y div 100" using assms(3) by (simp add: sdiv_nonneg)
  have y: "0 \<le> y div 100" "y div 100 < 100" using assms(3,4) by (simp_all add: pos_imp_zdiv_nonneg_iff div_less_iff_less_mult)
  note r = rtc_port_read_eq rtc_read_register_def Let_def rtc_seconds_def e_def [symmetric] assms(2)
  show "rtc_port_read c 0x00 = uint e mod 60" "rtc_port_read c 0x02 = uint e div 60 mod 60"
    "rtc_port_read c 0x04 = uint e div 3600 mod 24"
    by (simp_all add: r unbcd_bcd_word uint_mod uint_div)
  show "rtc_port_read c 0x07 = uint dw" "rtc_port_read c 0x08 = uint mw"
    using v by (simp_all add: r unbcd_bcd_word uint_ucast_up32)
  show "rtc_port_read c 0x09 = y mod 100" "rtc_port_read c 0x32 = y div 100"
    using y by (simp_all add: r unbcd_bcd c)
qed


section \<open>Properties\<close>


text \<open>
  C32: a guest that reads the century, year, month, day, hour, minute and second registers through
  ports 0x70 and 0x71 and decodes their BCD values recovers the configured time exactly, for
  every time up to the end of the year 9999.
\<close>
theorem cmos_rtc_round_trip:
  assumes "boot_epoch_seconds c < 253402300800"
  shows "rtc_decode c = uint (boot_epoch_seconds c)"
proof -
  let ?e = "boot_epoch_seconds c"
  obtain y mw dw where civ: "civil_from_days (uint (?e div 86400)) = (y, mw, dw)"
    by (cases "civil_from_days (uint (?e div 86400))")
  note cc = civil_from_days_correct [OF civ]
  have e: "uint ?e < 253402300800" using assms by (simp add: word_less_def)
  then have dd: "uint (?e div 86400) = uint ?e div 86400" "uint ?e div 86400 < 2932897"
    by (simp_all add: uint_div div_less_iff_less_mult)
  have "0 \<le> days_from_civil y (uint mw) (uint dw)" "days_from_civil y (uint mw) (uint dw) < 2932897"
    unfolding cc(2) by (rule uint_ge_0) (simp only: dd)
  note yr = year_range [OF cc(1) this]
  have day: "days_from_civil (100 * (y div 100) + y mod 100) (uint mw) (uint dw) = uint ?e div 86400"
    using cc(2) dd by simp
  have gen: "x = c * 86400 + h * 3600 + m * 60 + s" if "x = a * 60 + s" "a = b * 60 + m" "b = c * 24 + h"
    for x a b c h m s :: int using that by simp
  have split: "x = x div 86400 * 86400 + x div 3600 mod 24 * 3600 + x div 60 mod 60 * 60 + x mod 60" for x :: int
  proof -
    have "x div 3600 = x div 60 div 60" "x div 86400 = x div 60 div 60 div 24"
      using zdiv_zmult2_eq [of 60 x 60] zdiv_zmult2_eq [of 24 x 3600] by simp_all
    moreover have "x = x div 60 div 60 div 24 * 86400 + x div 60 div 60 mod 24 * 3600
        + x div 60 mod 60 * 60 + x mod 60"
      by (rule gen) (rule div_mult_mod_eq [symmetric])+
    ultimately show ?thesis by (simp only:)
  qed
  show ?thesis
    unfolding rtc_decode_def rtc_registers [OF civ yr cc(1)] day by (rule split [symmetric])
qed

section \<open>Witnesses\<close>

text \<open>2026-01-02 03:04:05 UTC.\<close>

theorem cmos_rtc_round_trip_witness: "rtc_decode (cmos_new 1767323045) = 1767323045"
  using cmos_rtc_round_trip [of "cmos_new 1767323045"] by (simp add: cmos_new_def)

end
