(* ===== verification/Virtqueue.thy ===== *)
theory Virtqueue
  imports Rish_Prelude
begin

text \<open>
  The split virtqueue (\<open>virtio/queue.rs\<close>, with the error type of \<open>virtio/mod.rs\<close>): the
  \<open>GuestMemory\<close> trait as a record of its methods, ring validation, the descriptor-chain walk, the
  available and used rings and the drain loop. Functions that take \<open>&mut M\<close> return the memory
  beside their result, also when they fail: what a failed drain has already written stays
  written. The locale \<open>guest_memory\<close> is the contract of the trait; \<open>Guest_Memory\<close> interprets it on
  the adapter the machine hands to its devices.
\<close>

section \<open>Errors and the memory trait\<close>

datatype virtio_error =
    OutOfBounds u64 u64
  | BadQueue string
  | Backend string

record 'm guest_mem_ops =
  gm_ram_bytes :: "'m \<Rightarrow> u64"
  gm_read :: "'m \<Rightarrow> u64 \<Rightarrow> nat \<Rightarrow> virtio_error + bytes"
  gm_write :: "'m \<Rightarrow> u64 \<Rightarrow> bytes \<Rightarrow> (virtio_error + unit) \<times> 'm"

definition check_range :: "'m guest_mem_ops \<Rightarrow> 'm \<Rightarrow> u64 \<Rightarrow> u64 \<Rightarrow> virtio_error + unit" where
  "check_range ops m address count =
     (case checked_add address count of
        None \<Rightarrow> Inl (OutOfBounds address count)
      | Some end_ \<Rightarrow> if gm_ram_bytes ops m < end_ then Inl (OutOfBounds address count) else Inr ())"

section \<open>Layout and descriptors\<close>

definition MAX_CHAIN_DESCRIPTORS :: nat where "MAX_CHAIN_DESCRIPTORS = 64"

record queue_layout =
  q_size :: u16
  q_desc :: u64
  q_avail :: u64
  q_used :: u64

definition queue_layout_default :: queue_layout where
  "queue_layout_default = \<lparr>q_size = 0, q_desc = 0, q_avail = 0, q_used = 0\<rparr>"

definition ring_bytes :: "queue_layout \<Rightarrow> nat \<times> nat \<times> nat" where
  "ring_bytes q = (let sz = unat (q_size q) in (sz * 16, 6 + sz * 2, 6 + sz * 8))"

text \<open>The loop body of \<open>validate\<close>, then the loop over the three rings.\<close>

definition validate_ring :: "u64 \<Rightarrow> u64 \<Rightarrow> nat \<Rightarrow> virtio_error + unit" where
  "validate_ring ram_bytes base count =
     (case checked_add base (of_nat count) of
        None \<Rightarrow> Inl (BadQueue ''queue ring address arithmetic overflowed'')
      | Some end_ \<Rightarrow>
          if ram_bytes < end_ then Inl (OutOfBounds base (of_nat count)) else Inr ())"

definition validate :: "queue_layout \<Rightarrow> u64 \<Rightarrow> virtio_error + unit" where
  "validate q ram_bytes =
     (case ring_bytes q of (desc_bytes, avail_bytes, used_bytes) \<Rightarrow>
        bind_res (validate_ring ram_bytes (q_desc q) desc_bytes) (\<lambda>_.
        bind_res (validate_ring ram_bytes (q_avail q) avail_bytes) (\<lambda>_.
        validate_ring ram_bytes (q_used q) used_bytes)))"

record descriptor =
  d_address :: u64
  d_length :: u32
  d_flags :: u16

definition has_next :: "descriptor \<Rightarrow> bool" where
  "has_next d \<longleftrightarrow> d_flags d AND 1 \<noteq> 0"

definition device_writable :: "descriptor \<Rightarrow> bool" where
  "device_writable d \<longleftrightarrow> d_flags d AND 2 \<noteq> 0"

section \<open>Scalar accesses\<close>

definition q_read_u16 :: "'m guest_mem_ops \<Rightarrow> 'm \<Rightarrow> u64 \<Rightarrow> virtio_error + u16" where
  "q_read_u16 ops m a = bind_res (gm_read ops m a 2) (\<lambda>bs. Inr (from_le bs))"

definition q_read_u32 :: "'m guest_mem_ops \<Rightarrow> 'm \<Rightarrow> u64 \<Rightarrow> virtio_error + u32" where
  "q_read_u32 ops m a = bind_res (gm_read ops m a 4) (\<lambda>bs. Inr (from_le bs))"

definition q_read_u64 :: "'m guest_mem_ops \<Rightarrow> 'm \<Rightarrow> u64 \<Rightarrow> virtio_error + u64" where
  "q_read_u64 ops m a = bind_res (gm_read ops m a 8) (\<lambda>bs. Inr (from_le bs))"

definition q_write_u16 :: "'m guest_mem_ops \<Rightarrow> u64 \<Rightarrow> u16 \<Rightarrow> 'm \<Rightarrow> (virtio_error + unit) \<times> 'm" where
  "q_write_u16 ops a v m = gm_write ops m a (to_le 2 v)"

definition q_write_u32 :: "'m guest_mem_ops \<Rightarrow> u64 \<Rightarrow> u32 \<Rightarrow> 'm \<Rightarrow> (virtio_error + unit) \<times> 'm" where
  "q_write_u32 ops a v m = gm_write ops m a (to_le 4 v)"

section \<open>Rings\<close>

definition avail_index :: "'m guest_mem_ops \<Rightarrow> 'm \<Rightarrow> queue_layout \<Rightarrow> virtio_error + u16" where
  "avail_index ops m q = q_read_u16 ops m (q_avail q + 2)"

definition avail_head :: "'m guest_mem_ops \<Rightarrow> 'm \<Rightarrow> queue_layout \<Rightarrow> u16 \<Rightarrow> virtio_error + u16" where
  "avail_head ops m q slot =
     (if q_size q = 0 then Inl (BadQueue ''available ring has zero size'')
      else q_read_u16 ops m (q_avail q + 4 + ucast (slot mod q_size q) * 2))"

text \<open>
  \<open>read_chain\<close> fills a caller-provided buffer; the model takes the number of slots left and
  returns the entries filled.
\<close>

definition read_descriptor ::
  "'m guest_mem_ops \<Rightarrow> 'm \<Rightarrow> queue_layout \<Rightarrow> nat \<Rightarrow> virtio_error + descriptor \<times> u16" where
  "read_descriptor ops m q index =
     (let offset = q_desc q + of_nat index * 16
      in bind_res (q_read_u64 ops m offset) (\<lambda>address.
         bind_res (q_read_u32 ops m (offset + 8)) (\<lambda>len.
         bind_res (q_read_u16 ops m (offset + 12)) (\<lambda>flags.
         bind_res (q_read_u16 ops m (offset + 14)) (\<lambda>next.
         Inr (\<lparr>d_address = address, d_length = len, d_flags = flags\<rparr>, next))))))"

fun read_chain_from ::
  "'m guest_mem_ops \<Rightarrow> 'm \<Rightarrow> queue_layout \<Rightarrow> nat \<Rightarrow> nat \<Rightarrow> virtio_error + descriptor list" where
  "read_chain_from ops m q 0 index = Inl (BadQueue ''descriptor chain exceeds the device limit'')"
| "read_chain_from ops m q (Suc slots) index =
     (if unat (q_size q) \<le> index then Inl (BadQueue ''descriptor chain index left the ring'')
      else bind_res (read_descriptor ops m q index) (\<lambda>(entry, next).
             if has_next entry
             then bind_res (read_chain_from ops m q slots (unat next)) (\<lambda>rest. Inr (entry # rest))
             else Inr [entry]))"

definition read_chain ::
  "'m guest_mem_ops \<Rightarrow> 'm \<Rightarrow> queue_layout \<Rightarrow> u16 \<Rightarrow> nat \<Rightarrow> virtio_error + descriptor list" where
  "read_chain ops m q head slots =
     (if q_size q = 0 then Inl (BadQueue ''descriptor ring has zero size'')
      else if slots = 0 then Inl (BadQueue ''chain buffer is empty'')
      else read_chain_from ops m q slots (unat head))"

definition avail_delta :: "u16 \<Rightarrow> u16 \<Rightarrow> u16 \<Rightarrow> virtio_error + unit" where
  "avail_delta last_seen avail sz =
     (let pending = avail - last_seen
      in if (ucast sz :: u32) < ucast pending
         then Inl (BadQueue ''available ring grew by more than the queue size'') else Inr ())"

fun check_chain_ranges :: "'m guest_mem_ops \<Rightarrow> 'm \<Rightarrow> descriptor list \<Rightarrow> virtio_error + unit" where
  "check_chain_ranges ops m [] = Inr ()"
| "check_chain_ranges ops m (d # ds) =
     bind_res (check_range ops m (d_address d) (ucast (d_length d))) (\<lambda>_. check_chain_ranges ops m ds)"

definition total_bytes :: "descriptor list \<Rightarrow> nat" where
  "total_bytes ds = sum_list (map (\<lambda>d. unat (d_length d)) ds)"

definition require_all_device_readable :: "descriptor list \<Rightarrow> virtio_error + unit" where
  "require_all_device_readable ds =
     (if \<exists>d \<in> set ds. device_writable d
      then Inl (BadQueue ''descriptor is device-writable where the device reads'') else Inr ())"

definition require_all_device_writable :: "descriptor list \<Rightarrow> virtio_error + unit" where
  "require_all_device_writable ds =
     (if \<exists>d \<in> set ds. \<not> device_writable d
      then Inl (BadQueue ''descriptor is not device-writable where the device writes'') else Inr ())"

definition validated_chain ::
  "'m guest_mem_ops \<Rightarrow> 'm \<Rightarrow> queue_layout \<Rightarrow> u16 \<Rightarrow> nat \<Rightarrow> virtio_error + descriptor list" where
  "validated_chain ops m q head slots =
     bind_res (read_chain ops m q head slots) (\<lambda>ds.
     bind_res (check_chain_ranges ops m ds) (\<lambda>_. Inr ds))"

definition used_index :: "'m guest_mem_ops \<Rightarrow> 'm \<Rightarrow> queue_layout \<Rightarrow> virtio_error + u16" where
  "used_index ops m q = q_read_u16 ops m (q_used q + 2)"

definition write_used ::
  "'m guest_mem_ops \<Rightarrow> queue_layout \<Rightarrow> u16 \<Rightarrow> u32 \<Rightarrow> u32 \<Rightarrow> 'm \<Rightarrow> (virtio_error + u16) \<times> 'm" where
  "write_used ops q index ident len m =
     (if q_size q = 0 then (Inl (BadQueue ''used ring has zero size''), m)
      else let slot = unat index mod unat (q_size q);
               offset = q_used q + 4 + of_nat slot * 8
           in case q_write_u32 ops offset ident m of (Inl e, m) \<Rightarrow> (Inl e, m) | (Inr _, m) \<Rightarrow>
              case q_write_u32 ops (offset + 4) len m of (Inl e, m) \<Rightarrow> (Inl e, m) | (Inr _, m) \<Rightarrow>
              let next = index + 1
              in case q_write_u16 ops (q_used q + 2) next m of (Inl e, m) \<Rightarrow> (Inl e, m)
                 | (Inr _, m) \<Rightarrow> (Inr next, m))"

lemma unat_minus_suc: "last_seen \<noteq> avail \<Longrightarrow> unat (avail - (last_seen + 1)) < unat (avail - last_seen)"
  for avail last_seen :: "'a::len word"
proof -
  assume "last_seen \<noteq> avail"
  then have "avail - last_seen \<noteq> 0" by simp
  moreover have "avail - (last_seen + 1) = (avail - last_seen) - 1" by simp
  ultimately show ?thesis by (metis measure_unat)
qed

text \<open>
  The drain. The closure the devices pass captures the device, so \<open>process\<close> works on the memory
  and a device state \<open>'s\<close>. The counter difference modulo \<open>2 ^ 16\<close> decreases in each round.
\<close>

function drain_loop ::
  "'m guest_mem_ops \<Rightarrow> queue_layout \<Rightarrow> (u16 \<Rightarrow> 'm \<times> 's \<Rightarrow> (virtio_error + u32) \<times> 'm \<times> 's) \<Rightarrow> u16
    \<Rightarrow> u16 \<Rightarrow> u32 \<Rightarrow> 'm \<times> 's \<Rightarrow> (virtio_error + u32) \<times> u16 \<times> 'm \<times> 's" where
  "drain_loop ops q process avail last_seen completed st =
     (if last_seen = avail then (Inr completed, last_seen, st)
      else case avail_head ops (fst st) q last_seen of Inl e \<Rightarrow> (Inl e, last_seen, st) | Inr head \<Rightarrow>
           case process head st of (Inl e, st) \<Rightarrow> (Inl e, last_seen, st) | (Inr len, st) \<Rightarrow>
           case used_index ops (fst st) q of Inl e \<Rightarrow> (Inl e, last_seen, st) | Inr index \<Rightarrow>
           case write_used ops q index (ucast head) len (fst st) of
             (Inl e, m) \<Rightarrow> (Inl e, last_seen, m, snd st)
           | (Inr _, m) \<Rightarrow>
               drain_loop ops q process avail (last_seen + 1) (completed + 1) (m, snd st))"
  by pat_completeness auto

termination
  by (relation "measure (\<lambda>(_, _, _, avail, last_seen, _, _). unat (avail - last_seen))")
    (auto simp: unat_minus_suc)

declare drain_loop.simps [simp del]

definition drain_available ::
  "'m guest_mem_ops \<Rightarrow> queue_layout \<Rightarrow> (u16 \<Rightarrow> 'm \<times> 's \<Rightarrow> (virtio_error + u32) \<times> 'm \<times> 's) \<Rightarrow> u16
    \<Rightarrow> 'm \<times> 's \<Rightarrow> (virtio_error + u32) \<times> u16 \<times> 'm \<times> 's" where
  "drain_available ops q process last_seen st =
     (case validate q (gm_ram_bytes ops (fst st)) of Inl e \<Rightarrow> (Inl e, last_seen, st) | Inr _ \<Rightarrow>
      case avail_index ops (fst st) q of Inl e \<Rightarrow> (Inl e, last_seen, st) | Inr avail \<Rightarrow>
      case avail_delta last_seen avail (q_size q) of Inl e \<Rightarrow> (Inl e, last_seen, st) | Inr _ \<Rightarrow>
      drain_loop ops q process avail last_seen 0 st)"

section \<open>What the rings hold, read off the bytes of RAM\<close>

definition rings_fit :: "queue_layout \<Rightarrow> nat \<Rightarrow> bool" where
  "rings_fit q n \<longleftrightarrow>
     unat (q_desc q) + 16 * unat (q_size q) \<le> n
   \<and> unat (q_avail q) + 6 + 2 * unat (q_size q) \<le> n
   \<and> unat (q_used q) + 6 + 8 * unat (q_size q) \<le> n"

definition avail_idx_of :: "queue_layout \<Rightarrow> bytes \<Rightarrow> u16" where
  "avail_idx_of q r = from_le (slice (unat (q_avail q) + 2) 2 r)"

definition avail_head_of :: "queue_layout \<Rightarrow> bytes \<Rightarrow> u16 \<Rightarrow> u16" where
  "avail_head_of q r slot =
     from_le (slice (unat (q_avail q) + 4 + 2 * (unat slot mod unat (q_size q))) 2 r)"

definition used_idx_of :: "queue_layout \<Rightarrow> bytes \<Rightarrow> u16" where
  "used_idx_of q r = from_le (slice (unat (q_used q) + 2) 2 r)"

definition desc_of :: "queue_layout \<Rightarrow> bytes \<Rightarrow> nat \<Rightarrow> descriptor \<times> u16" where
  "desc_of q r i = (let o' = unat (q_desc q) + 16 * i in
     (\<lparr>d_address = from_le (slice o' 8 r), d_length = from_le (slice (o' + 8) 4 r),
       d_flags = from_le (slice (o' + 12) 2 r)\<rparr>, from_le (slice (o' + 14) 2 r)))"

definition publish_used :: "queue_layout \<Rightarrow> u16 \<Rightarrow> u32 \<Rightarrow> u32 \<Rightarrow> bytes \<Rightarrow> bytes" where
  "publish_used q index ident len r =
     (let o' = unat (q_used q) + 4 + 8 * (unat index mod unat (q_size q)) in
      splice (unat (q_used q) + 2) (to_le 2 (index + 1)) (splice o' (to_le 4 ident @ to_le 4 len) r))"

lemma validate_ring_iff:
  assumes "count < 2 ^ 64"
  shows "validate_ring rb base count = Inr () \<longleftrightarrow> unat base + count \<le> unat rb"
proof -
  have c: "unat (of_nat count :: u64) = count" using assms by (simp add: unat_of_nat_small)
  show ?thesis
  proof (cases "unat base + count < 2 ^ 64")
    case True
    then have "unat (base + of_nat count) = unat base + count"
      using unat_add_no_wrap [of base "of_nat count"] c by simp
    then show ?thesis
      using True by (simp add: validate_ring_def checked_add_def c word_less_nat_alt)
  next
    case False
    then show ?thesis
      using unat_bound [of rb] by (simp add: validate_ring_def checked_add_def c)
  qed
qed

lemma validate_iff: "validate q rb = Inr () \<longleftrightarrow> rings_fit q (unat rb)"
proof -
  have "unat (q_size q) < 65536" using unat_bound [of "q_size q"] by simp
  then show ?thesis
    by (simp add: validate_def ring_bytes_def Let_def bind_res_eq_Inr validate_ring_iff rings_fit_def
        ac_simps)
qed

lemma avail_delta_iff: "avail_delta seen avail sz = Inr () \<longleftrightarrow> unat (avail - seen) \<le> unat sz"
  by (auto simp: avail_delta_def Let_def word_less_nat_alt unat_ucast_up)

lemma unat_add_of_nat:
  fixes a :: u64
  assumes "unat a + n < 2 ^ 64"
  shows "unat (a + of_nat n) = unat a + n"
  using assms unat_add_no_wrap [of a "of_nat n"] by (simp add: unat_of_nat_small)

lemma length_publish_used [simp]:
  assumes "rings_fit q (length r)" "q_size q \<noteq> 0"
  shows "length (publish_used q index ident len r) = length r"
proof -
  have "unat index mod unat (q_size q) < unat (q_size q)" using assms(2) by (simp add: unat_gt_0)
  with assms(1) show ?thesis by (simp add: publish_used_def Let_def rings_fit_def)
qed

lemma used_idx_publish_used [simp]:
  assumes "rings_fit q (length r)" "q_size q \<noteq> 0"
  shows "used_idx_of q (publish_used q index ident len r) = index + 1"
proof -
  have k: "unat index mod unat (q_size q) < unat (q_size q)" using assms(2) by (simp add: unat_gt_0)
  define r' where "r' = splice (unat (q_used q) + 4 + 8 * (unat index mod unat (q_size q)))
    (to_le 4 ident @ to_le 4 len) r"
  have "length r' = length r" unfolding r'_def using k assms(1) by (simp add: rings_fit_def)
  then have "slice (unat (q_used q) + 2) 2 (splice (unat (q_used q) + 2) (to_le 2 (index + 1)) r')
      = to_le 2 (index + 1)"
    using assms(1) slice_splice_same [of "unat (q_used q) + 2" "to_le 2 (index + 1)" r']
    by (simp add: rings_fit_def)
  then show ?thesis by (simp add: used_idx_of_def publish_used_def Let_def r'_def)
qed

section \<open>Descriptor chains\<close>

text \<open>
  \<open>chain_path q r is ds\<close>: following the \<open>next\<close> fields of the table in \<open>r\<close> visits the ring indices
  \<open>is\<close>, reads the descriptors \<open>ds\<close> and stops at the first one without the \<open>NEXT\<close> flag.
\<close>

inductive chain_path :: "queue_layout \<Rightarrow> bytes \<Rightarrow> nat list \<Rightarrow> descriptor list \<Rightarrow> bool" for q r where
  stop: "i < unat (q_size q) \<Longrightarrow> \<not> has_next (fst (desc_of q r i)) \<Longrightarrow>
           chain_path q r [i] [fst (desc_of q r i)]"
| link: "i < unat (q_size q) \<Longrightarrow> has_next (fst (desc_of q r i)) \<Longrightarrow> is \<noteq> [] \<Longrightarrow>
           hd is = unat (snd (desc_of q r i)) \<Longrightarrow> chain_path q r is ds \<Longrightarrow>
           chain_path q r (i # is) (fst (desc_of q r i) # ds)"

inductive_cases chain_path_ConsE: "chain_path q r (i # is) ds"
inductive_cases chain_path_DsE: "chain_path q r is (d # ds)"

lemma chain_path_length: "chain_path q r is ds \<Longrightarrow> length is = length ds \<and> is \<noteq> []"
  by (induction rule: chain_path.induct) auto

lemma chain_path_hd: "chain_path q r is ds \<Longrightarrow> hd is < unat (q_size q)"
  by (induction rule: chain_path.induct) auto

lemma chain_path_last: "chain_path q r is ds \<Longrightarrow> ds \<noteq> [] \<and> \<not> has_next (last ds) \<and> (\<forall>d \<in> set (butlast ds). has_next d)"
  by (induction rule: chain_path.induct) auto

lemma chain_path_det:
  "chain_path q r is ds \<Longrightarrow> chain_path q r is' ds' \<Longrightarrow> hd is = hd is' \<Longrightarrow> is = is'"
proof (induction arbitrary: is' ds' rule: chain_path.induct)
  case (stop i)
  from stop.prems(1) show ?case by cases (use stop.prems(2) stop.hyps(2) in simp_all)
next
  case (link i "is" ds)
  from link.prems(1) show ?case
  proof cases
    case (stop j)
    then show ?thesis using link.prems(2) link.hyps(2) by simp
  next
    case other: (link j js es)
    have "i = j" using other(1) link.prems(2) by simp
    then have "is = js" using link.IH [OF other(7)] link.hyps(4) other(6) by simp
    then show ?thesis using other(1) \<open>i = j\<close> by simp
  qed
qed

lemma chain_path_drop:
  "chain_path q r is ds \<Longrightarrow> k < length is \<Longrightarrow> \<exists>ds'. chain_path q r (drop k is) ds'"
proof (induction arbitrary: k rule: chain_path.induct)
  case (stop i)
  then show ?case using chain_path.stop by auto
next
  case (link i "is" ds)
  show ?case
  proof (cases k)
    case 0
    then show ?thesis using chain_path.link [OF link.hyps(1-5)] by auto
  next
    case (Suc k')
    then show ?thesis using link.IH [of k'] link.prems by simp
  qed
qed

text \<open>A path that ends never visits an index twice: the table is a function.\<close>

lemma chain_path_distinct: "chain_path q r is ds \<Longrightarrow> distinct is"
proof (induction rule: chain_path.induct)
  case (link i "is" ds)
  have "i \<notin> set is"
  proof
    assume "i \<in> set is"
    then obtain k where k: "k < length is" "is ! k = i" by (auto simp: in_set_conv_nth)
    then obtain ds' where "chain_path q r (drop k is) ds'"
      using chain_path_drop [OF link.hyps(5)] by blast
    moreover have "hd (drop k is) = hd (i # is)" using k by (simp add: hd_drop_conv_nth)
    ultimately have "drop k is = i # is"
      using chain_path_det chain_path.link [OF link.hyps(1-5)] by blast
    then have "length (drop k is) = Suc (length is)" by simp
    then show False by simp
  qed
  with link.IH show ?case by simp
qed simp

lemma ucast_pred_succ:
  fixes d a :: u16
  assumes "a \<noteq> d"
  shows "(ucast (d - a) :: u32) = 1 + ucast (d - (a + 1))"
proof -
  have "unat (d - a) = Suc (unat ((d - a) - 1))"
    using assms by (metis Suc_pred' measure_unat right_minus_eq unat_gt_0 unat_minus_one)
  moreover have "unat ((d - a) - 1) < 65536" using unat_bound [of "(d - a) - 1"] by simp
  ultimately have "unat (ucast (d - a) :: u32) = unat (1 + ucast (d - a - 1) :: u32)"
    by (simp add: unat_ucast_up unat_word_ariths)
  then show ?thesis by (simp add: word_unat_eq_iff [of "ucast (d - a)"] diff_diff_eq)
qed

section \<open>The contract of the memory trait\<close>

text \<open>
  \<open>ram\<close> is the byte array a device sees. A read or write inside it succeeds and is exactly a slice
  or a splice; one that leaves it is \<open>OutOfBounds\<close> and changes nothing.
\<close>

locale guest_memory =
  fixes ops :: "'m guest_mem_ops" and ram :: "'m \<Rightarrow> bytes" and inv :: "'m \<Rightarrow> bool"
  assumes ram_size: "inv m \<Longrightarrow> unat (gm_ram_bytes ops m) = length (ram m)"
    and read_in: "inv m \<Longrightarrow> unat a + n \<le> length (ram m) \<Longrightarrow>
          gm_read ops m a n = Inr (slice (unat a) n (ram m))"
    and read_out: "inv m \<Longrightarrow> length (ram m) < unat a + n \<Longrightarrow> n < 2 ^ 64 \<Longrightarrow>
          gm_read ops m a n = Inl (OutOfBounds a (of_nat n))"
    and write_in: "inv m \<Longrightarrow> unat a + length bs \<le> length (ram m) \<Longrightarrow>
          \<exists>m'. gm_write ops m a bs = (Inr (), m') \<and> inv m' \<and> ram m' = splice (unat a) bs (ram m)"
    and write_out: "inv m \<Longrightarrow> length (ram m) < unat a + length bs \<Longrightarrow> length bs < 2 ^ 64 \<Longrightarrow>
          gm_write ops m a bs = (Inl (OutOfBounds a (of_nat (length bs))), m)"
begin

lemma ram_lt: "inv m \<Longrightarrow> length (ram m) < 2 ^ 64"
  using unat_bound [of "gm_ram_bytes ops m"] by (simp add: ram_size)

lemma check_range_iff:
  "inv m \<Longrightarrow> check_range ops m a n = Inr () \<longleftrightarrow> unat a + unat n \<le> length (ram m)"
  using ram_lt [of m] unat_add_no_wrap [of a n]
  by (auto simp: check_range_def checked_add_def word_less_nat_alt ram_size)

lemma check_chain_ranges_iff:
  "inv m \<Longrightarrow> check_chain_ranges ops m ds = Inr () \<longleftrightarrow>
     (\<forall>d \<in> set ds. unat (d_address d) + unat (d_length d) \<le> length (ram m))"
  by (induction ds) (auto simp: bind_res_eq_Inr check_range_iff unat_ucast_up)

lemma scalar_reads:
  assumes "inv m" "unat a + k + n \<le> length (ram m)"
  shows "gm_read ops m (a + of_nat k) n = Inr (slice (unat a + k) n (ram m))"
  using assms ram_lt [OF assms(1)] unat_add_of_nat [of a k] read_in [of m "a + of_nat k" n] by simp

lemma avail_index_ok:
  assumes "inv m" "rings_fit q (length (ram m))"
  shows "avail_index ops m q = Inr (avail_idx_of q (ram m))"
  using assms scalar_reads [of m "q_avail q" 2 2]
  by (simp add: avail_index_def q_read_u16_def rings_fit_def avail_idx_of_def)

lemma used_index_ok:
  assumes "inv m" "rings_fit q (length (ram m))"
  shows "used_index ops m q = Inr (used_idx_of q (ram m))"
  using assms scalar_reads [of m "q_used q" 2 2]
  by (simp add: used_index_def q_read_u16_def rings_fit_def used_idx_of_def)

lemma avail_head_ok:
  assumes "inv m" "rings_fit q (length (ram m))" "q_size q \<noteq> 0"
  shows "avail_head ops m q slot = Inr (avail_head_of q (ram m) slot)"
proof -
  let ?k = "unat slot mod unat (q_size q)"
  have k: "?k < unat (q_size q)" using assms(3) by (simp add: unat_gt_0)
  have "(ucast (slot mod q_size q) :: u64) = of_nat ?k"
    by (rule word_of_nat_eqI) (simp add: unat_ucast_up unat_mod)
  then have "q_avail q + 4 + ucast (slot mod q_size q) * 2 = q_avail q + of_nat (4 + 2 * ?k)"
    by simp
  moreover have "unat (q_avail q) + (4 + 2 * ?k) + 2 \<le> length (ram m)"
    using assms(2) k by (simp add: rings_fit_def)
  ultimately show ?thesis
    using assms scalar_reads [of m "q_avail q" "4 + 2 * ?k" 2]
    by (simp add: avail_head_def q_read_u16_def avail_head_of_def add.assoc)
qed

lemma read_descriptor_ok:
  assumes "inv m" "rings_fit q (length (ram m))" "i < unat (q_size q)"
  shows "read_descriptor ops m q i = Inr (desc_of q (ram m) i)"
proof -
  have b: "unat (q_desc q) + (16 * i + 16) \<le> length (ram m)" using assms(2,3) by (simp add: rings_fit_def)
  have *: "gm_read ops m (q_desc q + of_nat i * 16 + of_nat k) n
      = Inr (slice (unat (q_desc q) + 16 * i + k) n (ram m))" if "k + n \<le> 16" for k n
    using scalar_reads [of m "q_desc q" "16 * i + k" n] assms(1) b that by (simp add: ac_simps)
  show ?thesis
    using * [of 0 8] * [of 8 4] * [of 12 2] * [of 14 2]
    by (simp add: read_descriptor_def Let_def q_read_u16_def q_read_u32_def q_read_u64_def desc_of_def)
qed

lemma write_used_ok:
  assumes "inv m" "rings_fit q (length (ram m))" "q_size q \<noteq> 0"
  shows "\<exists>m'. write_used ops q index ident len m = (Inr (index + 1), m') \<and> inv m'
    \<and> ram m' = publish_used q index ident len (ram m)"
proof -
  define k where "k = unat index mod unat (q_size q)"
  define R where "R = length (ram m)"
  have k: "k < unat (q_size q)" using assms(3) by (simp add: k_def unat_gt_0)
  have fit: "unat (q_used q) + (8 * k + 14) \<le> R" using assms(2) k by (simp add: rings_fit_def R_def)
  have R: "R < 2 ^ 64" using ram_lt [OF assms(1)] by (simp add: R_def)
  have "unat (q_used q + of_nat (4 + 8 * k)) = unat (q_used q) + (4 + 8 * k)"
    "unat (q_used q + of_nat (8 + 8 * k)) = unat (q_used q) + (8 + 8 * k)"
    "unat (q_used q + of_nat 2) = unat (q_used q) + 2"
    by (intro unat_add_of_nat; use fit R in linarith)+
  then have a: "unat (q_used q + 4 + of_nat k * 8) = unat (q_used q) + 4 + 8 * k"
    "unat (q_used q + 4 + of_nat k * 8 + 4) = unat (q_used q) + 4 + 8 * k + 4"
    "unat (q_used q + 2) = unat (q_used q) + 2"
    by (simp_all add: ac_simps)
  obtain m1 where m1: "gm_write ops m (q_used q + 4 + of_nat k * 8) (to_le 4 ident) = (Inr (), m1)"
    "inv m1" "ram m1 = splice (unat (q_used q) + 4 + 8 * k) (to_le 4 ident) (ram m)"
    using write_in [of m "q_used q + 4 + of_nat k * 8" "to_le 4 ident"] assms(1) fit a
    by (auto simp: R_def)
  have l1: "length (ram m1) = R" using m1(3) fit by (simp add: R_def)
  obtain m2 where m2: "gm_write ops m1 (q_used q + 4 + of_nat k * 8 + 4) (to_le 4 len) = (Inr (), m2)"
    "inv m2" "ram m2 = splice (unat (q_used q) + 4 + 8 * k + 4) (to_le 4 len) (ram m1)"
    using write_in [of m1 "q_used q + 4 + of_nat k * 8 + 4" "to_le 4 len"] m1(2) fit a l1 by auto
  have l2: "length (ram m2) = R" using m2(3) fit l1 by simp
  obtain m3 where m3: "gm_write ops m2 (q_used q + 2) (to_le 2 (index + 1)) = (Inr (), m3)"
    "inv m3" "ram m3 = splice (unat (q_used q) + 2) (to_le 2 (index + 1)) (ram m2)"
    using write_in [of m2 "q_used q + 2" "to_le 2 (index + 1)"] m2(2) fit a l2 by auto
  have "ram m2 = splice (unat (q_used q) + 4 + 8 * k) (to_le 4 ident @ to_le 4 len) (ram m)"
    using m1(3) m2(3) fit splice_append [of "unat (q_used q) + 4 + 8 * k" "to_le 4 ident" "to_le 4 len" "ram m"]
    by (simp add: R_def)
  then have "ram m3 = publish_used q index ident len (ram m)"
    using m3(3) by (simp add: publish_used_def Let_def k_def)
  then show ?thesis
    using assms(3) m1(1) m2(1) m3(1,2)
    by (simp add: write_used_def Let_def k_def [symmetric] q_write_u16_def q_write_u32_def)
qed

lemma read_chain_from_Suc:
  assumes "inv m" "rings_fit q (length (ram m))" "i < unat (q_size q)"
  shows "read_chain_from ops m q (Suc slots) i =
    (let (d, n) = desc_of q (ram m) i in
     if has_next d then bind_res (read_chain_from ops m q slots (unat n)) (\<lambda>rest. Inr (d # rest))
     else Inr [d])"
  using assms(3) by (simp add: read_descriptor_ok [OF assms] Let_def)

lemma read_chain_from_sound:
  assumes "inv m" "rings_fit q (length (ram m))"
  shows "read_chain_from ops m q slots i = Inr ds \<Longrightarrow>
    \<exists>is. chain_path q (ram m) is ds \<and> hd is = i \<and> length is \<le> slots"
proof (induction slots arbitrary: i ds)
  case (Suc slots)
  have i: "i < unat (q_size q)" using Suc.prems by (simp split: if_splits)
  obtain d n where dn: "desc_of q (ram m) i = (d, n)" by (cases "desc_of q (ram m) i")
  show ?case
  proof (cases "has_next d")
    case False
    then have "ds = [d]" using Suc.prems by (simp only: read_chain_from_Suc [OF assms i] dn) simp
    then show ?thesis
      using chain_path.stop [of i q "ram m"] i False dn by (intro exI [of _ "[i]"]) simp
  next
    case True
    then obtain rest where rest: "read_chain_from ops m q slots (unat n) = Inr rest" "ds = d # rest"
      using Suc.prems by (simp only: read_chain_from_Suc [OF assms i] dn) (auto simp: bind_res_eq_Inr)
    from Suc.IH [OF rest(1)] obtain js where js: "chain_path q (ram m) js rest" "hd js = unat n"
      "length js \<le> slots" by blast
    have "chain_path q (ram m) (i # js) (d # rest)"
      using chain_path.link [of i q "ram m" js rest] i True dn js chain_path_length [OF js(1)] by simp
    then show ?thesis using rest(2) js(3) by (intro exI [of _ "i # js"]) simp
  qed
qed simp

lemma read_chain_from_complete:
  assumes "inv m" "rings_fit q (length (ram m))"
  shows "chain_path q (ram m) is ds \<Longrightarrow> length is \<le> slots \<Longrightarrow>
    read_chain_from ops m q slots (hd is) = Inr ds"
proof (induction arbitrary: slots rule: chain_path.induct)
  case (stop i)
  then obtain s' where "slots = Suc s'" by (cases slots) auto
  then show ?case
    using stop.hyps by (simp only: list.sel read_chain_from_Suc [OF assms stop.hyps(1)])
      (simp add: case_prod_beta)
next
  case (link i js ds)
  then obtain s' where s': "slots = Suc s'" "length js \<le> s'" by (cases slots) auto
  have "read_chain_from ops m q s' (unat (snd (desc_of q (ram m) i))) = Inr ds"
    using link.IH [OF s'(2)] link.hyps(4) by (simp only:)
  then show ?case
    using link.hyps(2) by (simp only: s'(1) list.sel read_chain_from_Suc [OF assms link.hyps(1)])
      (simp add: case_prod_beta)
qed

lemma read_chain_from_path:
  assumes "inv m" "rings_fit q (length (ram m))"
  shows "read_chain_from ops m q slots i = Inr ds \<longleftrightarrow>
    (\<exists>is. chain_path q (ram m) is ds \<and> hd is = i \<and> length is \<le> slots)"
  using read_chain_from_sound [OF assms] read_chain_from_complete [OF assms] by blast

lemma read_chain_from_errors:
  assumes "inv m" "rings_fit q (length (ram m))" "read_chain_from ops m q slots i = Inl e"
  shows "e \<in> {BadQueue ''descriptor chain exceeds the device limit'',
    BadQueue ''descriptor chain index left the ring''}"
  using assms(3)
proof (induction slots arbitrary: i)
  case (Suc slots)
  show ?case
  proof (cases "unat (q_size q) \<le> i")
    case True
    with Suc.prems show ?thesis by simp
  next
    case False
    obtain d n where "desc_of q (ram m) i = (d, n)" by (cases "desc_of q (ram m) i")
    with False assms(1,2) have "read_descriptor ops m q i = Inr (d, n)"
      by (simp only: read_descriptor_ok not_le)
    with False Suc show ?thesis by (auto simp: bind_res_eq_Inl split: if_splits)
  qed
qed simp

end

section \<open>Draining the available ring\<close>

context guest_memory
begin

text \<open>
  A processing closure keeps the memory well formed, the RAM at its length \<open>L\<close> and its own state
  inside \<open>J\<close>; every device of the machine does.
\<close>

lemma drain_loop_keeps:
  assumes keep: "\<And>head m s r m' s'. inv m \<Longrightarrow> length (ram m) = L \<Longrightarrow> J s \<Longrightarrow>
      process head (m, s) = (r, m', s') \<Longrightarrow> inv m' \<and> length (ram m') = L \<and> J s'"
    and fit: "rings_fit q L" and nz: "q_size q \<noteq> 0 \<or> avail = last_seen"
    and st: "inv m" "length (ram m) = L" "J s"
    and run: "drain_loop ops q process avail last_seen completed (m, s) = (r, last', m', s')"
  shows "inv m' \<and> length (ram m') = L \<and> J s'
    \<and> (case r of Inl e \<Rightarrow> \<exists>head m s st'. inv m \<and> length (ram m) = L \<and> J s \<and> process head (m, s) = (Inl e, st')
       | Inr n \<Rightarrow> last' = avail \<and> n = completed + ucast (avail - last_seen))"
  using nz st run
proof (induction "unat (avail - last_seen)" arbitrary: last_seen completed m s rule: less_induct)
  case less
  show ?case
  proof (cases "last_seen = avail")
    case True
    with less.prems show ?thesis by (auto simp: drain_loop.simps)
  next
    case False
    with less.prems(1) have nz: "q_size q \<noteq> 0" by simp
    have head: "avail_head ops m q last_seen = Inr (avail_head_of q (ram m) last_seen)"
      using avail_head_ok less.prems fit nz by simp
    obtain r1 m1 s1 where p: "process (avail_head_of q (ram m) last_seen) (m, s) = (r1, m1, s1)"
      by (metis prod_cases3)
    have k1: "inv m1" "length (ram m1) = L" "J s1" using keep [OF less.prems(2-4) p] by auto
    show ?thesis
    proof (cases r1)
      case (Inl e)
      with False head p less.prems(5) have "r = Inl e" "m' = m1" "s' = s1"
        by (simp_all add: drain_loop.simps [of ops q process avail last_seen])
      with k1 p Inl less.prems(2-4) show ?thesis by (simp only: sum.case) blast
    next
      case (Inr len)
      obtain m2 where m2: "write_used ops q (used_idx_of q (ram m1))
          (ucast (avail_head_of q (ram m) last_seen)) len m1 = (Inr (used_idx_of q (ram m1) + 1), m2)"
        "inv m2" "length (ram m2) = L"
        using write_used_ok [of m1 q] k1 fit nz by fastforce
      have ui: "used_index ops m1 q = Inr (used_idx_of q (ram m1))"
        using used_index_ok k1 fit by simp
      have step: "drain_loop ops q process avail (last_seen + 1) (completed + 1) (m2, s1) = (r, last', m', s')"
        using less.prems(5) False head p Inr ui m2(1)
        by (simp add: drain_loop.simps [of ops q process avail last_seen])
      have cnt: "ucast (avail - last_seen) = (1 :: u32) + ucast (avail - (last_seen + 1))"
        using False by (simp add: ucast_pred_succ)
      from less.hyps [OF unat_minus_suc [OF False], of m2 s1 "completed + 1"] nz m2 k1 step
      show ?thesis by (auto simp: cnt split: sum.splits)
    qed
  qed
qed

text \<open>
  When every request completes without touching the used index, the used ring advances by exactly
  the number of published heads.
\<close>

lemma drain_loop_publishes:
  assumes keep: "\<And>head m s. inv m \<Longrightarrow> length (ram m) = L \<Longrightarrow> J s \<Longrightarrow>
      \<exists>len m' s'. process head (m, s) = (Inr len, m', s') \<and> inv m' \<and> length (ram m') = L \<and> J s'
        \<and> used_idx_of q (ram m') = used_idx_of q (ram m)"
    and fit: "rings_fit q L" and nz: "q_size q \<noteq> 0 \<or> avail = last_seen"
    and st: "inv m" "length (ram m) = L" "J s"
  shows "\<exists>m' s'. drain_loop ops q process avail last_seen completed (m, s)
      = (Inr (completed + ucast (avail - last_seen)), avail, m', s')
    \<and> used_idx_of q (ram m') = used_idx_of q (ram m) + (avail - last_seen)"
  using nz st
proof (induction "unat (avail - last_seen)" arbitrary: last_seen completed m s rule: less_induct)
  case less
  show ?case
  proof (cases "last_seen = avail")
    case True
    then show ?thesis by (simp add: drain_loop.simps)
  next
    case False
    with less.prems(1) have nz: "q_size q \<noteq> 0" by simp
    have head: "avail_head ops m q last_seen = Inr (avail_head_of q (ram m) last_seen)"
      using avail_head_ok less.prems fit nz by simp
    obtain len m1 s1 where p: "process (avail_head_of q (ram m) last_seen) (m, s) = (Inr len, m1, s1)"
      and k1: "inv m1" "length (ram m1) = L" "J s1" "used_idx_of q (ram m1) = used_idx_of q (ram m)"
      using keep [OF less.prems(2-4)] by blast
    obtain m2 where m2: "write_used ops q (used_idx_of q (ram m1))
          (ucast (avail_head_of q (ram m) last_seen)) len m1 = (Inr (used_idx_of q (ram m1) + 1), m2)"
        "inv m2" "length (ram m2) = L" "used_idx_of q (ram m2) = used_idx_of q (ram m) + 1"
      using write_used_ok [of m1 q] k1 fit nz by fastforce
    have ui: "used_index ops m1 q = Inr (used_idx_of q (ram m1))"
      using used_index_ok k1 fit by simp
    have step: "drain_loop ops q process avail last_seen completed (m, s)
        = drain_loop ops q process avail (last_seen + 1) (completed + 1) (m2, s1)"
      using False head p ui m2(1) by (simp add: drain_loop.simps [of ops q process avail last_seen])
    have cnt: "ucast (avail - last_seen) = (1 :: u32) + ucast (avail - (last_seen + 1))"
      using False by (simp add: ucast_pred_succ)
    from less.hyps [OF unat_minus_suc [OF False], of m2 s1 "completed + 1"] nz m2 k1
    show ?thesis by (simp add: cnt step add.assoc)
  qed
qed

lemma drain_available_start:
  assumes "inv m" "rings_fit q (length (ram m))"
  shows "drain_available ops q process last_seen (m, s) =
    (if unat (avail_idx_of q (ram m) - last_seen) \<le> unat (q_size q)
     then drain_loop ops q process (avail_idx_of q (ram m)) last_seen 0 (m, s)
     else (Inl (BadQueue ''available ring grew by more than the queue size''), last_seen, m, s))"
  using assms validate_iff [of q "gm_ram_bytes ops m"] avail_index_ok [OF assms]
  by (simp add: drain_available_def ram_size [OF assms(1)] avail_delta_def word_less_nat_alt
      unat_ucast_up Let_def not_le)

lemma drain_available_rejects:
  assumes "inv m" "\<not> rings_fit q (length (ram m))"
  shows "\<exists>e. drain_available ops q process last_seen (m, s) = (Inl e, last_seen, m, s)"
  using assms validate_iff [of q "gm_ram_bytes ops m"]
  by (cases "validate q (gm_ram_bytes ops m)") (simp_all add: drain_available_def ram_size)

text \<open>Phase one of the two-phase contract: what a validated chain is.\<close>

lemma validated_chain_iff:
  assumes "inv m" "rings_fit q (length (ram m))"
  shows "validated_chain ops m q head slots = Inr ds \<longleftrightarrow>
    (\<exists>is. chain_path q (ram m) is ds \<and> hd is = unat head \<and> length is \<le> slots)
    \<and> (\<forall>d \<in> set ds. unat (d_address d) + unat (d_length d) \<le> length (ram m))"
proof -
  have "read_chain ops m q head slots = Inr ds \<longleftrightarrow>
      (\<exists>is. chain_path q (ram m) is ds \<and> hd is = unat head \<and> length is \<le> slots)"
    using read_chain_from_path [OF assms, of slots "unat head" ds]
    by (auto simp: read_chain_def dest: chain_path_hd chain_path_length)
  then show ?thesis
    by (auto simp: validated_chain_def bind_res_eq_Inr check_chain_ranges_iff assms(1))
qed

end

end
