(* ===== verification/Device_Memory.thy ===== *)
theory Device_Memory
  imports Virtqueue
begin

text \<open>
  The adapter through which the machine lends its RAM to a virtio device (\<open>DeviceMemory\<close> and
  \<open>bump_page_counters\<close> in \<open>memory.rs\<close>). It is the instance of the \<open>GuestMemory\<close> trait the emulator
  runs with, so the contract \<open>guest_memory\<close> is interpreted on it. Every write also advances the
  write counter of each page it touches, which is how cached decodes are invalidated.
\<close>

definition PAGE_SIZE :: nat where "PAGE_SIZE = 4096"

definition bump_page :: "nat \<Rightarrow> u32 list \<Rightarrow> u32 list" where
  "bump_page page cg = (if page < length cg then cg[page := cg ! page + 1] else cg)"

definition bump_page_counters :: "u32 list \<Rightarrow> nat \<Rightarrow> nat \<Rightarrow> u32 list" where
  "bump_page_counters cg start len =
     (if len = 0 then cg
      else fold bump_page [start div PAGE_SIZE..<Suc ((start + len - 1) div PAGE_SIZE)] cg)"

record device_memory =
  dm_ram :: bytes
  dm_code_gen :: "u32 list"
  dm_wrote :: bool

definition dm_ram_bytes :: "device_memory \<Rightarrow> u64" where
  "dm_ram_bytes m = of_nat (length (dm_ram m))"

definition dm_read :: "device_memory \<Rightarrow> u64 \<Rightarrow> nat \<Rightarrow> virtio_error + bytes" where
  "dm_read m address n =
     (case checked_add address (of_nat n) of
        None \<Rightarrow> Inl (OutOfBounds address (of_nat n))
      | Some stop \<Rightarrow>
          if of_nat (length (dm_ram m)) < stop then Inl (OutOfBounds address (of_nat n))
          else Inr (slice (unat address) n (dm_ram m)))"

definition dm_write :: "device_memory \<Rightarrow> u64 \<Rightarrow> bytes \<Rightarrow> (virtio_error + unit) \<times> device_memory" where
  "dm_write m address input =
     (case checked_add address (of_nat (length input)) of
        None \<Rightarrow> (Inl (OutOfBounds address (of_nat (length input))), m)
      | Some stop \<Rightarrow>
          if of_nat (length (dm_ram m)) < stop
          then (Inl (OutOfBounds address (of_nat (length input))), m)
          else (Inr (), m\<lparr>dm_ram := splice (unat address) input (dm_ram m),
                          dm_code_gen := bump_page_counters (dm_code_gen m) (unat address) (length input),
                          dm_wrote := True\<rparr>))"

definition device_mem_ops :: "device_memory guest_mem_ops" where
  "device_mem_ops = \<lparr>gm_ram_bytes = dm_ram_bytes, gm_read = dm_read, gm_write = dm_write\<rparr>"

section \<open>Page counters\<close>

lemma length_bump_page [simp]: "length (bump_page p cg) = length cg"
  by (simp add: bump_page_def)

lemma length_fold_bump [simp]: "length (fold bump_page ps cg) = length cg"
  by (induction ps arbitrary: cg) simp_all

lemma length_bump_page_counters [simp]: "length (bump_page_counters cg start len) = length cg"
  by (simp add: bump_page_counters_def)

lemma nth_fold_bump:
  "distinct ps \<Longrightarrow> i < length cg \<Longrightarrow>
    fold bump_page ps cg ! i = (if i \<in> set ps then cg ! i + 1 else cg ! i)"
  by (induction ps arbitrary: cg) (auto simp: bump_page_def nth_list_update)

text \<open>\<open>page_touched\<close>: the byte range has a byte in page \<open>i\<close>.\<close>

definition page_touched :: "nat \<Rightarrow> nat \<Rightarrow> nat \<Rightarrow> bool" where
  "page_touched start len i \<longleftrightarrow> (\<exists>a. start \<le> a \<and> a < start + len \<and> a div PAGE_SIZE = i)"

lemma page_touched_iff:
  "page_touched start len i \<longleftrightarrow>
     0 < len \<and> start div PAGE_SIZE \<le> i \<and> i \<le> (start + len - 1) div PAGE_SIZE"
proof
  assume "page_touched start len i"
  then obtain a where a: "start \<le> a" "a < start + len" "a div PAGE_SIZE = i"
    by (auto simp: page_touched_def)
  then show "0 < len \<and> start div PAGE_SIZE \<le> i \<and> i \<le> (start + len - 1) div PAGE_SIZE"
    using div_le_mono [of start a PAGE_SIZE] div_le_mono [of a "start + len - 1" PAGE_SIZE] by auto
next
  assume r: "0 < len \<and> start div PAGE_SIZE \<le> i \<and> i \<le> (start + len - 1) div PAGE_SIZE"
  define a where "a = max start (i * PAGE_SIZE)"
  have p: "0 < PAGE_SIZE" by (simp add: PAGE_SIZE_def)
  have "start < Suc i * PAGE_SIZE"
    using r p by (metis less_Suc_eq_le mult.commute div_less_iff_less_mult)
  then have "a div PAGE_SIZE = i"
    using p by (intro div_nat_eqI) (auto simp: a_def mult.commute)
  moreover have "i * PAGE_SIZE \<le> start + len - 1"
    using r p by (metis less_eq_div_iff_mult_less_eq)
  ultimately show "page_touched start len i"
    using r by (auto simp: page_touched_def a_def intro!: exI [of _ a])
qed

lemma nth_bump_page_counters:
  assumes "i < length cg"
  shows "bump_page_counters cg start len ! i = (if page_touched start len i then cg ! i + 1 else cg ! i)"
  using assms by (auto simp: bump_page_counters_def nth_fold_bump page_touched_iff simp del: upt_Suc)

section \<open>The adapter meets the contract of the trait\<close>

definition dm_inv :: "device_memory \<Rightarrow> bool" where
  "dm_inv m \<longleftrightarrow> length (dm_ram m) < 2 ^ 64"

lemma dm_range:
  assumes "dm_inv m" "n < 2 ^ 64"
  shows "(case checked_add a (of_nat n :: u64) of None \<Rightarrow> e
          | Some stop \<Rightarrow> if of_nat (length (dm_ram m)) < stop then e else x)
    = (if unat a + n \<le> length (dm_ram m) then x else e)"
proof -
  have n: "unat (of_nat n :: u64) = n" "unat (of_nat (length (dm_ram m)) :: u64) = length (dm_ram m)"
    using assms by (simp_all add: dm_inv_def unat_of_nat_small)
  show ?thesis
    using assms(1) n unat_add_no_wrap [of a "of_nat n"]
    by (auto simp: checked_add_def dm_inv_def word_less_nat_alt)
qed

interpretation dm: guest_memory device_mem_ops dm_ram dm_inv
proof
  fix m assume "dm_inv m"
  then show "unat (gm_ram_bytes device_mem_ops m) = length (dm_ram m)"
    by (simp add: device_mem_ops_def dm_ram_bytes_def dm_inv_def unat_of_nat_small)
next
  fix m and a :: u64 and n
  assume m: "dm_inv m" "unat a + n \<le> length (dm_ram m)"
  then have "n < 2 ^ 64" by (simp add: dm_inv_def)
  with m show "gm_read device_mem_ops m a n = Inr (slice (unat a) n (dm_ram m))"
    by (simp add: device_mem_ops_def dm_read_def dm_range)
next
  fix m and a :: u64 and bs :: bytes
  assume m: "dm_inv m" "unat a + length bs \<le> length (dm_ram m)"
  then have "length bs < 2 ^ 64" by (simp add: dm_inv_def)
  with m show "\<exists>m'. gm_write device_mem_ops m a bs = (Inr (), m') \<and> dm_inv m'
      \<and> dm_ram m' = splice (unat a) bs (dm_ram m)"
    by (simp add: device_mem_ops_def dm_write_def dm_range) (simp add: dm_inv_def)
qed (simp_all add: device_mem_ops_def dm_read_def dm_write_def dm_range)

section \<open>Properties of the queue over the adapter\<close>

text \<open>
  A small memory for the witnesses: a queue of four descriptors at 0, its available ring at 64 and
  its used ring at 128, with the chain \<open>1 -> 3\<close> published once.
\<close>

definition demo_queue :: queue_layout where
  "demo_queue = \<lparr>q_size = 4, q_desc = 0, q_avail = 64, q_used = 128\<rparr>"

definition demo_ram :: bytes where
  "demo_ram =
     replicate 16 0
     @ to_le 8 (0x100 :: u64) @ to_le 4 (16 :: u32) @ to_le 2 (1 :: u16) @ to_le 2 (3 :: u16)
     @ replicate 16 0
     @ to_le 8 (0x110 :: u64) @ to_le 4 (8 :: u32) @ to_le 2 (2 :: u16) @ to_le 2 (0 :: u16)
     @ to_le 2 (0 :: u16) @ to_le 2 (1 :: u16) @ to_le 2 (1 :: u16) @ replicate 234 0"

definition demo_mem :: device_memory where
  "demo_mem = \<lparr>dm_ram = demo_ram, dm_code_gen = [0, 0], dm_wrote = False\<rparr>"

lemma length_demo_ram: "length demo_ram = 304"
  by (simp add: demo_ram_def)

lemma demo_ok: "dm_inv demo_mem" "rings_fit demo_queue (length (dm_ram demo_mem))"
  by (simp_all add: demo_mem_def dm_inv_def rings_fit_def demo_queue_def length_demo_ram)

lemma demo_desc:
  "desc_of demo_queue demo_ram 1 = (\<lparr>d_address = 0x100, d_length = 16, d_flags = 1\<rparr>, 3)"
  "desc_of demo_queue demo_ram 3 = (\<lparr>d_address = 0x110, d_length = 8, d_flags = 2\<rparr>, 0)"
  by code_simp+

lemma demo_size: "unat (q_size demo_queue) = 4"
  by (simp add: demo_queue_def)


text \<open>
  C12: Walking and bounds-checking a descriptor chain succeeds exactly when following the \<open>next\<close>
  fields from the head visits at most 64 in-ring indices, no index twice, up to a descriptor without
  \<open>NEXT\<close>, and every buffer lies inside RAM; the result is then exactly those descriptors. So a chain
  that cycles, leaves the ring or points outside RAM is always refused.
\<close>

theorem virtq_chain_spec:
  assumes "dm_inv m" "rings_fit q (length (dm_ram m))"
  shows "validated_chain device_mem_ops m q head MAX_CHAIN_DESCRIPTORS = Inr ds \<longleftrightarrow>
    (\<exists>is. chain_path q (dm_ram m) is ds \<and> distinct is \<and> hd is = unat head \<and> length is \<le> 64)
    \<and> (\<forall>d \<in> set ds. unat (d_address d) + unat (d_length d) \<le> length (dm_ram m))"
  unfolding dm.validated_chain_iff [OF assms]
  using chain_path_distinct by (auto simp: MAX_CHAIN_DESCRIPTORS_def)

theorem virtq_chain_spec_witness:
  "validated_chain device_mem_ops demo_mem demo_queue 1 MAX_CHAIN_DESCRIPTORS
     = Inr [\<lparr>d_address = 0x100, d_length = 16, d_flags = 1\<rparr>, \<lparr>d_address = 0x110, d_length = 8, d_flags = 2\<rparr>]"
proof -
  have "chain_path demo_queue demo_ram [3] [\<lparr>d_address = 0x110, d_length = 8, d_flags = 2\<rparr>]"
    using chain_path.stop [of 3 demo_queue demo_ram]
    by (simp add: demo_desc demo_size has_next_def)
  then have "chain_path demo_queue demo_ram [1, 3]
      [\<lparr>d_address = 0x100, d_length = 16, d_flags = 1\<rparr>, \<lparr>d_address = 0x110, d_length = 8, d_flags = 2\<rparr>]"
    using chain_path.link [of 1 demo_queue demo_ram "[3]"]
    by (simp add: demo_desc [unfolded One_nat_def] demo_size has_next_def)
  then show ?thesis
    unfolding virtq_chain_spec [OF demo_ok]
    by (auto simp: demo_mem_def length_demo_ram intro!: exI [of _ "[1, 3]"])
qed



text \<open>
  A device write inside RAM stores exactly the given bytes and advances the write counter of
  exactly the pages that contain one of them, by one each; an access that leaves RAM is refused with
  \<open>OutOfBounds\<close> and changes nothing. An empty write touches no page.
\<close>

theorem device_write_pages:
  assumes "dm_inv m" "length input < 2 ^ 64"
  shows "if unat a + length input \<le> length (dm_ram m)
    then \<exists>m'. dm_write m a input = (Inr (), m') \<and> dm_ram m' = splice (unat a) input (dm_ram m)
       \<and> length (dm_code_gen m') = length (dm_code_gen m)
       \<and> (\<forall>i < length (dm_code_gen m). dm_code_gen m' ! i =
            (if page_touched (unat a) (length input) i then dm_code_gen m ! i + 1 else dm_code_gen m ! i))
    else dm_write m a input = (Inl (OutOfBounds a (of_nat (length input))), m)"
  using assms by (simp add: dm_write_def dm_range nth_bump_page_counters)

theorem device_write_pages_witness:
  "\<exists>m'. dm_write demo_mem 10 [1, 2] = (Inr (), m') \<and> dm_code_gen m' ! 0 = 1 \<and> dm_code_gen m' ! 1 = 0"
proof -
  have "page_touched 10 (length [1, 2 :: u8]) 0" "\<not> page_touched 10 (length [1, 2 :: u8]) 1"
    by (simp_all add: page_touched_iff PAGE_SIZE_def)
  moreover have "length (dm_code_gen demo_mem) = 2" "dm_code_gen demo_mem ! 0 = 0" "dm_code_gen demo_mem ! 1 = 0"
    "10 + length [1, 2 :: u8] \<le> length (dm_ram demo_mem)"
    by (simp_all add: demo_mem_def length_demo_ram)
  ultimately show ?thesis
    using device_write_pages [OF demo_ok(1), of "[1, 2]" 10] by auto
qed

end
