(* ===== verification/Virtio_Block.thy ===== *)
theory Virtio_Block
  imports Device_Memory
begin

text \<open>
  The virtio-mmio block device (\<open>virtio/block.rs\<close>) over the \<open>BlockBackend\<close> trait
  (\<open>virtio/backend.rs\<close>): register file, feature negotiation, request processing and the kick
  handler. \<open>process_request\<close> is modelled in the two phases the source documents: \<open>blk_parse\<close>, which
  only reads, and \<open>blk_execute\<close>, which moves bytes.
\<close>

section \<open>Number formatting in error messages\<close>

function show_radix :: "nat \<Rightarrow> nat \<Rightarrow> string" where
  "show_radix b n =
     (if b < 2 \<or> n < b then [''0123456789abcdef'' ! (n mod 16)]
      else show_radix b (n div b) @ [''0123456789abcdef'' ! (n mod b)])"
  by pat_completeness auto
termination by (relation "measure snd") auto

declare show_radix.simps [simp del]

definition virtio_error_display :: "virtio_error \<Rightarrow> string" where
  "virtio_error_display e = (case e of
     OutOfBounds address count \<Rightarrow>
       ''access of '' @ show_radix 10 (unat count) @ '' bytes at 0x'' @ show_radix 16 (unat address)
         @ '' is outside guest RAM''
   | BadQueue message \<Rightarrow> message
   | Backend message \<Rightarrow> message)"

section \<open>Block backends\<close>

record 'b block_backend_ops =
  bb_length :: "'b \<Rightarrow> u64"
  bb_read_at :: "'b \<Rightarrow> u64 \<Rightarrow> nat \<Rightarrow> (virtio_error + bytes) \<times> 'b"
  bb_write_at :: "'b \<Rightarrow> u64 \<Rightarrow> bytes \<Rightarrow> (virtio_error + unit) \<times> 'b"

record vec_block_backend =
  vec_bytes :: bytes

definition vec_length :: "vec_block_backend \<Rightarrow> u64" where
  "vec_length b = of_nat (length (vec_bytes b))"

definition vec_read_at ::
  "vec_block_backend \<Rightarrow> u64 \<Rightarrow> nat \<Rightarrow> (virtio_error + bytes) \<times> vec_block_backend" where
  "vec_read_at b offset n =
     (case checked_add offset (of_nat n) of
        None \<Rightarrow> (Inl (Backend ''read offset overflowed''), b)
      | Some end_ \<Rightarrow>
          if of_nat (length (vec_bytes b)) < end_
          then (Inl (Backend ''read past the end of the backend''), b)
          else (Inr (slice (unat offset) n (vec_bytes b)), b))"

definition vec_write_at ::
  "vec_block_backend \<Rightarrow> u64 \<Rightarrow> bytes \<Rightarrow> (virtio_error + unit) \<times> vec_block_backend" where
  "vec_write_at b offset input =
     (case checked_add offset (of_nat (length input)) of
        None \<Rightarrow> (Inl (Backend ''write offset overflowed''), b)
      | Some end_ \<Rightarrow>
          if of_nat (length (vec_bytes b)) < end_
          then (Inl (Backend ''write past the end of the backend''), b)
          else (Inr (), b\<lparr>vec_bytes := splice (unat offset) input (vec_bytes b)\<rparr>))"

definition vec_backend_ops :: "vec_block_backend block_backend_ops" where
  "vec_backend_ops = \<lparr>bb_length = vec_length, bb_read_at = vec_read_at, bb_write_at = vec_write_at\<rparr>"

text \<open>
  The file backend. The host's positioned reads and writes are parameters; an I/O error is given
  by its message.
\<close>

record 'f file_block_backend =
  fb_file :: 'f
  fb_length :: u64

definition file_from_file :: "('f \<Rightarrow> string + u64) \<Rightarrow> 'f \<Rightarrow> string + 'f file_block_backend" where
  "file_from_file metadata_len f = bind_res (metadata_len f) (\<lambda>n. Inr \<lparr>fb_file = f, fb_length = n\<rparr>)"

definition file_read_at ::
  "('f \<Rightarrow> nat \<Rightarrow> u64 \<Rightarrow> string + bytes) \<Rightarrow> 'f file_block_backend \<Rightarrow> u64 \<Rightarrow> nat
    \<Rightarrow> (virtio_error + bytes) \<times> 'f file_block_backend" where
  "file_read_at read_exact_at b offset n =
     (case read_exact_at (fb_file b) n offset of
        Inl error \<Rightarrow> (Inl (Backend (''host disk read failed: '' @ error)), b)
      | Inr output \<Rightarrow> (Inr output, b))"

definition file_write_at ::
  "('f \<Rightarrow> bytes \<Rightarrow> u64 \<Rightarrow> (string + unit) \<times> 'f) \<Rightarrow> 'f file_block_backend \<Rightarrow> u64 \<Rightarrow> bytes
    \<Rightarrow> (virtio_error + unit) \<times> 'f file_block_backend" where
  "file_write_at write_all_at b offset input =
     (case write_all_at (fb_file b) input offset of
        (Inl error, f) \<Rightarrow> (Inl (Backend (''host disk write failed: '' @ error)), b\<lparr>fb_file := f\<rparr>)
      | (Inr _, f) \<Rightarrow> (Inr (), b\<lparr>fb_file := f\<rparr>))"

definition file_backend_ops ::
  "('f \<Rightarrow> nat \<Rightarrow> u64 \<Rightarrow> string + bytes) \<Rightarrow> ('f \<Rightarrow> bytes \<Rightarrow> u64 \<Rightarrow> (string + unit) \<times> 'f)
    \<Rightarrow> 'f file_block_backend block_backend_ops" where
  "file_backend_ops read_exact_at write_all_at =
     \<lparr>bb_length = fb_length, bb_read_at = file_read_at read_exact_at,
      bb_write_at = file_write_at write_all_at\<rparr>"

section \<open>Device state\<close>

definition VIRTIO_BLK_SECTOR_SIZE :: nat where "VIRTIO_BLK_SECTOR_SIZE = 512"
definition TRANSFER_CHUNK_BYTES :: nat where "TRANSFER_CHUNK_BYTES = 65536"
definition HEADER_BYTES :: nat where "HEADER_BYTES = 16"
definition QUEUE_NUM_MAX_VALUE :: u16 where "QUEUE_NUM_MAX_VALUE = 128"
definition MIN_SERVICEABLE_QUEUE_SIZE :: u16 where "MIN_SERVICEABLE_QUEUE_SIZE = 3"
definition SEG_MAX :: u32 where "SEG_MAX = 62"
definition BLK_OFFERED_FEATURES :: u64 where
  "BLK_OFFERED_FEATURES = shl1 32 OR shl1 1 OR shl1 4"
definition BLK_SERIAL :: bytes where
  "BLK_SERIAL = map (\<lambda>c. of_nat (of_char c)) ''RISH-VIRTIO-BLK-01''"

record 'b virtio_blk =
  blk_backend :: 'b
  blk_capacity_sectors :: u64
  blk_status :: u32
  blk_device_feature_sel :: u32
  blk_driver_feature_sel :: u32
  blk_driver_features :: "u32 \<times> u32"
  blk_negotiated_features :: u64
  blk_queue_sel :: u32
  blk_queue :: queue_layout
  blk_queue_ready :: bool
  blk_irq_status :: u32
  blk_last_seen_avail :: u16
  blk_kick_pending :: bool
  blk_fault :: "string option"

definition blk_new :: "'b block_backend_ops \<Rightarrow> 'b \<Rightarrow> virtio_error + 'b virtio_blk" where
  "blk_new bops backend =
     (let len = bb_length bops backend in
      if len = 0 then Inl (Backend ''block backend is empty'')
      else if len mod 512 \<noteq> 0
      then Inl (Backend (''block backend size '' @ show_radix 10 (unat len)
             @ '' is not a multiple of 512 bytes''))
      else Inr \<lparr>blk_backend = backend, blk_capacity_sectors = len div 512, blk_status = 0,
             blk_device_feature_sel = 0, blk_driver_feature_sel = 0, blk_driver_features = (0, 0),
             blk_negotiated_features = 0, blk_queue_sel = 0, blk_queue = queue_layout_default,
             blk_queue_ready = False, blk_irq_status = 0, blk_last_seen_avail = 0,
             blk_kick_pending = False, blk_fault = None\<rparr>)"

section \<open>Register file\<close>

definition blk_device_feature_word :: "'b virtio_blk \<Rightarrow> u32" where
  "blk_device_feature_word d =
     (if blk_device_feature_sel d = 0 then ucast BLK_OFFERED_FEATURES
      else if blk_device_feature_sel d = 1 then ucast (drop_bit 32 BLK_OFFERED_FEATURES)
      else 0)"

definition blk_config_word :: "'b virtio_blk \<Rightarrow> u64 \<Rightarrow> u32" where
  "blk_config_word d offset =
     (let w = offset AND NOT 3 in
      if w = 0x100 then ucast (blk_capacity_sectors d)
      else if w = 0x104 then ucast (drop_bit 32 (blk_capacity_sectors d))
      else if w = 0x108 then 0
      else if w = 0x10C then SEG_MAX
      else if w = 0x110 then 0
      else if w = 0x114 then 512
      else 0)"

definition blk_mmio_read :: "'b virtio_blk \<Rightarrow> u64 \<Rightarrow> u32" where
  "blk_mmio_read d offset =
     (let w = offset AND NOT 3 in
      if w = 0x000 then 0x74726976
      else if w = 0x004 then 2
      else if w = 0x008 then 2
      else if w = 0x00C then 0x52495348
      else if w = 0x010 then blk_device_feature_word d
      else if w = 0x034 then ucast QUEUE_NUM_MAX_VALUE
      else if w = 0x038 then ucast (q_size (blk_queue d))
      else if w = 0x044 then of_bool (blk_queue_ready d)
      else if w = 0x060 then blk_irq_status d
      else if w = 0x070 then blk_status d
      else if w = 0x0FC then 0
      else if w \<ge> 0x100 then blk_config_word d w
      else 0)"

definition merge_low :: "u64 \<Rightarrow> u32 \<Rightarrow> u64" where
  "merge_low current value = (current AND NOT 0xFFFFFFFF) OR ucast value"

definition merge_high :: "u64 \<Rightarrow> u32 \<Rightarrow> u64" where
  "merge_high current value = (current AND 0xFFFFFFFF) OR push_bit 32 (ucast value)"

definition blk_reset :: "'b virtio_blk \<Rightarrow> 'b virtio_blk" where
  "blk_reset d = d\<lparr>blk_status := 0, blk_driver_features := (0, 0), blk_driver_feature_sel := 0,
     blk_negotiated_features := 0, blk_queue := queue_layout_default, blk_queue_ready := False,
     blk_irq_status := 0, blk_last_seen_avail := 0, blk_kick_pending := False\<rparr>"

definition blk_write_status_reg :: "'b virtio_blk \<Rightarrow> u32 \<Rightarrow> 'b virtio_blk" where
  "blk_write_status_reg d value =
     (if value = 0 then blk_reset d
      else let d = d\<lparr>blk_status := value\<rparr> in
           if value AND 8 \<noteq> 0
           then let driver = push_bit 32 (ucast (snd (blk_driver_features d)))
                              OR ucast (fst (blk_driver_features d))
                in d\<lparr>blk_negotiated_features := BLK_OFFERED_FEATURES AND driver\<rparr>
           else d)"

definition blk_write_queue_ready :: "'b virtio_blk \<Rightarrow> u32 \<Rightarrow> 'b virtio_blk" where
  "blk_write_queue_ready d value =
     (if blk_queue_sel d \<noteq> 0 then d
      else if value = 0 then d\<lparr>blk_queue_ready := False, blk_last_seen_avail := 0\<rparr>
      else if value = 1 \<and> MIN_SERVICEABLE_QUEUE_SIZE \<le> q_size (blk_queue d)
      then d\<lparr>blk_queue_ready := True\<rparr> else d)"

definition blk_update_queue ::
  "'b virtio_blk \<Rightarrow> (queue_layout \<Rightarrow> queue_layout) \<Rightarrow> 'b virtio_blk" where
  "blk_update_queue d f = (if blk_queue_sel d = 0 then d\<lparr>blk_queue := f (blk_queue d)\<rparr> else d)"

definition blk_mmio_write :: "'b virtio_blk \<Rightarrow> u64 \<Rightarrow> u32 \<Rightarrow> 'b virtio_blk" where
  "blk_mmio_write d offset value =
     (let w = offset AND NOT 3 in
      if w = 0x014 then d\<lparr>blk_device_feature_sel := value\<rparr>
      else if w = 0x024 then d\<lparr>blk_driver_feature_sel := value\<rparr>
      else if w = 0x020 then
        (if blk_driver_feature_sel d = 0
         then d\<lparr>blk_driver_features := (value, snd (blk_driver_features d))\<rparr>
         else if blk_driver_feature_sel d = 1
         then d\<lparr>blk_driver_features := (fst (blk_driver_features d), value)\<rparr>
         else d)
      else if w = 0x030 then d\<lparr>blk_queue_sel := value\<rparr>
      else if w = 0x038 then
        (if blk_queue_sel d = 0 \<and> \<not> blk_queue_ready d
         then d\<lparr>blk_queue := (blk_queue d)\<lparr>q_size :=
                (if 0 < value \<and> value \<le> ucast QUEUE_NUM_MAX_VALUE then ucast value else 0)\<rparr>\<rparr>
         else d)
      else if w = 0x044 then blk_write_queue_ready d value
      else if w = 0x050 then
        (if value = blk_queue_sel d \<and> blk_queue_ready d then d\<lparr>blk_kick_pending := True\<rparr> else d)
      else if w = 0x064 then d\<lparr>blk_irq_status := blk_irq_status d AND NOT value\<rparr>
      else if w = 0x070 then blk_write_status_reg d value
      else if w = 0x080 then blk_update_queue d (\<lambda>q. q\<lparr>q_desc := merge_low (q_desc q) value\<rparr>)
      else if w = 0x084 then blk_update_queue d (\<lambda>q. q\<lparr>q_desc := merge_high (q_desc q) value\<rparr>)
      else if w = 0x090 then blk_update_queue d (\<lambda>q. q\<lparr>q_avail := merge_low (q_avail q) value\<rparr>)
      else if w = 0x094 then blk_update_queue d (\<lambda>q. q\<lparr>q_avail := merge_high (q_avail q) value\<rparr>)
      else if w = 0x0A0 then blk_update_queue d (\<lambda>q. q\<lparr>q_used := merge_low (q_used q) value\<rparr>)
      else if w = 0x0A4 then blk_update_queue d (\<lambda>q. q\<lparr>q_used := merge_high (q_used q) value\<rparr>)
      else d)"

section \<open>Data movement\<close>

text \<open>One round of a copy loop moves what is left of the descriptor, at most one chunk.\<close>

definition chunk_step :: "descriptor \<Rightarrow> u32 \<Rightarrow> nat" where
  "chunk_step d done' = min (unat (d_length d) - unat done') TRANSFER_CHUNK_BYTES"

lemma chunk_step_progress:
  assumes "done' < d_length d"
  shows "unat (done' + of_nat (chunk_step d done')) = unat done' + chunk_step d done'"
    "0 < chunk_step d done'" "unat done' + chunk_step d done' \<le> unat (d_length d)"
proof -
  have lt: "unat done' < unat (d_length d)" using assms by (simp add: word_less_nat_alt)
  then show pos: "0 < chunk_step d done'" and le: "unat done' + chunk_step d done' \<le> unat (d_length d)"
    by (auto simp: chunk_step_def TRANSFER_CHUNK_BYTES_def)
  have "unat done' + chunk_step d done' < 2 ^ 32"
    using le unat_bound [of "d_length d"] by simp
  then show "unat (done' + of_nat (chunk_step d done')) = unat done' + chunk_step d done'"
    using unat_add_no_wrap [of done' "of_nat (chunk_step d done')"] by (simp add: unat_of_nat_small)
qed

function copy_from_desc ::
  "'m guest_mem_ops \<Rightarrow> 'b block_backend_ops \<Rightarrow> descriptor \<Rightarrow> u32 \<Rightarrow> u64 \<Rightarrow> 'm \<times> 'b
    \<Rightarrow> (virtio_error + u64) \<times> 'm \<times> 'b" where
  "copy_from_desc mops bops d done' offset (m, b) =
     (if done' < d_length d then
        let step = chunk_step d done' in
        case bb_read_at bops b offset step of (Inl e, b) \<Rightarrow> (Inl e, m, b) | (Inr buffer, b) \<Rightarrow>
        case gm_write mops m (d_address d + ucast done') buffer of (Inl e, m) \<Rightarrow> (Inl e, m, b) | (Inr _, m) \<Rightarrow>
        copy_from_desc mops bops d (done' + of_nat step) (offset + of_nat step) (m, b)
      else (Inr offset, m, b))"
  by pat_completeness auto
termination
  by (relation "measure (\<lambda>(_, _, d, done', _, _). unat (d_length d) - unat done')")
    (auto simp: chunk_step_progress word_less_nat_alt diff_less_mono2)

fun copy_from_segments ::
  "'m guest_mem_ops \<Rightarrow> 'b block_backend_ops \<Rightarrow> descriptor list \<Rightarrow> u64 \<Rightarrow> 'm \<times> 'b
    \<Rightarrow> (virtio_error + unit) \<times> 'm \<times> 'b" where
  "copy_from_segments mops bops [] offset st = (Inr (), st)"
| "copy_from_segments mops bops (d # ds) offset st =
     (case copy_from_desc mops bops d 0 offset st of (Inl e, st) \<Rightarrow> (Inl e, st)
      | (Inr offset, st) \<Rightarrow> copy_from_segments mops bops ds offset st)"

function copy_to_desc ::
  "'m guest_mem_ops \<Rightarrow> 'b block_backend_ops \<Rightarrow> 'm \<Rightarrow> descriptor \<Rightarrow> u32 \<Rightarrow> u64 \<Rightarrow> 'b
    \<Rightarrow> (virtio_error + u64) \<times> 'b" where
  "copy_to_desc mops bops m d done' offset b =
     (if done' < d_length d then
        let step = chunk_step d done' in
        case gm_read mops m (d_address d + ucast done') step of Inl e \<Rightarrow> (Inl e, b) | Inr buffer \<Rightarrow>
        case bb_write_at bops b offset buffer of (Inl e, b) \<Rightarrow> (Inl e, b) | (Inr _, b) \<Rightarrow>
        copy_to_desc mops bops m d (done' + of_nat step) (offset + of_nat step) b
      else (Inr offset, b))"
  by pat_completeness auto
termination
  by (relation "measure (\<lambda>(_, _, _, d, done', _, _). unat (d_length d) - unat done')")
    (auto simp: chunk_step_progress word_less_nat_alt diff_less_mono2)

fun copy_to_segments ::
  "'m guest_mem_ops \<Rightarrow> 'b block_backend_ops \<Rightarrow> 'm \<Rightarrow> descriptor list \<Rightarrow> u64 \<Rightarrow> 'b
    \<Rightarrow> (virtio_error + unit) \<times> 'b" where
  "copy_to_segments mops bops m [] offset b = (Inr (), b)"
| "copy_to_segments mops bops m (d # ds) offset b =
     (case copy_to_desc mops bops m d 0 offset b of (Inl e, b) \<Rightarrow> (Inl e, b)
      | (Inr offset, b) \<Rightarrow> copy_to_segments mops bops m ds offset b)"

definition serial_buffer :: "nat \<Rightarrow> nat \<Rightarrow> bytes" where
  "serial_buffer position step =
     (let buffer = replicate step 0x20 in
      if position < length BLK_SERIAL
      then let overlap = min (length BLK_SERIAL - position) step
           in splice 0 (slice position overlap BLK_SERIAL) buffer
      else buffer)"

function serial_desc ::
  "'m guest_mem_ops \<Rightarrow> descriptor \<Rightarrow> u32 \<Rightarrow> nat \<Rightarrow> 'm \<Rightarrow> (virtio_error + nat) \<times> 'm" where
  "serial_desc mops d done' written m =
     (if done' < d_length d then
        let step = chunk_step d done' in
        case gm_write mops m (d_address d + ucast done') (serial_buffer (written + unat done') step) of
          (Inl e, m) \<Rightarrow> (Inl e, m)
        | (Inr _, m) \<Rightarrow> serial_desc mops d (done' + of_nat step) (written + step) m
      else (Inr written, m))"
  by pat_completeness auto
termination
  by (relation "measure (\<lambda>(_, d, done', _, _). unat (d_length d) - unat done')")
    (auto simp: chunk_step_progress word_less_nat_alt diff_less_mono2)

declare copy_from_desc.simps [simp del] copy_to_desc.simps [simp del] serial_desc.simps [simp del]

fun serial_segments ::
  "'m guest_mem_ops \<Rightarrow> descriptor list \<Rightarrow> nat \<Rightarrow> 'm \<Rightarrow> (virtio_error + unit) \<times> 'm" where
  "serial_segments mops [] written m = (Inr (), m)"
| "serial_segments mops (d # ds) written m =
     (case serial_desc mops d 0 written m of (Inl e, m) \<Rightarrow> (Inl e, m)
      | (Inr written, m) \<Rightarrow> serial_segments mops ds written m)"

definition write_serial ::
  "'m guest_mem_ops \<Rightarrow> descriptor list \<Rightarrow> 'm \<Rightarrow> (virtio_error + unit) \<times> 'm" where
  "write_serial mops data m = serial_segments mops data 0 m"

definition write_status ::
  "'m guest_mem_ops \<Rightarrow> descriptor \<Rightarrow> u8 \<Rightarrow> 'm \<Rightarrow> (virtio_error + unit) \<times> 'm" where
  "write_status mops status byte m = gm_write mops m (d_address status) [byte]"

section \<open>Requests\<close>

definition REQ_IN :: u32 where "REQ_IN = 0"
definition REQ_OUT :: u32 where "REQ_OUT = 1"
definition REQ_GET_ID :: u32 where "REQ_GET_ID = 8"

definition STATUS_BYTE_OK :: u8 where "STATUS_BYTE_OK = 0"
definition STATUS_BYTE_IOERR :: u8 where "STATUS_BYTE_IOERR = 1"
definition STATUS_BYTE_UNSUPP :: u8 where "STATUS_BYTE_UNSUPP = 2"

record blk_request =
  rq_type :: u32
  rq_sector :: u64
  rq_data :: "descriptor list"
  rq_status :: descriptor
  rq_total :: nat

definition blk_parse ::
  "'m guest_mem_ops \<Rightarrow> 'm \<Rightarrow> queue_layout \<Rightarrow> u16 \<Rightarrow> virtio_error + blk_request" where
  "blk_parse mops m q head =
     bind_res (validated_chain mops m q head MAX_CHAIN_DESCRIPTORS) (\<lambda>ds.
     if length ds < 3 then Inl (BadQueue ''request chain has fewer than three descriptors'')
     else let header = ds ! 0; status = ds ! (length ds - 1) in
     if unat (d_length header) < HEADER_BYTES \<or> device_writable header
     then Inl (BadQueue ''request header is missing or device-writable'')
     else if d_length status < 1 \<or> \<not> device_writable status
     then Inl (BadQueue ''request status descriptor is missing or not device-writable'')
     else bind_res (gm_read mops m (d_address header) HEADER_BYTES) (\<lambda>hb.
     let request_type = from_le (slice 0 4 hb);
         sector = from_le (slice 8 8 hb);
         data = slice 1 (length ds - 2) ds;
         total' = total_bytes data in
     if (request_type = REQ_IN \<or> request_type = REQ_GET_ID) \<and> (\<exists>d \<in> set data. \<not> device_writable d)
     then Inl (BadQueue ''read request data descriptor is not device-writable'')
     else if request_type = REQ_OUT \<and> (\<exists>d \<in> set data. device_writable d)
     then Inl (BadQueue ''write request data descriptor is device-writable'')
     else if (request_type = REQ_IN \<or> request_type = REQ_OUT) \<and> total' mod VIRTIO_BLK_SECTOR_SIZE \<noteq> 0
     then Inl (BadQueue ''request length is not a multiple of the block size'')
     else Inr \<lparr>rq_type = request_type, rq_sector = sector, rq_data = data, rq_status = status,
                rq_total = total'\<rparr>))"

definition checked_range :: "'b virtio_blk \<Rightarrow> u64 \<Rightarrow> nat \<Rightarrow> virtio_error + u64 option" where
  "checked_range d sector total' =
     (let start = unat sector * VIRTIO_BLK_SECTOR_SIZE;
          stop = start + total';
          capacity = unat (blk_capacity_sectors d) * VIRTIO_BLK_SECTOR_SIZE in
      if 2 ^ 128 \<le> stop then Inl (Backend ''request byte range overflowed'')
      else if capacity < stop then Inr None
      else Inr (Some (of_nat stop)))"

text \<open>\<open>finish\<close> writes the status byte and publishes the length.\<close>

definition blk_finish ::
  "'m guest_mem_ops \<Rightarrow> blk_request \<Rightarrow> u8 \<Rightarrow> u32 \<Rightarrow> 'm \<times> 'b virtio_blk
    \<Rightarrow> (virtio_error + u32) \<times> 'm \<times> 'b virtio_blk" where
  "blk_finish mops rq byte len st =
     (case write_status mops (rq_status rq) byte (fst st) of
        (Inl e, m) \<Rightarrow> (Inl e, m, snd st)
      | (Inr _, m) \<Rightarrow> (Inr len, m, snd st))"

definition written_len :: "blk_request \<Rightarrow> u32" where
  "written_len rq =
     (let device_written = (if rq_type rq = REQ_OUT then 1 else rq_total rq + 1)
      in if device_written < 2 ^ 32 then of_nat device_written else - 1)"

definition blk_execute ::
  "'m guest_mem_ops \<Rightarrow> 'b block_backend_ops \<Rightarrow> blk_request \<Rightarrow> 'm \<times> 'b virtio_blk
    \<Rightarrow> (virtio_error + u32) \<times> 'm \<times> 'b virtio_blk" where
  "blk_execute mops bops rq st =
     (case st of (m, d) \<Rightarrow>
      if rq_type rq = REQ_IN then
        (case checked_range d (rq_sector rq) (rq_total rq) of
           Inl e \<Rightarrow> (Inl e, st)
         | Inr None \<Rightarrow> blk_finish mops rq STATUS_BYTE_IOERR 1 st
         | Inr (Some _) \<Rightarrow>
             (case copy_from_segments mops bops (rq_data rq) (rq_sector rq * 512) (m, blk_backend d) of
                (Inl e, m, b) \<Rightarrow> (Inl e, m, d\<lparr>blk_backend := b\<rparr>)
              | (Inr _, m, b) \<Rightarrow>
                  blk_finish mops rq STATUS_BYTE_OK (written_len rq) (m, d\<lparr>blk_backend := b\<rparr>)))
      else if rq_type rq = REQ_OUT then
        (case checked_range d (rq_sector rq) (rq_total rq) of
           Inl e \<Rightarrow> (Inl e, st)
         | Inr None \<Rightarrow> blk_finish mops rq STATUS_BYTE_IOERR 1 st
         | Inr (Some _) \<Rightarrow>
             (case copy_to_segments mops bops m (rq_data rq) (rq_sector rq * 512) (blk_backend d) of
                (Inl (Backend _), b) \<Rightarrow>
                  blk_finish mops rq STATUS_BYTE_IOERR 1 (m, d\<lparr>blk_backend := b\<rparr>)
              | (Inl fatal, b) \<Rightarrow> (Inl fatal, m, d\<lparr>blk_backend := b\<rparr>)
              | (Inr _, b) \<Rightarrow>
                  blk_finish mops rq STATUS_BYTE_OK (written_len rq) (m, d\<lparr>blk_backend := b\<rparr>)))
      else if rq_type rq = REQ_GET_ID then
        (case write_serial mops (rq_data rq) m of
           (Inl e, m) \<Rightarrow> (Inl e, m, d)
         | (Inr _, m) \<Rightarrow> blk_finish mops rq STATUS_BYTE_OK (written_len rq) (m, d))
      else blk_finish mops rq STATUS_BYTE_UNSUPP 1 st)"

definition process_request ::
  "'m guest_mem_ops \<Rightarrow> 'b block_backend_ops \<Rightarrow> u16 \<Rightarrow> 'm \<times> 'b virtio_blk
    \<Rightarrow> (virtio_error + u32) \<times> 'm \<times> 'b virtio_blk" where
  "process_request mops bops head st =
     (case blk_parse mops (fst st) (blk_queue (snd st)) head of
        Inl e \<Rightarrow> (Inl e, st)
      | Inr rq \<Rightarrow> blk_execute mops bops rq st)"

definition blk_poll_kick ::
  "'m guest_mem_ops \<Rightarrow> 'b block_backend_ops \<Rightarrow> 'm \<times> 'b virtio_blk \<Rightarrow> bool \<times> 'm \<times> 'b virtio_blk" where
  "blk_poll_kick mops bops st =
     (case st of (m, d) \<Rightarrow>
      if \<not> blk_kick_pending d then (False, m, d)
      else let d = d\<lparr>blk_kick_pending := False\<rparr> in
      if blk_fault d \<noteq> None \<or> \<not> blk_queue_ready d \<or> q_size (blk_queue d) = 0 \<or> blk_status d AND 4 = 0
      then (False, m, d)
      else case drain_available mops (blk_queue d) (process_request mops bops) (blk_last_seen_avail d) (m, d) of
        (Inr completed, last_seen, m, d) \<Rightarrow>
          let d = d\<lparr>blk_last_seen_avail := last_seen\<rparr> in
          (0 < completed, m, if 0 < completed then d\<lparr>blk_irq_status := blk_irq_status d OR 1\<rparr> else d)
      | (Inl error, _, m, d) \<Rightarrow>
          (False, m, d\<lparr>blk_fault := Some (''virtio-blk stopped servicing: '' @ virtio_error_display error)\<rparr>))"

section \<open>The backend contract\<close>

text \<open>
  \<open>disk\<close> is the content of the backend: transfers inside it succeed and are exact, and a backend
  fails only with \<open>Backend\<close> errors.
\<close>

locale block_backend =
  fixes bops :: "'b block_backend_ops" and disk :: "'b \<Rightarrow> bytes" and binv :: "'b \<Rightarrow> bool"
  assumes disk_size: "binv b \<Longrightarrow> unat (bb_length bops b) = length (disk b)"
    and read_at_in: "binv b \<Longrightarrow> unat off + n \<le> length (disk b) \<Longrightarrow>
      \<exists>b'. bb_read_at bops b off n = (Inr (slice (unat off) n (disk b)), b') \<and> binv b' \<and> disk b' = disk b"
    and write_at_in: "binv b \<Longrightarrow> unat off + length bs \<le> length (disk b) \<Longrightarrow>
      \<exists>b'. bb_write_at bops b off bs = (Inr (), b') \<and> binv b' \<and> disk b' = splice (unat off) bs (disk b)"
    and read_at_fails: "bb_read_at bops b off n = (Inl e, b') \<Longrightarrow> \<exists>msg. e = Backend msg"
    and write_at_fails: "bb_write_at bops b off bs = (Inl e, b') \<Longrightarrow> \<exists>msg. e = Backend msg"

definition vec_inv :: "vec_block_backend \<Rightarrow> bool" where
  "vec_inv b \<longleftrightarrow> length (vec_bytes b) < 2 ^ 64"

lemma vec_range:
  assumes "vec_inv b" "unat off + n \<le> length (vec_bytes b)"
  shows "checked_add off (of_nat n :: u64) = Some (off + of_nat n)"
    "\<not> of_nat (length (vec_bytes b)) < off + of_nat n"
proof -
  have n: "unat (of_nat n :: u64) = n" "unat (of_nat (length (vec_bytes b)) :: u64) = length (vec_bytes b)"
    using assms by (simp_all add: vec_inv_def unat_of_nat_small)
  then show "checked_add off (of_nat n) = Some (off + of_nat n)"
    using assms by (simp add: checked_add_def vec_inv_def)
  then show "\<not> of_nat (length (vec_bytes b)) < off + of_nat n"
    using assms(2) n by (auto simp: word_less_nat_alt dest!: checked_add_unat)
qed

interpretation vec: block_backend vec_backend_ops vec_bytes vec_inv
proof
  fix b assume "vec_inv b"
  then show "unat (bb_length vec_backend_ops b) = length (vec_bytes b)"
    by (simp add: vec_backend_ops_def vec_length_def vec_inv_def unat_of_nat_small)
next
  fix b and off :: u64 and n
  assume "vec_inv b" "unat off + n \<le> length (vec_bytes b)"
  then show "\<exists>b'. bb_read_at vec_backend_ops b off n = (Inr (slice (unat off) n (vec_bytes b)), b')
      \<and> vec_inv b' \<and> vec_bytes b' = vec_bytes b"
    by (simp add: vec_backend_ops_def vec_read_at_def vec_range)
next
  fix b and off :: u64 and bs :: bytes
  assume "vec_inv b" "unat off + length bs \<le> length (vec_bytes b)"
  then show "\<exists>b'. bb_write_at vec_backend_ops b off bs = (Inr (), b')
      \<and> vec_inv b' \<and> vec_bytes b' = splice (unat off) bs (vec_bytes b)"
    using vec_range [of b off "length bs"] by (simp add: vec_backend_ops_def vec_write_at_def) (simp add: vec_inv_def)
qed (auto simp: vec_backend_ops_def vec_read_at_def vec_write_at_def split: option.splits if_splits)

text \<open>
  The file backend meets the same contract when the host's positioned I/O reads and writes the
  bytes of the file and \<open>fb_length\<close> is its size, which \<open>from_file\<close> establishes.
\<close>

lemma file_backend_contract:
  assumes rd: "\<And>f off n. unat off + n \<le> length (content f) \<Longrightarrow>
      read_exact_at f n off = Inr (slice (unat off) n (content f))"
    and wr: "\<And>f off bs. unat off + length bs \<le> length (content f) \<Longrightarrow>
      \<exists>f'. write_all_at f bs off = (Inr (), f') \<and> content f' = splice (unat off) bs (content f)"
  shows "block_backend (file_backend_ops read_exact_at write_all_at) (\<lambda>b. content (fb_file b))
    (\<lambda>b. unat (fb_length b) = length (content (fb_file b)))"
proof
  fix b :: "'a file_block_backend" and off :: u64 and bs :: bytes
  assume "unat (fb_length b) = length (content (fb_file b))"
    "unat off + length bs \<le> length (content (fb_file b))"
  then show "\<exists>b'. bb_write_at (file_backend_ops read_exact_at write_all_at) b off bs = (Inr (), b')
      \<and> unat (fb_length b') = length (content (fb_file b'))
      \<and> content (fb_file b') = splice (unat off) bs (content (fb_file b))"
    using wr [of off bs "fb_file b"] by (auto simp: file_backend_ops_def file_write_at_def)
qed (auto simp: file_backend_ops_def file_read_at_def file_write_at_def rd split: sum.splits prod.splits)

section \<open>Chunked copies are whole copies\<close>

fun scatter :: "descriptor list \<Rightarrow> bytes \<Rightarrow> bytes \<Rightarrow> bytes" where
  "scatter [] src r = r"
| "scatter (d # ds) src r =
     scatter ds (drop (unat (d_length d)) src)
       (splice (unat (d_address d)) (take (unat (d_length d)) src) r)"

definition gather :: "descriptor list \<Rightarrow> bytes \<Rightarrow> bytes" where
  "gather ds r = concat (map (\<lambda>d. slice (unat (d_address d)) (unat (d_length d)) r) ds)"

definition in_ram :: "nat \<Rightarrow> descriptor \<Rightarrow> bool" where
  "in_ram n d \<longleftrightarrow> unat (d_address d) + unat (d_length d) \<le> n"

lemma in_ram_offset:
  assumes "in_ram n d" "n < 2 ^ 64" "done' < d_length d"
  shows "unat (d_address d + ucast done') = unat (d_address d) + unat done'"
proof -
  have "unat done' < unat (d_length d)" using assms(3) by (simp add: word_less_nat_alt)
  then have "unat (d_address d) + unat (ucast done' :: u64) < 2 ^ 64"
    using assms(1,2) by (simp add: in_ram_def unat_ucast_up)
  then show ?thesis using unat_add_no_wrap [of "d_address d" "ucast done'"] by (simp add: unat_ucast_up)
qed

text \<open>The bytes \<open>p ..< p + n\<close> of the serial, padded with spaces.\<close>

definition padded_serial :: "nat \<Rightarrow> nat \<Rightarrow> bytes" where
  "padded_serial p n = map (\<lambda>i. if i < length BLK_SERIAL then BLK_SERIAL ! i else 0x20) [p..<p + n]"

lemma length_padded_serial [simp]: "length (padded_serial p n) = n"
  by (simp add: padded_serial_def)

lemma padded_serial_add: "padded_serial p (n + k) = padded_serial p n @ padded_serial (p + n) k"
  unfolding padded_serial_def add.assoc [symmetric] upt_add_eq_append [OF le_add1 [of p n]] map_append ..

lemma serial_buffer_eq: "serial_buffer p n = padded_serial p n"
proof (rule nth_equalityI)
  show len: "length (serial_buffer p n) = length (padded_serial p n)"
    by (simp add: serial_buffer_def Let_def)
  fix i
  assume "i < length (serial_buffer p n)"
  then have i: "i < n" using len by simp
  show "serial_buffer p n ! i = padded_serial p n ! i"
  proof (cases "p < length BLK_SERIAL")
    case False
    with i show ?thesis by (simp add: serial_buffer_def padded_serial_def)
  next
    case True
    define k where "k = min (length BLK_SERIAL - p) n"
    have "serial_buffer p n = splice 0 (slice p k BLK_SERIAL) (replicate n 0x20)"
      using True by (simp add: serial_buffer_def Let_def k_def)
    with True i show ?thesis
      by (auto simp: nth_splice nth_slice padded_serial_def k_def)
  qed
qed

lemma padded_serial_tail: "length BLK_SERIAL \<le> p \<Longrightarrow> padded_serial p n = replicate n 0x20"
  by (rule nth_equalityI) (auto simp: padded_serial_def)

lemma length_BLK_SERIAL: "length BLK_SERIAL = 18"
  by (simp add: BLK_SERIAL_def)

lemma total_bytes_simps [simp]:
  "total_bytes [] = 0" "total_bytes (d # ds) = unat (d_length d) + total_bytes ds"
  by (simp_all add: total_bytes_def)

lemma length_scatter:
  "(\<forall>d \<in> set ds. in_ram (length r) d) \<Longrightarrow> total_bytes ds \<le> length src \<Longrightarrow>
    length (scatter ds src r) = length r"
  by (induction ds arbitrary: src r) (auto simp: in_ram_def)

lemma take_slice: "k \<le> n \<Longrightarrow> take k (slice a n xs) = slice a k xs"
  by (simp add: slice_def min_absorb1)

lemma drop_slice: "drop k (slice a n xs) = slice (a + k) (n - k) xs"
  by (simp add: slice_def drop_take add.commute)

locale blk_env = guest_memory mops ram inv + block_backend bops disk binv
  for mops :: "'m guest_mem_ops" and ram inv and bops :: "'b block_backend_ops" and disk binv
begin

lemma disk_lt: "binv b \<Longrightarrow> length (disk b) < 2 ^ 64"
  using unat_bound [of "bb_length bops b"] by (simp add: disk_size)

lemma copy_from_desc_ok:
  assumes "inv m" "binv b" "in_ram (length (ram m)) d" "done' \<le> d_length d"
    "unat off + (unat (d_length d) - unat done') \<le> length (disk b)"
  shows "\<exists>m' b'. copy_from_desc mops bops d done' off (m, b)
      = (Inr (off + of_nat (unat (d_length d) - unat done')), m', b')
    \<and> inv m' \<and> binv b' \<and> disk b' = disk b
    \<and> ram m' = splice (unat (d_address d) + unat done')
        (slice (unat off) (unat (d_length d) - unat done') (disk b)) (ram m)"
  using assms
proof (induction "unat (d_length d) - unat done'" arbitrary: done' off m b rule: less_induct)
  case less
  define n where "n = unat (d_length d) - unat done'"
  show ?case
  proof (cases "done' < d_length d")
    case False
    with less.prems have "done' = d_length d" by simp
    with less.prems show ?thesis by (simp add: copy_from_desc.simps)
  next
    case True
    define k where "k = chunk_step d done'"
    note pr = chunk_step_progress [OF True, folded k_def]
    define a where "a = unat (d_address d) + unat done'"
    have a: "unat (d_address d + ucast done') = a"
      using in_ram_offset [OF less.prems(3) ram_lt [OF less.prems(1)] True] by (simp add: a_def)
    have kn: "k \<le> n" "a + n \<le> length (ram m)" "unat off + n \<le> length (disk b)"
      using pr less.prems(3,5) by (auto simp: n_def a_def in_ram_def)
    obtain b1 where b1: "bb_read_at bops b off k = (Inr (slice (unat off) k (disk b)), b1)"
      "binv b1" "disk b1 = disk b"
      using read_at_in [OF less.prems(2), of off k] kn by auto
    have len: "length (slice (unat off) k (disk b)) = k" using kn by simp
    obtain m1 where m1: "gm_write mops m (d_address d + ucast done') (slice (unat off) k (disk b)) = (Inr (), m1)"
      "inv m1" "ram m1 = splice a (slice (unat off) k (disk b)) (ram m)"
      using write_in [OF less.prems(1), of "d_address d + ucast done'" "slice (unat off) k (disk b)"] kn a len
      by auto
    have off: "unat (off + of_nat k) = unat off + k"
      using unat_add_of_nat [of off k] kn disk_lt [OF less.prems(2)] by simp
    have step: "copy_from_desc mops bops d done' off (m, b)
        = copy_from_desc mops bops d (done' + of_nat k) (off + of_nat k) (m1, b1)"
      using True b1(1) m1(1) by (simp add: copy_from_desc.simps [of mops bops d done'] k_def Let_def)
    have lr: "length (ram m1) = length (ram m)" using m1(3) kn len by simp
    have rest: "unat (d_length d) - unat (done' + of_nat k) = n - k" using pr by (simp add: n_def)
    have "\<exists>m' b'. copy_from_desc mops bops d (done' + of_nat k) (off + of_nat k) (m1, b1)
        = (Inr (off + of_nat k + of_nat (n - k)), m', b') \<and> inv m' \<and> binv b' \<and> disk b' = disk b1
        \<and> ram m' = splice (a + k) (slice (unat off + k) (n - k) (disk b1)) (ram m1)"
      using less.hyps [of "done' + of_nat k" m1 b1 "off + of_nat k"] pr rest m1(2) b1 lr less.prems(3) kn off True
      by (simp add: a_def n_def word_le_nat_alt word_less_nat_alt add.assoc)
    moreover have "splice (a + k) (slice (unat off + k) (n - k) (disk b)) (ram m1)
        = splice a (slice (unat off) n (disk b)) (ram m)"
      using splice_append [of a "slice (unat off) k (disk b)" "slice (unat off + k) (n - k) (disk b)" "ram m"]
        slice_append [of "unat off" k "n - k" "disk b"] kn m1(3) len by simp
    moreover have "off + of_nat k + of_nat (n - k) = off + of_nat n" using kn(1) by simp
    ultimately show ?thesis using b1(3) by (auto simp: step n_def [symmetric] a_def [symmetric])
  qed
qed

lemma copy_from_segments_ok:
  assumes "inv m" "binv b" "\<forall>d \<in> set ds. in_ram (length (ram m)) d"
    "unat off + total_bytes ds \<le> length (disk b)"
  shows "\<exists>m' b'. copy_from_segments mops bops ds off (m, b) = (Inr (), m', b')
    \<and> inv m' \<and> binv b' \<and> disk b' = disk b
    \<and> ram m' = scatter ds (slice (unat off) (total_bytes ds) (disk b)) (ram m)"
  using assms
proof (induction ds arbitrary: off m b)
  case (Cons d ds)
  define n where "n = unat (d_length d)"
  have n: "unat off + n + total_bytes ds \<le> length (disk b)" using Cons.prems by (simp add: n_def)
  obtain m1 b1 where c: "copy_from_desc mops bops d 0 off (m, b) = (Inr (off + of_nat n), m1, b1)"
    "inv m1" "binv b1" "disk b1 = disk b"
    "ram m1 = splice (unat (d_address d)) (slice (unat off) n (disk b)) (ram m)"
    using copy_from_desc_ok [of m b d 0 off] Cons.prems by (auto simp: n_def)
  have off: "unat (off + of_nat n) = unat off + n"
    using unat_add_of_nat [of off n] n disk_lt [OF Cons.prems(2)] by simp
  have lr: "length (ram m1) = length (ram m)" using c(5) Cons.prems(3) n by (simp add: in_ram_def n_def)
  have "\<exists>m' b'. copy_from_segments mops bops ds (off + of_nat n) (m1, b1) = (Inr (), m', b')
    \<and> inv m' \<and> binv b' \<and> disk b' = disk b
    \<and> ram m' = scatter ds (slice (unat off + n) (total_bytes ds) (disk b)) (ram m1)"
    using Cons.IH [of m1 b1 "off + of_nat n"] c(2-4) n off lr Cons.prems(3) by simp
  then show ?case
    using c(1,5) by (auto simp: take_slice drop_slice n_def [symmetric])
qed simp

lemma copy_to_desc_ok:
  assumes "inv m" "binv b" "in_ram (length (ram m)) d" "done' \<le> d_length d"
    "unat off + (unat (d_length d) - unat done') \<le> length (disk b)"
  shows "\<exists>b'. copy_to_desc mops bops m d done' off b = (Inr (off + of_nat (unat (d_length d) - unat done')), b')
    \<and> binv b' \<and> disk b' = splice (unat off)
        (slice (unat (d_address d) + unat done') (unat (d_length d) - unat done') (ram m)) (disk b)"
  using assms(2,4,5)
proof (induction "unat (d_length d) - unat done'" arbitrary: done' off b rule: less_induct)
  case less
  define n where "n = unat (d_length d) - unat done'"
  show ?case
  proof (cases "done' < d_length d")
    case False
    with less.prems have "done' = d_length d" by simp
    with less.prems show ?thesis by (simp add: copy_to_desc.simps)
  next
    case True
    define k where "k = chunk_step d done'"
    note pr = chunk_step_progress [OF True, folded k_def]
    define a where "a = unat (d_address d) + unat done'"
    have a: "unat (d_address d + ucast done') = a"
      using in_ram_offset [OF assms(3) ram_lt [OF assms(1)] True] by (simp add: a_def)
    have kn: "k \<le> n" "a + n \<le> length (ram m)" "unat off + n \<le> length (disk b)"
      using pr assms(3) less.prems(3) by (auto simp: n_def a_def in_ram_def)
    have rd: "gm_read mops m (d_address d + ucast done') k = Inr (slice a k (ram m))"
      using read_in [OF assms(1), of "d_address d + ucast done'" k] kn a by simp
    have len: "length (slice a k (ram m)) = k" using kn by simp
    obtain b1 where b1: "bb_write_at bops b off (slice a k (ram m)) = (Inr (), b1)"
      "binv b1" "disk b1 = splice (unat off) (slice a k (ram m)) (disk b)"
      using write_at_in [OF less.prems(1), of off "slice a k (ram m)"] kn len by auto
    have ld: "length (disk b1) = length (disk b)" using b1(3) kn len by simp
    have off: "unat (off + of_nat k) = unat off + k"
      using unat_add_of_nat [of off k] kn disk_lt [OF less.prems(1)] by simp
    have step: "copy_to_desc mops bops m d done' off b
        = copy_to_desc mops bops m d (done' + of_nat k) (off + of_nat k) b1"
      using True rd b1(1) by (simp add: copy_to_desc.simps [of mops bops m d done'] k_def Let_def)
    have rest: "unat (d_length d) - unat (done' + of_nat k) = n - k" using pr by (simp add: n_def)
    have "\<exists>b'. copy_to_desc mops bops m d (done' + of_nat k) (off + of_nat k) b1
        = (Inr (off + of_nat k + of_nat (n - k)), b') \<and> binv b'
        \<and> disk b' = splice (unat off + k) (slice (a + k) (n - k) (ram m)) (disk b1)"
      using less.hyps [of "done' + of_nat k" b1 "off + of_nat k"] pr rest b1(2) ld kn off True
      by (simp add: a_def n_def word_le_nat_alt word_less_nat_alt add.assoc)
    moreover have "splice (unat off + k) (slice (a + k) (n - k) (ram m)) (disk b1)
        = splice (unat off) (slice a n (ram m)) (disk b)"
      using splice_append [of "unat off" "slice a k (ram m)" "slice (a + k) (n - k) (ram m)" "disk b"]
        slice_append [of a k "n - k" "ram m"] kn b1(3) len by simp
    moreover have "off + of_nat k + of_nat (n - k) = off + of_nat n" using kn(1) by simp
    ultimately show ?thesis by (auto simp: step n_def [symmetric] a_def [symmetric])
  qed
qed

lemma copy_to_segments_ok:
  assumes "inv m" "binv b" "\<forall>d \<in> set ds. in_ram (length (ram m)) d"
    "unat off + total_bytes ds \<le> length (disk b)"
  shows "\<exists>b'. copy_to_segments mops bops m ds off b = (Inr (), b') \<and> binv b'
    \<and> disk b' = splice (unat off) (gather ds (ram m)) (disk b)"
  using assms(2-4)
proof (induction ds arbitrary: off b)
  case Nil
  then show ?case by (simp add: gather_def)
next
  case (Cons d ds)
  define n where "n = unat (d_length d)"
  define x where "x = slice (unat (d_address d)) n (ram m)"
  have n: "unat off + n + total_bytes ds \<le> length (disk b)" using Cons.prems by (simp add: n_def)
  have x: "length x = n" using Cons.prems(2) by (simp add: x_def n_def in_ram_def)
  have g: "length (gather ds (ram m)) = total_bytes ds"
    using Cons.prems(2) by (simp add: gather_def total_bytes_def length_concat in_ram_def o_def cong: map_cong)
  obtain b1 where c: "copy_to_desc mops bops m d 0 off b = (Inr (off + of_nat n), b1)"
    "binv b1" "disk b1 = splice (unat off) x (disk b)"
    using copy_to_desc_ok [OF assms(1) Cons.prems(1), of d 0 off] Cons.prems by (auto simp: n_def x_def)
  have off: "unat (off + of_nat n) = unat off + n"
    using unat_add_of_nat [of off n] n disk_lt [OF Cons.prems(1)] by simp
  have ld: "length (disk b1) = length (disk b)" using c(3) n x by simp
  have "\<exists>b'. copy_to_segments mops bops m ds (off + of_nat n) b1 = (Inr (), b') \<and> binv b'
    \<and> disk b' = splice (unat off + n) (gather ds (ram m)) (disk b1)"
    using Cons.IH [of b1 "off + of_nat n"] c(2) n off ld Cons.prems(2) by simp
  moreover have "splice (unat off + n) (gather ds (ram m)) (disk b1)
      = splice (unat off) (gather (d # ds) (ram m)) (disk b)"
    using splice_append [of "unat off" x "gather ds (ram m)" "disk b"] n x g c(3)
    by (simp add: gather_def x_def n_def)
  ultimately show ?case using c(1) by auto
qed

end

section \<open>The serial\<close>

context blk_env
begin

text \<open>
  The loop adds \<open>done\<close> to a counter that already includes it, so from the second chunk of a segment
  on the position it computes is too large. The first chunk is longer than the serial, so both
  positions lie in the padding.
\<close>

lemma serial_desc_ok:
  assumes "inv m" "in_ram (length (ram m)) d" "done' \<le> d_length d" "unat done' \<le> written"
    "done' = 0 \<or> length BLK_SERIAL \<le> unat done'"
  shows "\<exists>m'. serial_desc mops d done' written m = (Inr (written + (unat (d_length d) - unat done')), m')
    \<and> inv m' \<and> ram m' = splice (unat (d_address d) + unat done')
        (padded_serial written (unat (d_length d) - unat done')) (ram m)"
  using assms
proof (induction "unat (d_length d) - unat done'" arbitrary: done' written m rule: less_induct)
  case less
  define n where "n = unat (d_length d) - unat done'"
  show ?case
  proof (cases "done' < d_length d")
    case False
    with less.prems have "done' = d_length d" by simp
    with less.prems show ?thesis by (simp add: serial_desc.simps padded_serial_def)
  next
    case True
    define k where "k = chunk_step d done'"
    note pr = chunk_step_progress [OF True, folded k_def]
    define a where "a = unat (d_address d) + unat done'"
    have a: "unat (d_address d + ucast done') = a"
      using in_ram_offset [OF less.prems(2) ram_lt [OF less.prems(1)] True] by (simp add: a_def)
    have kn: "k \<le> n" "a + n \<le> length (ram m)"
      using pr less.prems(2) by (auto simp: n_def a_def in_ram_def)
    have buf: "serial_buffer (written + unat done') k = padded_serial written k"
      using less.prems(4,5) by (auto simp: serial_buffer_eq padded_serial_tail)
    obtain m1 where m1: "gm_write mops m (d_address d + ucast done') (padded_serial written k) = (Inr (), m1)"
      "inv m1" "ram m1 = splice a (padded_serial written k) (ram m)"
      using write_in [OF less.prems(1), of "d_address d + ucast done'" "padded_serial written k"] kn a by auto
    have step: "serial_desc mops d done' written m = serial_desc mops d (done' + of_nat k) (written + k) m1"
      using True buf m1(1) by (simp add: serial_desc.simps [of mops d done'] k_def Let_def)
    have lr: "length (ram m1) = length (ram m)" using m1(3) kn by simp
    have rest: "unat (d_length d) - unat (done' + of_nat k) = n - k" using pr by (simp add: n_def)
    have IH: "\<exists>m'. serial_desc mops d (done' + of_nat k) (written + k) m1 = (Inr (written + k + (n - k)), m')
        \<and> inv m' \<and> ram m' = splice (a + k) (padded_serial (written + k) (n - k)) (ram m1)"
    proof (cases "unat (done' + of_nat k) < unat (d_length d)")
      case False
      then have "done' + of_nat k = d_length d" "n = k" using pr kn rest by (auto simp: word_unat_eq_iff n_def)
      then show ?thesis using m1(2) by (simp add: serial_desc.simps padded_serial_def)
    next
      case more: True
      then have "k = TRANSFER_CHUNK_BYTES" using pr by (auto simp: k_def chunk_step_def)
      then have "length BLK_SERIAL \<le> unat (done' + of_nat k)"
        using pr by (simp add: TRANSFER_CHUNK_BYTES_def length_BLK_SERIAL)
      then show ?thesis
        using less.hyps [of "done' + of_nat k" m1 "written + k"] pr rest m1(2) lr less.prems True more
        by (simp add: a_def n_def word_le_nat_alt word_less_nat_alt add.assoc)
    qed
    moreover have "splice (a + k) (padded_serial (written + k) (n - k)) (ram m1)
        = splice a (padded_serial written n) (ram m)"
      using splice_append [of a "padded_serial written k" "padded_serial (written + k) (n - k)" "ram m"]
        padded_serial_add [of written k "n - k"] kn m1(3) by simp
    ultimately show ?thesis using kn(1) by (auto simp: step n_def [symmetric] a_def [symmetric])
  qed
qed

lemma serial_segments_ok:
  assumes "inv m" "\<forall>d \<in> set ds. in_ram (length (ram m)) d"
  shows "\<exists>m'. serial_segments mops ds written m = (Inr (), m') \<and> inv m'
    \<and> ram m' = scatter ds (padded_serial written (total_bytes ds)) (ram m)"
  using assms
proof (induction ds arbitrary: written m)
  case (Cons d ds)
  define n where "n = unat (d_length d)"
  obtain m1 where c: "serial_desc mops d 0 written m = (Inr (written + n), m1)" "inv m1"
    "ram m1 = splice (unat (d_address d)) (padded_serial written n) (ram m)"
    using serial_desc_ok [of m d 0 written] Cons.prems by (auto simp: n_def)
  have lr: "length (ram m1) = length (ram m)" using c(3) Cons.prems(2) by (simp add: in_ram_def n_def)
  have "\<exists>m'. serial_segments mops ds (written + n) m1 = (Inr (), m') \<and> inv m'
    \<and> ram m' = scatter ds (padded_serial (written + n) (total_bytes ds)) (ram m1)"
    using Cons.IH [of m1 "written + n"] c(2) lr Cons.prems(2) by simp
  then show ?case
    using c(1,3) padded_serial_add [of written n "total_bytes ds"] by (auto simp: n_def [symmetric])
qed simp

end

section \<open>What a request does\<close>

text \<open>
  The specification of phase two, on the bytes of RAM and disk: the length published in the used
  ring, RAM and disk after the request.
\<close>

definition range_ok :: "blk_request \<Rightarrow> bytes \<Rightarrow> bool" where
  "range_ok rq dk \<longleftrightarrow> unat (rq_sector rq) * 512 + rq_total rq \<le> length dk"

definition put_status :: "blk_request \<Rightarrow> u8 \<Rightarrow> bytes \<Rightarrow> bytes" where
  "put_status rq byte r = splice (unat (d_address (rq_status rq))) [byte] r"

definition blk_effect :: "blk_request \<Rightarrow> bytes \<Rightarrow> bytes \<Rightarrow> u32 \<times> bytes \<times> bytes" where
  "blk_effect rq r dk =
     (if rq_type rq \<in> {REQ_IN, REQ_OUT} \<and> \<not> range_ok rq dk then (1, put_status rq 1 r, dk)
      else if rq_type rq = REQ_IN then
        (written_len rq,
         put_status rq 0 (scatter (rq_data rq) (slice (unat (rq_sector rq) * 512) (rq_total rq) dk) r), dk)
      else if rq_type rq = REQ_OUT then
        (1, put_status rq 0 r, splice (unat (rq_sector rq) * 512) (gather (rq_data rq) r) dk)
      else if rq_type rq = REQ_GET_ID then
        (written_len rq, put_status rq 0 (scatter (rq_data rq) (padded_serial 0 (rq_total rq)) r), dk)
      else (1, put_status rq 2 r, dk))"

text \<open>What phase one guarantees of a request it accepts.\<close>

definition request_wf :: "nat \<Rightarrow> blk_request \<Rightarrow> bool" where
  "request_wf n rq \<longleftrightarrow> (\<forall>d \<in> set (rq_data rq). in_ram n d) \<and> in_ram n (rq_status rq)
   \<and> 1 \<le> d_length (rq_status rq) \<and> device_writable (rq_status rq)
   \<and> rq_total rq = total_bytes (rq_data rq) \<and> length (rq_data rq) \<le> 62
   \<and> (rq_type rq \<in> {REQ_IN, REQ_GET_ID} \<longrightarrow> (\<forall>d \<in> set (rq_data rq). device_writable d))
   \<and> (rq_type rq = REQ_OUT \<longrightarrow> (\<forall>d \<in> set (rq_data rq). \<not> device_writable d))
   \<and> (rq_type rq \<in> {REQ_IN, REQ_OUT} \<longrightarrow> rq_total rq mod 512 = 0)"

lemma total_bytes_bound: "length ds \<le> k \<Longrightarrow> total_bytes ds \<le> k * 2 ^ 32"
proof (induction ds arbitrary: k)
  case (Cons d ds)
  then obtain j where "k = Suc j" "length ds \<le> j" by (cases k) auto
  with Cons.IH [of j] unat_bound [of "d_length d"] show ?case by simp
qed simp

definition blk_cap_ok :: "('b \<Rightarrow> bytes) \<Rightarrow> ('b \<Rightarrow> bool) \<Rightarrow> 'b virtio_blk \<Rightarrow> bool" where
  "blk_cap_ok disk binv d \<longleftrightarrow>
     binv (blk_backend d) \<and> unat (blk_capacity_sectors d) * 512 = length (disk (blk_backend d))"

context blk_env
begin

lemma blk_parse_wf:
  assumes "inv m" "rings_fit q (length (ram m))" "blk_parse mops m q head = Inr rq"
  shows "request_wf (length (ram m)) rq"
proof -
  obtain ds where ds: "validated_chain mops m q head MAX_CHAIN_DESCRIPTORS = Inr ds"
    using assms(3) by (auto simp: blk_parse_def bind_res_eq_Inr)
  have len: "3 \<le> length ds" using assms(3) ds by (auto simp: blk_parse_def split: if_splits)
  have ram: "\<forall>d \<in> set ds. in_ram (length (ram m)) d" and le: "length ds \<le> 64"
    using ds unfolding validated_chain_iff [OF assms(1,2)]
    by (auto simp: in_ram_def MAX_CHAIN_DESCRIPTORS_def dest: chain_path_length)
  have st: "ds ! (length ds - 1) \<in> set ds" using len by (intro nth_mem) simp
  have data: "set (slice 1 (length ds - 2) ds) \<subseteq> set ds"
    by (auto simp: slice_def dest: in_set_takeD in_set_dropD)
  show ?thesis
    using assms(3) ds ram st data le len
    by (auto simp: blk_parse_def bind_res_eq_Inr Let_def request_wf_def VIRTIO_BLK_SECTOR_SIZE_def
        not_less word_less_nat_alt word_le_nat_alt split: if_splits)
qed

lemma checked_range_ok:
  assumes "request_wf n rq" "blk_cap_ok disk binv d"
  shows "checked_range d (rq_sector rq) (rq_total rq) =
    Inr (if range_ok rq (disk (blk_backend d)) then Some (of_nat (unat (rq_sector rq) * 512 + rq_total rq))
         else None)"
proof -
  have "rq_total rq \<le> 62 * 2 ^ 32"
    using assms(1) total_bytes_bound [of "rq_data rq" 62] by (simp add: request_wf_def)
  then have "unat (rq_sector rq) * 512 + rq_total rq < 2 ^ 128"
    using unat_bound [of "rq_sector rq"] by simp
  with assms(2) show ?thesis
    by (simp add: checked_range_def Let_def VIRTIO_BLK_SECTOR_SIZE_def range_ok_def blk_cap_ok_def)
qed

lemma blk_finish_ok:
  assumes "inv m" "request_wf (length (ram m)) rq"
  shows "\<exists>m'. blk_finish mops rq byte len (m, d) = (Inr len, m', d) \<and> inv m'
    \<and> ram m' = put_status rq byte (ram m)"
proof -
  have "unat (d_address (rq_status rq)) + length [byte] \<le> length (ram m)"
    using assms(2) by (auto simp: request_wf_def in_ram_def word_le_nat_alt)
  from write_in [OF assms(1) this] show ?thesis
    by (auto simp: blk_finish_def write_status_def put_status_def)
qed

lemma sector_offset:
  assumes "range_ok rq (disk b)" "binv b"
  shows "unat (rq_sector rq * 512) = unat (rq_sector rq) * 512"
  using assms disk_lt [of b] unat_mult_no_wrap [of "rq_sector rq" 512] by (simp add: range_ok_def)

lemma blk_execute_in:
  assumes "inv m" "request_wf (length (ram m)) rq" "blk_cap_ok disk binv d" "rq_type rq = REQ_IN"
    "range_ok rq (disk (blk_backend d))"
  shows "\<exists>m' b'. blk_execute mops bops rq (m, d) = (Inr (written_len rq), m', d\<lparr>blk_backend := b'\<rparr>)
    \<and> inv m' \<and> binv b' \<and> disk b' = disk (blk_backend d)
    \<and> ram m' = put_status rq 0 (scatter (rq_data rq)
        (slice (unat (rq_sector rq) * 512) (rq_total rq) (disk (blk_backend d))) (ram m))"
proof -
  have wf: "binv (blk_backend d)" "\<forall>x \<in> set (rq_data rq). in_ram (length (ram m)) x"
    "rq_total rq = total_bytes (rq_data rq)"
    using assms(2,3) by (auto simp: blk_cap_ok_def request_wf_def)
  have off: "unat (rq_sector rq * 512) = unat (rq_sector rq) * 512"
    using sector_offset assms(5) wf(1) by blast
  obtain m1 b1 where c: "copy_from_segments mops bops (rq_data rq) (rq_sector rq * 512) (m, blk_backend d)
      = (Inr (), m1, b1)" "inv m1" "binv b1" "disk b1 = disk (blk_backend d)"
    "ram m1 = scatter (rq_data rq) (slice (unat (rq_sector rq) * 512) (rq_total rq) (disk (blk_backend d))) (ram m)"
    using copy_from_segments_ok [of m "blk_backend d" "rq_data rq" "rq_sector rq * 512"] assms(1,5) wf off
    by (auto simp: range_ok_def)
  have "length (ram m1) = length (ram m)"
    using c(5) assms(5) wf by (simp add: length_scatter range_ok_def)
  with assms(2) have "request_wf (length (ram m1)) rq" by simp
  from blk_finish_ok [OF c(2) this] obtain m2 where
    "blk_finish mops rq 0 (written_len rq) (m1, d\<lparr>blk_backend := b1\<rparr>)
      = (Inr (written_len rq), m2, d\<lparr>blk_backend := b1\<rparr>)" "inv m2" "ram m2 = put_status rq 0 (ram m1)"
    by blast
  then show ?thesis
    using assms c checked_range_ok [OF assms(2,3)]
    by (auto simp: blk_execute_def STATUS_BYTE_OK_def)
qed

lemma blk_execute_out:
  assumes "inv m" "request_wf (length (ram m)) rq" "blk_cap_ok disk binv d" "rq_type rq = REQ_OUT"
    "range_ok rq (disk (blk_backend d))"
  shows "\<exists>m' b'. blk_execute mops bops rq (m, d) = (Inr 1, m', d\<lparr>blk_backend := b'\<rparr>)
    \<and> inv m' \<and> binv b' \<and> ram m' = put_status rq 0 (ram m)
    \<and> disk b' = splice (unat (rq_sector rq) * 512) (gather (rq_data rq) (ram m)) (disk (blk_backend d))"
proof -
  have wf: "binv (blk_backend d)" "\<forall>x \<in> set (rq_data rq). in_ram (length (ram m)) x"
    "rq_total rq = total_bytes (rq_data rq)"
    using assms(2,3) by (auto simp: blk_cap_ok_def request_wf_def)
  have off: "unat (rq_sector rq * 512) = unat (rq_sector rq) * 512"
    using sector_offset assms(5) wf(1) by blast
  obtain b1 where c: "copy_to_segments mops bops m (rq_data rq) (rq_sector rq * 512) (blk_backend d) = (Inr (), b1)"
    "binv b1" "disk b1 = splice (unat (rq_sector rq) * 512) (gather (rq_data rq) (ram m)) (disk (blk_backend d))"
    using copy_to_segments_ok [of m "blk_backend d" "rq_data rq" "rq_sector rq * 512"] assms(1,5) wf off
    by (auto simp: range_ok_def)
  have len: "written_len rq = 1" using assms(4) by (simp add: written_len_def)
  from blk_finish_ok [OF assms(1,2)] obtain m2 where
    "blk_finish mops rq 0 1 (m, d\<lparr>blk_backend := b1\<rparr>) = (Inr 1, m2, d\<lparr>blk_backend := b1\<rparr>)" "inv m2"
    "ram m2 = put_status rq 0 (ram m)" by blast
  then show ?thesis
    using assms c len checked_range_ok [OF assms(2,3)]
    by (auto simp: blk_execute_def STATUS_BYTE_OK_def REQ_IN_def REQ_OUT_def)
qed

lemma blk_execute_get_id:
  assumes "inv m" "request_wf (length (ram m)) rq" "rq_type rq = REQ_GET_ID"
  shows "\<exists>m'. blk_execute mops bops rq (m, d) = (Inr (written_len rq), m', d) \<and> inv m'
    \<and> ram m' = put_status rq 0 (scatter (rq_data rq) (padded_serial 0 (rq_total rq)) (ram m))"
proof -
  have wf: "\<forall>x \<in> set (rq_data rq). in_ram (length (ram m)) x" "rq_total rq = total_bytes (rq_data rq)"
    using assms(2) by (auto simp: request_wf_def)
  obtain m1 where c: "write_serial mops (rq_data rq) m = (Inr (), m1)" "inv m1"
    "ram m1 = scatter (rq_data rq) (padded_serial 0 (rq_total rq)) (ram m)"
    using serial_segments_ok [OF assms(1) wf(1), of 0] wf(2) by (auto simp: write_serial_def)
  have "length (ram m1) = length (ram m)" using c(3) wf by (simp add: length_scatter)
  with assms(2) have "request_wf (length (ram m1)) rq" by simp
  from blk_finish_ok [OF c(2) this] obtain m2 where
    "blk_finish mops rq 0 (written_len rq) (m1, d) = (Inr (written_len rq), m2, d)" "inv m2"
    "ram m2 = put_status rq 0 (ram m1)" by blast
  then show ?thesis
    using assms c by (auto simp: blk_execute_def STATUS_BYTE_OK_def REQ_IN_def REQ_OUT_def REQ_GET_ID_def)
qed

lemma blk_execute_refines:
  assumes "inv m" "request_wf (length (ram m)) rq" "blk_cap_ok disk binv d"
  shows "\<exists>len m' b'. blk_execute mops bops rq (m, d) = (Inr len, m', d\<lparr>blk_backend := b'\<rparr>)
    \<and> inv m' \<and> binv b' \<and> blk_effect rq (ram m) (disk (blk_backend d)) = (len, ram m', disk b')"
proof -
  have b: "binv (blk_backend d)" using assms(3) by (simp add: blk_cap_ok_def)
  have types: "REQ_IN \<noteq> REQ_OUT" "REQ_GET_ID \<noteq> REQ_IN" "REQ_GET_ID \<noteq> REQ_OUT"
    by (simp_all add: REQ_IN_def REQ_OUT_def REQ_GET_ID_def)
  have fin: ?thesis if "blk_execute mops bops rq (m, d) = (Inr len, m', d)" "inv m'"
    "blk_effect rq (ram m) (disk (blk_backend d)) = (len, ram m', disk (blk_backend d))" for len m'
    using that b by (intro exI [of _ len] exI [of _ m'] exI [of _ "blk_backend d"]) simp
  consider (err) "rq_type rq \<in> {REQ_IN, REQ_OUT}" "\<not> range_ok rq (disk (blk_backend d))"
    | (rd) "rq_type rq = REQ_IN" "range_ok rq (disk (blk_backend d))"
    | (wr) "rq_type rq = REQ_OUT" "range_ok rq (disk (blk_backend d))"
    | (ident) "rq_type rq = REQ_GET_ID"
    | (unsupp) "rq_type rq \<notin> {REQ_IN, REQ_OUT, REQ_GET_ID}" by blast
  then show ?thesis
  proof cases
    case err
    then have "blk_execute mops bops rq (m, d) = blk_finish mops rq 1 1 (m, d)"
      using checked_range_ok [OF assms(2,3)] by (auto simp: blk_execute_def STATUS_BYTE_IOERR_def)
    with err blk_finish_ok [OF assms(1,2), of 1 1 d] fin show ?thesis
      by (auto simp: blk_effect_def)
  next
    case rd
    with blk_execute_in [OF assms] b show ?thesis by (fastforce simp: blk_effect_def)
  next
    case wr
    with blk_execute_out [OF assms] types show ?thesis by (fastforce simp: blk_effect_def)
  next
    case ident
    obtain m' where "blk_execute mops bops rq (m, d) = (Inr (written_len rq), m', d)" "inv m'"
      "ram m' = put_status rq 0 (scatter (rq_data rq) (padded_serial 0 (rq_total rq)) (ram m))"
      using blk_execute_get_id [OF assms(1,2) ident, of d] by blast
    with ident types show ?thesis by (intro fin [of "written_len rq" m']) (simp_all add: blk_effect_def)
  next
    case unsupp
    then have "blk_execute mops bops rq (m, d) = blk_finish mops rq 2 1 (m, d)"
      by (simp add: blk_execute_def STATUS_BYTE_UNSUPP_def)
    with unsupp blk_finish_ok [OF assms(1,2), of 2 1 d] fin show ?thesis
      by (auto simp: blk_effect_def)
  qed
qed

end

end
