(* ===== verification/Virtio_Block_Correct.thy ===== *)
theory Virtio_Block_Correct
  imports Virtio_Block
begin

text \<open>
  Correctness of the block device: requests, the kick handler, the register file. Properties are
  stated over the memory adapter of the emulator (\<open>device_mem_ops\<close>) and over every backend that meets
  the contract \<open>block_backend\<close>; the in-memory backend of the source meets it, and the file backend
  does under the documented behaviour of positioned file I/O.
\<close>

interpretation dvb: blk_env device_mem_ops dm_ram dm_inv vec_backend_ops vec_bytes vec_inv
  by unfold_locales

lemma blk_envI: "block_backend bops disk binv \<Longrightarrow> blk_env device_mem_ops dm_ram dm_inv bops disk binv"
  by (intro blk_env.intro dm.guest_memory_axioms)

section \<open>The two ways through the kick handler\<close>

definition blk_may_serve :: "'b virtio_blk \<Rightarrow> bool" where
  "blk_may_serve d \<longleftrightarrow> blk_kick_pending d \<and> blk_fault d = None \<and> blk_queue_ready d
   \<and> q_size (blk_queue d) \<noteq> 0 \<and> blk_status d AND 4 \<noteq> 0"

definition blk_publish :: "virtio_error + u32 \<Rightarrow> u16 \<Rightarrow> 'b virtio_blk \<Rightarrow> 'b virtio_blk" where
  "blk_publish r l d = (case r of
     Inr completed \<Rightarrow> let d = d\<lparr>blk_last_seen_avail := l\<rparr> in
       if 0 < completed then d\<lparr>blk_irq_status := blk_irq_status d OR 1\<rparr> else d
   | Inl error \<Rightarrow>
       d\<lparr>blk_fault := Some (''virtio-blk stopped servicing: '' @ virtio_error_display error)\<rparr>)"

lemma blk_poll_idle:
  "\<not> blk_may_serve d \<Longrightarrow> blk_poll_kick mops bops (m, d) = (False, m, d\<lparr>blk_kick_pending := False\<rparr>)"
  by (auto simp: blk_poll_kick_def blk_may_serve_def Let_def)

lemma blk_poll_active:
  assumes "blk_may_serve d"
    "drain_available mops (blk_queue (d\<lparr>blk_kick_pending := False\<rparr>)) (process_request mops bops)
      (blk_last_seen_avail (d\<lparr>blk_kick_pending := False\<rparr>)) (m, d\<lparr>blk_kick_pending := False\<rparr>) = (r, l, m1, d1)"
  shows "blk_poll_kick mops bops (m, d)
    = ((case r of Inl _ \<Rightarrow> False | Inr completed \<Rightarrow> 0 < completed), m1, blk_publish r l d1)"
  using assms by (auto simp: blk_poll_kick_def blk_may_serve_def blk_publish_def Let_def split: sum.splits)

section \<open>Requests\<close>

lemma blk_effect_lengths:
  assumes "request_wf (length r) rq" "blk_effect rq r dk = (len, r', dk')"
  shows "length r' = length r \<and> length dk' = length dk"
proof -
  have st: "length (put_status rq b x) = length x" if "length x = length r" for b x
    using assms(1) that by (auto simp: put_status_def request_wf_def in_ram_def word_le_nat_alt)
  have sc: "length (scatter (rq_data rq) src r) = length r" if "rq_total rq \<le> length src" for src
    using assms(1) that by (simp add: length_scatter request_wf_def)
  have g: "length (gather (rq_data rq) r) = rq_total rq"
    using assms(1) by (simp add: request_wf_def gather_def total_bytes_def length_concat in_ram_def o_def cong: map_cong)
  show ?thesis
    using assms(2) st sc g by (auto simp: blk_effect_def range_ok_def split: if_splits)
qed

text \<open>What the drain needs of the closure: memory size, queue and capacity are kept.\<close>

definition blk_keep :: "('b \<Rightarrow> bytes) \<Rightarrow> ('b \<Rightarrow> bool) \<Rightarrow> 'b virtio_blk \<Rightarrow> 'b virtio_blk \<Rightarrow> bool" where
  "blk_keep disk binv d0 d \<longleftrightarrow> blk_cap_ok disk binv d \<and> (\<exists>b. d = d0\<lparr>blk_backend := b\<rparr>)"

context blk_env
begin

lemma process_request_cases:
  assumes "inv m" "rings_fit (blk_queue d) (length (ram m))" "blk_cap_ok disk binv d"
  shows "case blk_parse mops m (blk_queue d) head of
      Inl e \<Rightarrow> process_request mops bops head (m, d) = (Inl e, m, d)
    | Inr rq \<Rightarrow> \<exists>len m' b'. process_request mops bops head (m, d) = (Inr len, m', d\<lparr>blk_backend := b'\<rparr>)
        \<and> inv m' \<and> binv b' \<and> blk_effect rq (ram m) (disk (blk_backend d)) = (len, ram m', disk b')"
proof (cases "blk_parse mops m (blk_queue d) head")
  case (Inl e)
  then show ?thesis by (simp add: process_request_def)
next
  case (Inr rq)
  with blk_execute_refines [OF assms(1) blk_parse_wf [OF assms(1,2) Inr] assms(3)] show ?thesis
    by (simp add: process_request_def)
qed

lemma process_request_keeps:
  assumes "inv m" "length (ram m) = L" "blk_keep disk binv d0 d" "rings_fit (blk_queue d0) L"
    "process_request mops bops head (m, d) = (r, m', d')"
  shows "inv m' \<and> length (ram m') = L \<and> blk_keep disk binv d0 d'"
proof -
  have q: "blk_queue d = blk_queue d0" "blk_capacity_sectors d = blk_capacity_sectors d0"
    using assms(3) by (auto simp: blk_keep_def)
  have cap: "blk_cap_ok disk binv d" using assms(3) by (simp add: blk_keep_def)
  have fit: "rings_fit (blk_queue d) (length (ram m))" using assms(2,4) q by simp
  show ?thesis
  proof (cases "blk_parse mops m (blk_queue d) head")
    case (Inl e)
    with process_request_cases [OF assms(1) fit cap, of head] assms show ?thesis by simp
  next
    case (Inr rq)
    with process_request_cases [OF assms(1) fit cap, of head] assms(5) obtain len b' where
      r: "d' = d\<lparr>blk_backend := b'\<rparr>" "inv m'" "binv b'"
      "blk_effect rq (ram m) (disk (blk_backend d)) = (len, ram m', disk b')"
      by auto
    have "length (ram m') = length (ram m) \<and> length (disk b') = length (disk (blk_backend d))"
      using blk_effect_lengths [OF blk_parse_wf [OF assms(1) fit Inr] r(4)] .
    with r cap assms(2,3) show ?thesis by (auto simp: blk_keep_def blk_cap_ok_def)
  qed
qed

lemma blk_drain:
  assumes "inv m" "blk_keep disk binv d0 d0" "q_size (blk_queue d0) \<noteq> 0"
    "rings_fit (blk_queue d0) (length (ram m))"
    "drain_available mops (blk_queue d0) (process_request mops bops) last_seen (m, d0) = (r, l, m', d')"
  defines "avail \<equiv> avail_idx_of (blk_queue d0) (ram m)"
  shows "inv m' \<and> length (ram m') = length (ram m) \<and> blk_keep disk binv d0 d'
    \<and> (case r of Inl e \<Rightarrow> True | Inr n \<Rightarrow> l = avail \<and> n = ucast (avail - last_seen))"
proof (cases "unat (avail - last_seen) \<le> unat (q_size (blk_queue d0))")
  case False
  with assms(1-5) drain_available_start [OF assms(1,4), of "process_request mops bops" last_seen d0]
  show ?thesis by (auto simp: avail_def)
next
  case True
  then have loop: "drain_loop mops (blk_queue d0) (process_request mops bops) avail last_seen 0 (m, d0)
      = (r, l, m', d')"
    using assms(5) drain_available_start [OF assms(1,4), of "process_request mops bops" last_seen d0]
    by (simp add: avail_def)
  have "inv m' \<and> length (ram m') = length (ram m) \<and> blk_keep disk binv d0 d'
    \<and> (case r of Inl e \<Rightarrow> \<exists>head x s st'. inv x \<and> length (ram x) = length (ram m) \<and> blk_keep disk binv d0 s
           \<and> process_request mops bops head (x, s) = (Inl e, st')
       | Inr n \<Rightarrow> l = avail \<and> n = 0 + ucast (avail - last_seen))"
    by (rule drain_loop_keeps [where J = "blk_keep disk binv d0", OF _ assms(4) disjI1 [OF assms(3)] assms(1) refl assms(2) loop])
      (use process_request_keeps assms(4) in metis)
  then show ?thesis by (simp split: sum.splits)
qed

text \<open>The kick handler on a device that may serve its queue.\<close>

lemma blk_poll_serves:
  assumes "inv m" "blk_cap_ok disk binv d" "blk_may_serve d" "rings_fit (blk_queue d) (length (ram m))"
    "blk_poll_kick mops bops (m, d) = (edge, m', d')"
  defines "avail \<equiv> avail_idx_of (blk_queue d) (ram m)"
  shows "\<not> blk_kick_pending d'
    \<and> (if blk_fault d' = None
       then blk_last_seen_avail d' = avail \<and> (edge \<longleftrightarrow> avail \<noteq> blk_last_seen_avail d)
            \<and> (edge \<longrightarrow> bit (blk_irq_status d') 0)
       else \<not> edge \<and> blk_last_seen_avail d' = blk_last_seen_avail d)"
proof -
  define d0 where "d0 = d\<lparr>blk_kick_pending := False\<rparr>"
  have q: "blk_queue d0 = blk_queue d" "blk_last_seen_avail d0 = blk_last_seen_avail d" "blk_fault d0 = None"
    "\<not> blk_kick_pending d0" "q_size (blk_queue d0) \<noteq> 0"
    using assms(3) by (simp_all add: d0_def blk_may_serve_def)
  have keep0: "blk_keep disk binv d0 d0"
    using assms(2) by (auto simp: blk_keep_def blk_cap_ok_def d0_def intro: exI [of _ "blk_backend d"])
  obtain r l m1 d1 where run: "drain_available mops (blk_queue d0) (process_request mops bops)
      (blk_last_seen_avail d0) (m, d0) = (r, l, m1, d1)" by (rule prod_cases4)
  have k: "blk_keep disk binv d0 d1"
    "r = Inr n \<Longrightarrow> l = avail \<and> n = ucast (avail - blk_last_seen_avail d)" for n
    using blk_drain [OF assms(1) keep0 q(5) _ run] assms(4) q(1,2) by (auto simp: avail_def split: sum.splits)
  have d1: "blk_fault d1 = None" "blk_last_seen_avail d1 = blk_last_seen_avail d" "\<not> blk_kick_pending d1"
    using k(1) q by (auto simp: blk_keep_def)
  have res: "edge = (case r of Inl _ \<Rightarrow> False | Inr completed \<Rightarrow> 0 < completed)" "d' = blk_publish r l d1"
    using assms(5) blk_poll_active [OF assms(3) run [unfolded d0_def]] by simp_all
  show ?thesis
  proof (cases r)
    case (Inl e)
    with res d1 show ?thesis by (simp add: blk_publish_def)
  next
    case (Inr n)
    moreover have "0 < n \<longleftrightarrow> avail \<noteq> blk_last_seen_avail d"
      using k(2) [OF Inr] by (auto simp: word_less_nat_alt unat_ucast_up unat_gt_0)
    ultimately show ?thesis using res k d1
      by (auto simp: blk_publish_def Let_def bit_or_iff bit_1_iff split: if_splits)
  qed
qed

end

section \<open>A request to test with\<close>

text \<open>
  A write request of one sector to sector 0: header at 256, data at 512, status byte at 272, as
  descriptors 0, 1 and 2 of a four-entry ring.
\<close>

definition rq_ram :: bytes where
  "rq_ram =
     to_le 8 (0x100 :: u64) @ to_le 4 (16 :: u32) @ to_le 2 (1 :: u16) @ to_le 2 (1 :: u16)
     @ to_le 8 (0x200 :: u64) @ to_le 4 (512 :: u32) @ to_le 2 (1 :: u16) @ to_le 2 (2 :: u16)
     @ to_le 8 (0x110 :: u64) @ to_le 4 (1 :: u32) @ to_le 2 (2 :: u16) @ to_le 2 (0 :: u16)
     @ replicate 16 0
     @ to_le 2 (0 :: u16) @ to_le 2 (1 :: u16) @ to_le 2 (0 :: u16) @ replicate 186 0
     @ to_le 4 (1 :: u32) @ to_le 4 (0 :: u32) @ to_le 8 (0 :: u64) @ replicate 240 0
     @ replicate 512 7"

definition rq_mem :: device_memory where
  "rq_mem = \<lparr>dm_ram = rq_ram, dm_code_gen = [0], dm_wrote = False\<rparr>"

definition rq_disk :: vec_block_backend where
  "rq_disk = \<lparr>vec_bytes = replicate 1024 0\<rparr>"

definition rq_dev :: "vec_block_backend virtio_blk" where
  "rq_dev = \<lparr>blk_backend = rq_disk, blk_capacity_sectors = 2, blk_status = 15,
     blk_device_feature_sel = 0, blk_driver_feature_sel = 0, blk_driver_features = (0, 1),
     blk_negotiated_features = shl1 32, blk_queue_sel = 0, blk_queue = demo_queue,
     blk_queue_ready = True, blk_irq_status = 0, blk_last_seen_avail = 0,
     blk_kick_pending = True, blk_fault = None\<rparr>"

definition rq_example :: blk_request where
  "rq_example = \<lparr>rq_type = REQ_OUT, rq_sector = 0,
     rq_data = [\<lparr>d_address = 0x200, d_length = 512, d_flags = 1\<rparr>],
     rq_status = \<lparr>d_address = 0x110, d_length = 1, d_flags = 2\<rparr>, rq_total = 512\<rparr>"

lemma length_rq_ram: "length rq_ram = 1024"
  by (simp add: rq_ram_def)

lemma rq_ok: "dm_inv rq_mem" "rings_fit (blk_queue rq_dev) (length (dm_ram rq_mem))"
    "blk_cap_ok vec_bytes vec_inv rq_dev"
  by (simp_all add: rq_mem_def rq_dev_def rq_disk_def dm_inv_def rings_fit_def demo_queue_def
      length_rq_ram blk_cap_ok_def vec_inv_def)

lemma rq_desc:
  "desc_of demo_queue rq_ram 0 = (\<lparr>d_address = 0x100, d_length = 16, d_flags = 1\<rparr>, 1)"
  "desc_of demo_queue rq_ram 1 = (\<lparr>d_address = 0x200, d_length = 512, d_flags = 1\<rparr>, 2)"
  "desc_of demo_queue rq_ram 2 = (\<lparr>d_address = 0x110, d_length = 1, d_flags = 2\<rparr>, 0)"
  by code_simp+

lemma rq_header:
  "(from_le (slice 0 4 (slice 256 16 rq_ram)) :: u32) = 1"
  "(from_le (slice 8 8 (slice 256 16 rq_ram)) :: u64) = 0"
  by code_simp+

lemma rq_parse: "blk_parse device_mem_ops rq_mem (blk_queue rq_dev) 0 = Inr rq_example"
proof -
  define a b c where "a = \<lparr>d_address = 0x100 :: u64, d_length = 16 :: u32, d_flags = 1 :: u16\<rparr>"
    and "b = \<lparr>d_address = 0x200 :: u64, d_length = 512 :: u32, d_flags = 1 :: u16\<rparr>"
    and "c = \<lparr>d_address = 0x110 :: u64, d_length = 1 :: u32, d_flags = 2 :: u16\<rparr>"
  have "chain_path demo_queue rq_ram [2] [c]"
    using chain_path.stop [of 2 demo_queue rq_ram] by (simp add: rq_desc demo_size has_next_def c_def)
  then have "chain_path demo_queue rq_ram [1, 2] [b, c]"
    using chain_path.link [of 1 demo_queue rq_ram "[2]"]
    by (simp add: rq_desc [unfolded One_nat_def] demo_size has_next_def b_def)
  then have "chain_path demo_queue rq_ram [0, 1, 2] [a, b, c]"
    using chain_path.link [of 0 demo_queue rq_ram "[1, 2]"]
    by (simp add: rq_desc demo_size has_next_def a_def)
  then have "validated_chain device_mem_ops rq_mem (blk_queue rq_dev) 0 MAX_CHAIN_DESCRIPTORS = Inr [a, b, c]"
    unfolding dm.validated_chain_iff [OF rq_ok(1,2)]
    by (auto simp: rq_mem_def rq_dev_def length_rq_ram MAX_CHAIN_DESCRIPTORS_def a_def b_def c_def
        intro!: exI [of _ "[0, 1, 2]"])
  moreover have "gm_read device_mem_ops rq_mem 0x100 16 = Inr (slice 256 16 rq_ram)"
    using dm.read_in [OF rq_ok(1), of "0x100" 16] by (simp add: rq_mem_def length_rq_ram)
  moreover have mid: "slice (Suc 0) (Suc 0) [x, y, z] = [y]" for x y z :: descriptor
    by (simp add: slice_def)
  ultimately show ?thesis
    by (simp add: blk_parse_def Let_def HEADER_BYTES_def device_writable_def rq_header rq_example_def
        REQ_IN_def REQ_OUT_def REQ_GET_ID_def VIRTIO_BLK_SECTOR_SIZE_def mid a_def b_def c_def
        word_less_nat_alt)
qed

section \<open>Properties\<close>

text \<open>
  C1: Two-phase contract and functional correctness of a request. Whatever the guest put into its
  rings and chains, a request that fails validation leaves RAM, disk and device exactly as they
  were; a request that passes it completes, never faults midway, and has exactly the effect of the
  specification \<open>blk_effect\<close> on RAM and disk: the chunked copies move whole segments, a range beyond
  the capacity answers IOERR and moves nothing, an unknown type answers UNSUPP.
\<close>

theorem blk_request_refines:
  assumes "block_backend bops disk binv" "dm_inv m" "rings_fit (blk_queue d) (length (dm_ram m))"
    "blk_cap_ok disk binv d"
  shows "case blk_parse device_mem_ops m (blk_queue d) head of
      Inl e \<Rightarrow> process_request device_mem_ops bops head (m, d) = (Inl e, m, d)
    | Inr rq \<Rightarrow> \<exists>len m' b'.
        process_request device_mem_ops bops head (m, d) = (Inr len, m', d\<lparr>blk_backend := b'\<rparr>)
        \<and> dm_inv m' \<and> binv b' \<and> blk_effect rq (dm_ram m) (disk (blk_backend d)) = (len, dm_ram m', disk b')"
  using blk_env.process_request_cases [OF blk_envI [OF assms(1)] assms(2-4)] .

theorem blk_request_refines_witness:
  "\<exists>m' b'. process_request device_mem_ops vec_backend_ops 0 (rq_mem, rq_dev)
      = (Inr 1, m', rq_dev\<lparr>blk_backend := b'\<rparr>)
    \<and> vec_bytes b' = splice 0 (slice 512 512 rq_ram) (replicate 1024 0)
    \<and> dm_ram m' = splice 272 [0] rq_ram"
proof -
  have "blk_effect rq_example rq_ram (replicate 1024 0)
      = (1, splice 272 [0] rq_ram, splice 0 (slice 512 512 rq_ram) (replicate 1024 0))"
    by (simp add: blk_effect_def rq_example_def REQ_OUT_def REQ_IN_def range_ok_def put_status_def gather_def)
  then show ?thesis
    using blk_request_refines [OF vec.block_backend_axioms rq_ok, of 0]
    by (auto simp: rq_parse) (auto simp: rq_mem_def rq_dev_def rq_disk_def)
qed

text \<open>
  C3: A sector range written by one request and read by a later one comes back unchanged: whatever
  segments the two requests use, the bytes the read delivers into its buffers are those the write
  collected from its buffers, the disk is not changed by the read, and both answer OK.
\<close>

theorem blk_write_read_round_trip:
  assumes "block_backend bops disk binv" "dm_inv m" "blk_cap_ok disk binv d"
    "request_wf (length (dm_ram m)) w" "request_wf (length (dm_ram m)) r"
    "rq_type w = REQ_OUT" "rq_type r = REQ_IN" "rq_sector r = rq_sector w" "rq_total r = rq_total w"
    "range_ok w (disk (blk_backend d))"
    "blk_execute device_mem_ops bops w (m, d) = (res, m1, d1)"
  shows "dm_ram m1 = put_status w 0 (dm_ram m) \<and>
    (\<exists>m2 d2. blk_execute device_mem_ops bops r (m1, d1) = (Inr (written_len r), m2, d2)
      \<and> dm_ram m2 = put_status r 0 (scatter (rq_data r) (gather (rq_data w) (dm_ram m)) (dm_ram m1))
      \<and> disk (blk_backend d2) = disk (blk_backend d1))"
proof -
  let ?off = "unat (rq_sector w) * 512" and ?g = "gather (rq_data w) (dm_ram m)"
  have g: "length ?g = rq_total w"
    using assms(4) by (simp add: request_wf_def gather_def total_bytes_def length_concat in_ram_def o_def cong: map_cong)
  obtain b1 where w: "d1 = d\<lparr>blk_backend := b1\<rparr>" "dm_inv m1" "binv b1" "dm_ram m1 = put_status w 0 (dm_ram m)"
    "disk b1 = splice ?off ?g (disk (blk_backend d))"
    using blk_env.blk_execute_out [OF blk_envI [OF assms(1)] assms(2,4,3,6,10)] assms(11) by auto
  have fit: "?off + length ?g \<le> length (disk (blk_backend d))"
    using assms(10) g by (simp add: range_ok_def)
  then have "blk_cap_ok disk binv d1" "range_ok r (disk (blk_backend d1))"
    "slice (unat (rq_sector r) * 512) (rq_total r) (disk (blk_backend d1)) = ?g"
    using assms(3,8-10) w g slice_splice_same [OF fit] by (simp_all add: blk_cap_ok_def range_ok_def)
  moreover have "length (dm_ram m1) = length (dm_ram m)"
    using assms(4) w(4) by (auto simp: put_status_def request_wf_def in_ram_def word_le_nat_alt)
  then have "request_wf (length (dm_ram m1)) r" using assms(5) by simp
  ultimately show ?thesis
    using blk_env.blk_execute_in [OF blk_envI [OF assms(1)] w(2) _ _ assms(7), of d1] w(4) by fastforce
qed

theorem blk_write_read_round_trip_witness:
  "\<exists>m1 d1 m2 d2. blk_execute device_mem_ops vec_backend_ops rq_example (rq_mem, rq_dev) = (Inr 1, m1, d1)
    \<and> blk_execute device_mem_ops vec_backend_ops
        (rq_example\<lparr>rq_type := REQ_IN, rq_data := [\<lparr>d_address = 0x180, d_length = 512, d_flags = 3\<rparr>]\<rparr>) (m1, d1)
      = (Inr 513, m2, d2)
    \<and> dm_ram m2 = splice 272 [0] (splice 384 (slice 512 512 rq_ram) (splice 272 [0] rq_ram))"
proof -
  let ?r = "rq_example\<lparr>rq_type := REQ_IN, rq_data := [\<lparr>d_address = 0x180, d_length = 512, d_flags = 3\<rparr>]\<rparr>"
  have t: "rq_type rq_example = REQ_OUT" "rq_data rq_example = [\<lparr>d_address = 0x200, d_length = 512, d_flags = 1\<rparr>]"
    "rq_total rq_example = 512" "rq_sector rq_example = 0" "d_address (rq_status rq_example) = 0x110"
    by (simp_all add: rq_example_def)
  have wf: "request_wf (length (dm_ram rq_mem)) rq_example" by (rule dvb.blk_parse_wf [OF rq_ok(1,2) rq_parse])
  then have wf': "request_wf (length (dm_ram rq_mem)) ?r"
    by (auto simp: request_wf_def t in_ram_def rq_mem_def length_rq_ram device_writable_def REQ_IN_def REQ_OUT_def)
  have rg: "range_ok rq_example (vec_bytes (blk_backend rq_dev))"
    by (simp add: range_ok_def t rq_dev_def rq_disk_def)
  obtain m1 d1 where e: "blk_execute device_mem_ops vec_backend_ops rq_example (rq_mem, rq_dev) = (Inr 1, m1, d1)"
    using dvb.blk_execute_out [OF rq_ok(1) wf rq_ok(3) t(1) rg] by blast
  from blk_write_read_round_trip [OF vec.block_backend_axioms rq_ok(1,3) wf wf' t(1) _ _ _ rg e]
  have "dm_ram m1 = splice 272 [0] rq_ram"
    "\<exists>m2 d2. blk_execute device_mem_ops vec_backend_ops ?r (m1, d1) = (Inr 513, m2, d2)
      \<and> dm_ram m2 = splice 272 [0] (splice 384 (slice 512 512 rq_ram) (dm_ram m1))"
    by (auto simp: t put_status_def gather_def written_len_def Let_def REQ_IN_def REQ_OUT_def length_rq_ram rq_mem_def)
  with e show ?thesis by auto
qed



section \<open>The device over a run\<close>

text \<open>What the rest of the machine can do to the device: guest register writes and device ticks.\<close>

datatype blk_event = BlkWrite u64 u32 | BlkTick

fun blk_step :: "'m guest_mem_ops \<Rightarrow> 'b block_backend_ops \<Rightarrow> blk_event \<Rightarrow> 'm \<times> 'b virtio_blk \<Rightarrow> 'm \<times> 'b virtio_blk" where
  "blk_step mops bops (BlkWrite offset value) (m, d) = (m, blk_mmio_write d offset value)"
| "blk_step mops bops BlkTick (m, d) = snd (blk_poll_kick mops bops (m, d))"

definition blk_run :: "'m guest_mem_ops \<Rightarrow> 'b block_backend_ops \<Rightarrow> blk_event list \<Rightarrow> 'm \<times> 'b virtio_blk \<Rightarrow> 'm \<times> 'b virtio_blk" where
  "blk_run mops bops = fold (blk_step mops bops)"

lemmas blk_write_defs = blk_mmio_write_def Let_def blk_write_queue_ready_def blk_write_status_reg_def
  blk_update_queue_def blk_reset_def

text \<open>Register invariant: what the driver can program.\<close>

definition blk_regs_ok :: "'b virtio_blk \<Rightarrow> bool" where
  "blk_regs_ok d \<longleftrightarrow>
     q_size (blk_queue d) \<le> QUEUE_NUM_MAX_VALUE
   \<and> (blk_queue_ready d \<longrightarrow> MIN_SERVICEABLE_QUEUE_SIZE \<le> q_size (blk_queue d))
   \<and> blk_negotiated_features d AND NOT BLK_OFFERED_FEATURES = 0
   \<and> blk_irq_status d \<in> {0, 1}"

lemma ucast_queue_num:
  fixes v :: u32
  assumes "v \<le> ucast QUEUE_NUM_MAX_VALUE"
  shows "(ucast v :: u16) \<le> QUEUE_NUM_MAX_VALUE"
  using assms by (simp add: QUEUE_NUM_MAX_VALUE_def word_le_nat_alt unat_ucast_mod)

lemma and_bit_or_zero: "a \<in> {0, 1} \<Longrightarrow> a AND b \<in> {0, 1}" for a b :: "'a::len word"
  by (auto simp: one_and_eq mod_2_eq_odd)

lemma and_not_self: "(c AND b) AND NOT c = 0" for b c :: "'a::len word"
  by (simp add: word_eq_0_iff_bits bit_logic)

lemma blk_write_regs_ok:
  assumes "blk_regs_ok d"
  shows "blk_regs_ok (blk_mmio_write d offset value)"
proof -
  note inv = assms [unfolded blk_regs_ok_def]
  have "blk_regs_ok (blk_reset d)" by (simp add: blk_regs_ok_def blk_reset_def queue_layout_default_def)
  then have st: "blk_regs_ok (blk_write_status_reg d value)"
    using inv by (simp add: blk_write_status_reg_def Let_def) (simp add: blk_regs_ok_def and_not_self)
  have rdy: "blk_regs_ok (blk_write_queue_ready d value)"
    using inv by (auto simp: blk_write_queue_ready_def blk_regs_ok_def)
  have upd: "blk_regs_ok (blk_update_queue d f)" if "\<And>q. q_size (f q) = q_size q" for f
    using inv that by (simp add: blk_update_queue_def blk_regs_ok_def)
  have rest: "blk_regs_ok (d\<lparr>blk_device_feature_sel := value\<rparr>)" "blk_regs_ok (d\<lparr>blk_driver_feature_sel := value\<rparr>)"
    "blk_regs_ok (d\<lparr>blk_driver_features := p\<rparr>)" "blk_regs_ok (d\<lparr>blk_queue_sel := value\<rparr>)"
    "blk_regs_ok (d\<lparr>blk_kick_pending := True\<rparr>)"
    "blk_regs_ok (d\<lparr>blk_irq_status := blk_irq_status d AND NOT value\<rparr>)" for p
    using inv by (simp_all add: blk_regs_ok_def and_bit_or_zero del: insert_iff)
  have num: "blk_regs_ok (d\<lparr>blk_queue := (blk_queue d)\<lparr>q_size :=
      (if 0 < value \<and> value \<le> ucast QUEUE_NUM_MAX_VALUE then ucast value else 0)\<rparr>\<rparr>)" if "\<not> blk_queue_ready d"
    using inv that ucast_queue_num [of "value"] by (simp add: blk_regs_ok_def)
  show ?thesis
    unfolding blk_mmio_write_def Let_def
    by (simp only: if_split) (intro conjI impI; (rule st rdy rest num upd assms | simp add: assms rest num)+)
qed

context blk_env
begin

lemma blk_poll_regs_ok:
  assumes "inv m" "blk_cap_ok disk binv d" "blk_regs_ok d"
    "blk_poll_kick mops bops (m, d) = (edge, m', d')"
  shows "blk_regs_ok d' \<and> blk_cap_ok disk binv d' \<and> inv m' \<and> length (ram m') = length (ram m)"
proof (cases "blk_may_serve d")
  case False
  then show ?thesis
    using assms by (auto simp: blk_poll_idle Let_def blk_regs_ok_def blk_cap_ok_def)
next
  case True
  define d0 where "d0 = d\<lparr>blk_kick_pending := False\<rparr>"
  have d0: "blk_queue d0 = blk_queue d" "blk_regs_ok d0" "blk_cap_ok disk binv d0"
    using assms(2,3) by (simp_all add: d0_def blk_regs_ok_def blk_cap_ok_def)
  have keep0: "blk_keep disk binv d0 d0"
    using d0(3) by (auto simp: blk_keep_def d0_def intro: exI [of _ "blk_backend d"])
  obtain r l m1 d1 where run: "drain_available mops (blk_queue d0) (process_request mops bops)
      (blk_last_seen_avail d0) (m, d0) = (r, l, m1, d1)" by (rule prod_cases4)
  have k: "inv m1 \<and> length (ram m1) = length (ram m) \<and> blk_keep disk binv d0 d1"
  proof (cases "rings_fit (blk_queue d0) (length (ram m))")
    case fits: True
    show ?thesis using blk_drain [OF assms(1) keep0 _ fits run] True d0(1) by (simp add: blk_may_serve_def)
  next
    case False
    show ?thesis
      using drain_available_rejects [OF assms(1) False, of "process_request mops bops" "blk_last_seen_avail d0" d0]
        run keep0 assms(1) by auto
  qed
  then have "blk_regs_ok d1" "blk_cap_ok disk binv d1"
    using d0(2) by (auto simp: blk_keep_def blk_regs_ok_def)
  with k assms(4) show ?thesis
    unfolding blk_poll_active [OF True run [unfolded d0_def]]
    by (cases r) (auto simp: blk_publish_def Let_def blk_regs_ok_def blk_cap_ok_def split: if_splits)
qed

end

lemma blk_write_keeps:
  "blk_fault (blk_mmio_write d offset v) = blk_fault d"
  "blk_backend (blk_mmio_write d offset v) = blk_backend d"
  "blk_capacity_sectors (blk_mmio_write d offset v) = blk_capacity_sectors d"
  by (simp_all add: blk_write_defs)

text \<open>
  C16: Invariant of the register file over every run. From a fresh device, whatever the guest writes
  and whenever the device is ticked: the queue size never exceeds 128, a ready queue has at least
  three entries, the negotiated features are a subset of the offered ones, the interrupt status has
  no bit but the used-ring bit, the capacity stays the size of the disk and RAM keeps its size.
\<close>

theorem blk_run_invariant:
  assumes "block_backend bops disk binv" "dm_inv m" "binv b" "blk_new bops b = Inr d"
    "blk_run device_mem_ops bops evs (m, d) = (m', d')"
  shows "blk_regs_ok d' \<and> blk_cap_ok disk binv d' \<and> dm_inv m' \<and> length (dm_ram m') = length (dm_ram m)"
proof -
  have "unat (bb_length bops b) = length (disk b)" using block_backend.disk_size [OF assms(1,3)] .
  moreover have "unat (bb_length bops b div 512) * 512 = unat (bb_length bops b)"
    if "bb_length bops b mod 512 = 0"
    using that by (simp add: unat_div word_unat_eq_iff unat_mod mod_0_imp_dvd)
  ultimately have "blk_regs_ok d" "blk_cap_ok disk binv d"
    using assms(3,4)
    by (auto simp: blk_new_def Let_def blk_regs_ok_def blk_cap_ok_def queue_layout_default_def split: if_splits)
  moreover have "blk_regs_ok d' \<and> blk_cap_ok disk binv d' \<and> dm_inv m' \<and> length (dm_ram m') = length (dm_ram m)"
    if "blk_regs_ok d" "blk_cap_ok disk binv d" "dm_inv m" "fold (blk_step device_mem_ops bops) evs (m, d) = (m', d')"
    for m d
    using that
  proof (induction evs arbitrary: m d)
    case (Cons ev evs)
    obtain m1 d1 where st: "blk_step device_mem_ops bops ev (m, d) = (m1, d1)" by fastforce
    have "blk_regs_ok d1 \<and> blk_cap_ok disk binv d1 \<and> dm_inv m1 \<and> length (dm_ram m1) = length (dm_ram m)"
    proof (cases ev)
      case (BlkWrite x v)
      with st Cons.prems show ?thesis
        by (auto simp: blk_write_regs_ok blk_write_keeps blk_cap_ok_def)
    next
      case BlkTick
      with st obtain e where "blk_poll_kick device_mem_ops bops (m, d) = (e, m1, d1)"
        by (cases "blk_poll_kick device_mem_ops bops (m, d)") auto
      from blk_env.blk_poll_regs_ok [OF blk_envI [OF assms(1)] Cons.prems(3,2,1) this] show ?thesis .
    qed
    with Cons.IH [of d1 m1] Cons.prems(4) st show ?case by simp
  qed simp
  ultimately show ?thesis using assms(2,5) by (simp add: blk_run_def)
qed

theorem blk_run_invariant_witness:
  "\<exists>d. blk_new vec_backend_ops rq_disk = Inr d
     \<and> blk_regs_ok (snd (blk_run device_mem_ops vec_backend_ops
          [BlkWrite 0x38 4, BlkWrite 0x44 1, BlkWrite 0x70 4, BlkWrite 0x50 0, BlkTick] (rq_mem, d)))"
proof -
  have b: "vec_inv rq_disk" by (simp add: rq_disk_def vec_inv_def)
  have "bb_length vec_backend_ops rq_disk = 1024"
    by (simp add: vec_backend_ops_def vec_length_def rq_disk_def)
  then obtain d where d: "blk_new vec_backend_ops rq_disk = Inr d" by (simp add: blk_new_def Let_def)
  obtain m' d' where run: "blk_run device_mem_ops vec_backend_ops
      [BlkWrite 0x38 4, BlkWrite 0x44 1, BlkWrite 0x70 4, BlkWrite 0x50 0, BlkTick] (rq_mem, d) = (m', d')"
    by fastforce
  from blk_run_invariant [OF vec.block_backend_axioms rq_ok(1) b d run] d run show ?thesis by simp
qed

text \<open>
  C17: The fault latch is final. Once the device has latched a fault, no sequence of register writes
  (a device reset included) and ticks makes it touch RAM or disk again, raise an interrupt edge or
  clear the fault.
\<close>

theorem blk_fault_sticky:
  assumes "blk_fault d = Some msg" "blk_run mops bops evs (m, d) = (m', d')"
  shows "m' = m \<and> blk_backend d' = blk_backend d \<and> blk_fault d' = Some msg
    \<and> \<not> fst (blk_poll_kick mops bops (m', d'))"
proof -
  have "m' = m \<and> blk_backend d' = blk_backend d \<and> blk_fault d' = Some msg"
    if "blk_fault d = Some msg" "fold (blk_step mops bops) evs (m, d) = (m', d')" for d
    using that
  proof (induction evs arbitrary: d)
    case (Cons ev evs)
    obtain d1 where "blk_step mops bops ev (m, d) = (m, d1)" "blk_fault d1 = Some msg" "blk_backend d1 = blk_backend d"
      using Cons.prems(1) blk_poll_idle [of d mops bops m]
      by (cases ev) (auto simp: blk_write_keeps blk_may_serve_def)
    with Cons.IH [of d1] Cons.prems(2) show ?case by simp
  qed simp
  then show ?thesis
    using assms blk_poll_idle [of d' mops bops m'] by (simp add: blk_run_def blk_may_serve_def)
qed

theorem blk_fault_sticky_witness:
  "fst (blk_run device_mem_ops vec_backend_ops [BlkWrite 0x70 0, BlkTick] (rq_mem, rq_dev\<lparr>blk_fault := Some ''x''\<rparr>))
    = rq_mem"
proof -
  obtain m' d' where "blk_run device_mem_ops vec_backend_ops [BlkWrite 0x70 0, BlkTick]
      (rq_mem, rq_dev\<lparr>blk_fault := Some ''x''\<rparr>) = (m', d')" by fastforce
  with blk_fault_sticky [OF _ this] show ?thesis by simp
qed



end
