(* ===== verification/Virtio_Net.thy ===== *)
theory Virtio_Net
  imports Virtio_Block
begin

text \<open>
  The virtio-mmio network device (\<open>virtio/net.rs\<close>): register file, the transmit drain, the receive
  drain and the device poll, over the \<open>NetBackend\<close> trait (\<open>net/mod.rs\<close>) as a record of operations.
  Host time enters as a parameter in nanoseconds. The two queues are two-element lists as in the
  source; an index beyond them would be a panic there, and \<open>net_wf\<close> below excludes it.
\<close>

section \<open>State\<close>

record 'n net_backend_ops =
  nb_mac :: "'n \<Rightarrow> bytes"
  nb_enqueue :: "'n \<Rightarrow> bytes \<Rightarrow> 'n"
  nb_poll :: "'n \<Rightarrow> bytes list \<times> 'n"
  nb_reset :: "'n \<Rightarrow> 'n"

definition NET_OFFERED_FEATURES :: u64 where
  "NET_OFFERED_FEATURES = shl1 32 OR shl1 5 OR shl1 16"
definition QUEUE_RX :: nat where "QUEUE_RX = 0"
definition QUEUE_TX :: nat where "QUEUE_TX = 1"
definition VIRTIO_NET_HDR_BYTES :: nat where "VIRTIO_NET_HDR_BYTES = 12"
definition MAX_FRAME_BYTES :: nat where "MAX_FRAME_BYTES = 1514"
definition RX_BACKLOG_CAP :: nat where "RX_BACKLOG_CAP = 128"
definition RX_BATCH_PER_POLL :: nat where "RX_BATCH_PER_POLL = 32"
definition BACKEND_POLL_INTERVAL :: nat where "BACKEND_POLL_INTERVAL = 1000000"

record 'n virtio_net =
  net_backend :: 'n
  net_mac :: bytes
  net_status :: u32
  net_device_feature_sel :: u32
  net_driver_feature_sel :: u32
  net_driver_features :: "u32 \<times> u32"
  net_negotiated_features :: u64
  net_queue_sel :: u32
  net_queues :: "queue_layout list"
  net_queue_ready :: "bool list"
  net_kick_pending :: "bool list"
  net_last_seen_avail :: "u16 list"
  net_irq_status :: u32
  net_rx_backlog :: "bytes list"
  net_rx_dropped :: u64
  net_tx_dropped :: u64
  net_notify_count :: u64
  net_tx_drained :: u64
  net_rx_drained :: u64
  net_last_backend_poll :: nat
  net_fault :: "string option"

definition net_new :: "'n net_backend_ops \<Rightarrow> 'n \<Rightarrow> nat \<Rightarrow> 'n virtio_net" where
  "net_new nops backend now = \<lparr>net_backend = backend, net_mac = nb_mac nops backend, net_status = 0,
     net_device_feature_sel = 0, net_driver_feature_sel = 0, net_driver_features = (0, 0),
     net_negotiated_features = 0, net_queue_sel = 0,
     net_queues = [queue_layout_default, queue_layout_default], net_queue_ready = [False, False],
     net_kick_pending = [False, False], net_last_seen_avail = [0, 0], net_irq_status = 0,
     net_rx_backlog = [], net_rx_dropped = 0, net_tx_dropped = 0, net_notify_count = 0,
     net_tx_drained = 0, net_rx_drained = 0, net_last_backend_poll = now, net_fault = None\<rparr>"

section \<open>Register file\<close>

definition net_device_feature_word :: "'n virtio_net \<Rightarrow> u32" where
  "net_device_feature_word d =
     (if net_device_feature_sel d = 0 then ucast NET_OFFERED_FEATURES
      else if net_device_feature_sel d = 1 then ucast (drop_bit 32 NET_OFFERED_FEATURES)
      else 0)"

definition net_config_word :: "'n virtio_net \<Rightarrow> u64 \<Rightarrow> u32" where
  "net_config_word d offset =
     (let w = offset AND NOT 3 in
      if w = 0x100 then from_le [net_mac d ! 0, net_mac d ! 1, net_mac d ! 2, net_mac d ! 3]
      else if w = 0x104 then
        ucast (net_mac d ! 4) OR push_bit 8 (ucast (net_mac d ! 5)) OR push_bit 16 1
      else 0)"

definition net_mmio_read :: "'n virtio_net \<Rightarrow> u64 \<Rightarrow> u32" where
  "net_mmio_read d offset =
     (let w = offset AND NOT 3;
          v = (if w = 0x000 then 0x74726976
               else if w = 0x004 then 2
               else if w = 0x008 then 1
               else if w = 0x00C then 0x52495348
               else if w = 0x010 then net_device_feature_word d
               else if w = 0x034 then ucast QUEUE_NUM_MAX_VALUE
               else if w = 0x038 then ucast (q_size (net_queues d ! unat (net_queue_sel d)))
               else if w = 0x044 then of_bool (net_queue_ready d ! unat (net_queue_sel d))
               else if w = 0x060 then net_irq_status d
               else if w = 0x070 then net_status d
               else if w = 0x0FC then 0
               else if w \<ge> 0x100 then net_config_word d w
               else 0)
      in drop_bit (unat ((offset AND 3) * 8)) v)"

definition net_reset :: "'n net_backend_ops \<Rightarrow> 'n virtio_net \<Rightarrow> 'n virtio_net" where
  "net_reset nops d = d\<lparr>net_status := 0, net_driver_features := (0, 0), net_driver_feature_sel := 0,
     net_negotiated_features := 0, net_queue_sel := 0,
     net_queues := [queue_layout_default, queue_layout_default], net_queue_ready := [False, False],
     net_kick_pending := [False, False], net_last_seen_avail := [0, 0], net_irq_status := 0,
     net_rx_backlog := [], net_backend := nb_reset nops (net_backend d)\<rparr>"

definition net_write_status_reg :: "'n net_backend_ops \<Rightarrow> 'n virtio_net \<Rightarrow> u32 \<Rightarrow> 'n virtio_net" where
  "net_write_status_reg nops d v =
     (if v = 0 then net_reset nops d
      else let d = d\<lparr>net_status := v\<rparr> in
           if v AND 8 \<noteq> 0
           then let driver = push_bit 32 (ucast (snd (net_driver_features d)))
                              OR ucast (fst (net_driver_features d))
                in d\<lparr>net_negotiated_features := NET_OFFERED_FEATURES AND driver\<rparr>
           else d)"

definition net_write_queue_ready :: "'n virtio_net \<Rightarrow> u32 \<Rightarrow> 'n virtio_net" where
  "net_write_queue_ready d v =
     (let selected = unat (net_queue_sel d) in
      if v = 0 then d\<lparr>net_queue_ready := (net_queue_ready d)[selected := False],
                      net_last_seen_avail := (net_last_seen_avail d)[selected := 0]\<rparr>
      else if v = 1 \<and> 0 < q_size (net_queues d ! selected)
      then d\<lparr>net_queue_ready := (net_queue_ready d)[selected := True]\<rparr> else d)"

definition net_update_queue ::
  "'n virtio_net \<Rightarrow> (queue_layout \<Rightarrow> queue_layout) \<Rightarrow> 'n virtio_net" where
  "net_update_queue d f =
     d\<lparr>net_queues := (net_queues d)[unat (net_queue_sel d) := f (net_queues d ! unat (net_queue_sel d))]\<rparr>"

definition net_mmio_write :: "'n net_backend_ops \<Rightarrow> 'n virtio_net \<Rightarrow> u64 \<Rightarrow> u32 \<Rightarrow> 'n virtio_net" where
  "net_mmio_write nops d offset v =
     (let w = offset AND NOT 3 in
      if w = 0x014 then d\<lparr>net_device_feature_sel := v\<rparr>
      else if w = 0x024 then d\<lparr>net_driver_feature_sel := v\<rparr>
      else if w = 0x020 then
        (if net_driver_feature_sel d = 0
         then d\<lparr>net_driver_features := (v, snd (net_driver_features d))\<rparr>
         else if net_driver_feature_sel d = 1
         then d\<lparr>net_driver_features := (fst (net_driver_features d), v)\<rparr>
         else d)
      else if w = 0x030 then (if v < 2 then d\<lparr>net_queue_sel := v\<rparr> else d)
      else if w = 0x038 then
        (if \<not> net_queue_ready d ! unat (net_queue_sel d)
         then net_update_queue d (\<lambda>q. q\<lparr>q_size :=
                (if 0 < v \<and> v \<le> ucast QUEUE_NUM_MAX_VALUE then ucast v else 0)\<rparr>)
         else d)
      else if w = 0x044 then net_write_queue_ready d v
      else if w = 0x050 then
        (if v < 2 \<and> net_queue_ready d ! unat v
         then d\<lparr>net_kick_pending := (net_kick_pending d)[unat v := True],
                net_notify_count := saturating_add (net_notify_count d) 1\<rparr>
         else d)
      else if w = 0x064 then d\<lparr>net_irq_status := net_irq_status d AND NOT v\<rparr>
      else if w = 0x070 then net_write_status_reg nops d v
      else if w = 0x080 then net_update_queue d (\<lambda>q. q\<lparr>q_desc := merge_low (q_desc q) v\<rparr>)
      else if w = 0x084 then net_update_queue d (\<lambda>q. q\<lparr>q_desc := merge_high (q_desc q) v\<rparr>)
      else if w = 0x090 then net_update_queue d (\<lambda>q. q\<lparr>q_avail := merge_low (q_avail q) v\<rparr>)
      else if w = 0x094 then net_update_queue d (\<lambda>q. q\<lparr>q_avail := merge_high (q_avail q) v\<rparr>)
      else if w = 0x0A0 then net_update_queue d (\<lambda>q. q\<lparr>q_used := merge_low (q_used q) v\<rparr>)
      else if w = 0x0A4 then net_update_queue d (\<lambda>q. q\<lparr>q_used := merge_high (q_used q) v\<rparr>)
      else d)"

section \<open>Transmit\<close>

text \<open>The gather loop: \<open>frame\<close> holds what has been copied so far.\<close>

fun tx_gather ::
  "'m guest_mem_ops \<Rightarrow> 'm \<Rightarrow> nat \<Rightarrow> bool \<Rightarrow> descriptor list \<Rightarrow> bytes \<Rightarrow> virtio_error + bytes" where
  "tx_gather mops m frame_len first [] frame = Inr frame"
| "tx_gather mops m frame_len first (d # ds) frame =
     (let start = (if first then min VIRTIO_NET_HDR_BYTES (unat (d_length d)) else 0);
          step = min (unat (d_length d) - start) (frame_len - length frame)
      in if 0 < step
         then bind_res (gm_read mops m (d_address d + of_nat start) step) (\<lambda>bs.
                tx_gather mops m frame_len False ds (frame @ bs))
         else tx_gather mops m frame_len False ds frame)"

definition process_tx ::
  "'m guest_mem_ops \<Rightarrow> 'n net_backend_ops \<Rightarrow> u16 \<Rightarrow> 'm \<times> 'n virtio_net
    \<Rightarrow> (virtio_error + u32) \<times> 'm \<times> 'n virtio_net" where
  "process_tx mops nops head st =
     (case st of (m, d) \<Rightarrow>
      case validated_chain mops m (net_queues d ! QUEUE_TX) head MAX_CHAIN_DESCRIPTORS of
        Inl e \<Rightarrow> (Inl e, m, d)
      | Inr ds \<Rightarrow>
      if length ds = 0 then (Inl (BadQueue ''transmit chain is empty''), m, d)
      else case require_all_device_readable ds of Inl e \<Rightarrow> (Inl e, m, d) | Inr _ \<Rightarrow>
      let total' = total_bytes ds;
          split_header = (2 \<le> length ds \<and> unat (d_length (ds ! 0)) = VIRTIO_NET_HDR_BYTES) in
      if \<not> (split_header \<or> VIRTIO_NET_HDR_BYTES < unat (d_length (ds ! 0)))
      then (Inl (BadQueue ''transmit buffer is smaller than the virtio_net_hdr''), m, d)
      else
      let frame_len = total' - VIRTIO_NET_HDR_BYTES in
      if MAX_FRAME_BYTES < frame_len
      then (Inr (if total' < 2 ^ 32 then of_nat total' else - 1), m,
            d\<lparr>net_tx_dropped := saturating_add (net_tx_dropped d) 1\<rparr>)
      else case gm_read mops m (d_address (ds ! 0)) VIRTIO_NET_HDR_BYTES of
        Inl e \<Rightarrow> (Inl e, m, d)
      | Inr _ \<Rightarrow>
      case tx_gather mops m frame_len True ds [] of
        Inl e \<Rightarrow> (Inl e, m, d)
      | Inr frame \<Rightarrow>
      if length frame \<noteq> frame_len
      then (Inl (BadQueue ''transmit chain does not cover the advertised frame length''), m, d)
      else (Inr (of_nat total'), m,
            if 0 < frame_len then d\<lparr>net_backend := nb_enqueue nops (net_backend d) frame\<rparr>
            else d\<lparr>net_tx_dropped := saturating_add (net_tx_dropped d) 1\<rparr>))"

definition drain_tx ::
  "'m guest_mem_ops \<Rightarrow> 'n net_backend_ops \<Rightarrow> 'm \<times> 'n virtio_net
    \<Rightarrow> (virtio_error + bool) \<times> 'm \<times> 'n virtio_net" where
  "drain_tx mops nops st =
     (case drain_available mops (net_queues (snd st) ! QUEUE_TX) (process_tx mops nops)
             (net_last_seen_avail (snd st) ! QUEUE_TX) st of
        (Inl e, _, m, d) \<Rightarrow> (Inl e, m, d)
      | (Inr completed, last_seen, m, d) \<Rightarrow>
          (Inr (0 < completed), m,
           d\<lparr>net_last_seen_avail := (net_last_seen_avail d)[QUEUE_TX := last_seen],
             net_tx_drained := saturating_add (net_tx_drained d) (ucast completed)\<rparr>))"

section \<open>Receive\<close>

fun rx_scatter :: "'m guest_mem_ops \<Rightarrow> descriptor list \<Rightarrow> bytes \<Rightarrow> 'm \<Rightarrow> (virtio_error + unit) \<times> 'm" where
  "rx_scatter mops [] bs m = (Inr (), m)"
| "rx_scatter mops (d # ds) bs m =
     (if bs = [] then (Inr (), m)
      else let step = min (length bs) (unat (d_length d))
           in case gm_write mops m (d_address d) (take step bs) of
                (Inl e, m) \<Rightarrow> (Inl e, m)
              | (Inr _, m) \<Rightarrow> rx_scatter mops ds (drop step bs) m)"

definition process_rx ::
  "'m guest_mem_ops \<Rightarrow> u16 \<Rightarrow> bytes \<Rightarrow> 'm \<times> 'n virtio_net \<Rightarrow> (virtio_error + u32) \<times> 'm \<times> 'n virtio_net" where
  "process_rx mops head frame st =
     (case st of (m, d) \<Rightarrow>
      case validated_chain mops m (net_queues d ! QUEUE_RX) head MAX_CHAIN_DESCRIPTORS of
        Inl e \<Rightarrow> (Inl e, m, d)
      | Inr ds \<Rightarrow>
      if length ds = 0 then (Inl (BadQueue ''receive chain is empty''), m, d)
      else case require_all_device_writable ds of Inl e \<Rightarrow> (Inl e, m, d) | Inr _ \<Rightarrow>
      let capacity = total_bytes ds in
      if capacity < VIRTIO_NET_HDR_BYTES
      then (Inl (BadQueue ''receive buffer is smaller than the virtio_net_hdr''), m, d)
      else if capacity - VIRTIO_NET_HDR_BYTES < length frame \<or> MAX_FRAME_BYTES < length frame
      then (Inr 0, m, d\<lparr>net_rx_dropped := saturating_add (net_rx_dropped d) 1\<rparr>)
      else case rx_scatter mops ds (replicate VIRTIO_NET_HDR_BYTES 0 @ frame) m of
        (Inl e, m) \<Rightarrow> (Inl e, m, d)
      | (Inr _, m) \<Rightarrow> (Inr (of_nat (VIRTIO_NET_HDR_BYTES + length frame)), m, d))"

fun drain_rx_loop ::
  "'m guest_mem_ops \<Rightarrow> queue_layout \<Rightarrow> nat \<Rightarrow> u32 \<Rightarrow> 'm \<times> 'n virtio_net
    \<Rightarrow> (virtio_error + u32) \<times> 'm \<times> 'n virtio_net" where
  "drain_rx_loop mops q 0 completed st = (Inr completed, st)"
| "drain_rx_loop mops q (Suc n) completed (m, d) =
     (if net_rx_backlog d = [] then (Inr completed, m, d)
      else case avail_index mops m q of Inl e \<Rightarrow> (Inl e, m, d) | Inr avail \<Rightarrow>
      if net_last_seen_avail d ! QUEUE_RX = avail then (Inr completed, m, d)
      else case avail_delta (net_last_seen_avail d ! QUEUE_RX) avail (q_size q) of
        Inl e \<Rightarrow> (Inl e, m, d) | Inr _ \<Rightarrow>
      case avail_head mops m q (net_last_seen_avail d ! QUEUE_RX) of Inl e \<Rightarrow> (Inl e, m, d) | Inr head \<Rightarrow>
      let frame = hd (net_rx_backlog d); d = d\<lparr>net_rx_backlog := tl (net_rx_backlog d)\<rparr> in
      case process_rx mops head frame (m, d) of (Inl e, m, d) \<Rightarrow> (Inl e, m, d) | (Inr len, m, d) \<Rightarrow>
      case used_index mops m q of Inl e \<Rightarrow> (Inl e, m, d) | Inr index \<Rightarrow>
      case write_used mops q index (ucast head) len m of (Inl e, m) \<Rightarrow> (Inl e, m, d) | (Inr _, m) \<Rightarrow>
      drain_rx_loop mops q n (completed + 1)
        (m, d\<lparr>net_last_seen_avail := (net_last_seen_avail d)[QUEUE_RX := net_last_seen_avail d ! QUEUE_RX + 1],
              net_rx_drained := saturating_add (net_rx_drained d) 1\<rparr>))"

definition drain_rx ::
  "'m guest_mem_ops \<Rightarrow> 'm \<times> 'n virtio_net \<Rightarrow> (virtio_error + bool) \<times> 'm \<times> 'n virtio_net" where
  "drain_rx mops st =
     (let q = net_queues (snd st) ! QUEUE_RX in
      case validate q (gm_ram_bytes mops (fst st)) of Inl e \<Rightarrow> (Inl e, st) | Inr _ \<Rightarrow>
      case drain_rx_loop mops q RX_BATCH_PER_POLL 0 st of
        (Inl e, st) \<Rightarrow> (Inl e, st)
      | (Inr completed, st) \<Rightarrow> (Inr (0 < completed), st))"

section \<open>Poll\<close>

definition net_push_frame :: "bytes \<Rightarrow> 'n virtio_net \<Rightarrow> 'n virtio_net" where
  "net_push_frame frame d =
     (let d = (if RX_BACKLOG_CAP \<le> length (net_rx_backlog d)
               then d\<lparr>net_rx_backlog := tl (net_rx_backlog d),
                      net_rx_dropped := saturating_add (net_rx_dropped d) 1\<rparr>
               else d)
      in d\<lparr>net_rx_backlog := net_rx_backlog d @ [frame]\<rparr>)"

definition net_poll_backend :: "'n net_backend_ops \<Rightarrow> nat \<Rightarrow> 'n virtio_net \<Rightarrow> 'n virtio_net" where
  "net_poll_backend nops now d =
     (if BACKEND_POLL_INTERVAL \<le> now - net_last_backend_poll d
      then let d = d\<lparr>net_last_backend_poll := now\<rparr>;
               (frames, backend) = nb_poll nops (net_backend d)
           in fold net_push_frame frames (d\<lparr>net_backend := backend\<rparr>)
      else d)"

definition net_poll_inner ::
  "'m guest_mem_ops \<Rightarrow> 'n net_backend_ops \<Rightarrow> nat \<Rightarrow> 'm \<times> 'n virtio_net
    \<Rightarrow> (virtio_error + bool) \<times> 'm \<times> 'n virtio_net" where
  "net_poll_inner mops nops now st =
     (case st of (m, d) \<Rightarrow>
      case (if net_kick_pending d ! QUEUE_TX
            then let d = d\<lparr>net_kick_pending := (net_kick_pending d)[QUEUE_TX := False]\<rparr>
                 in if net_queue_ready d ! QUEUE_TX \<and> 0 < q_size (net_queues d ! QUEUE_TX)
                    then drain_tx mops nops (m, d) else (Inr False, m, d)
            else (Inr False, m, d)) of
        (Inl e, m, d) \<Rightarrow> (Inl e, m, d)
      | (Inr completed, m, d) \<Rightarrow>
      let d = net_poll_backend nops now d in
      if net_queue_ready d ! QUEUE_RX \<and> 0 < q_size (net_queues d ! QUEUE_RX)
      then case drain_rx mops (m, d) of
             (Inl e, m, d) \<Rightarrow> (Inl e, m, d)
           | (Inr c, m, d) \<Rightarrow> (Inr (completed \<or> c), m, d)
      else (Inr completed, m, d))"

definition net_poll ::
  "'m guest_mem_ops \<Rightarrow> 'n net_backend_ops \<Rightarrow> nat \<Rightarrow> 'm \<times> 'n virtio_net \<Rightarrow> bool \<times> 'm \<times> 'n virtio_net" where
  "net_poll mops nops now st =
     (case st of (m, d) \<Rightarrow>
      if net_fault d \<noteq> None then (False, m, d)
      else case net_poll_inner mops nops now (m, d) of
        (Inr completed, m, d) \<Rightarrow>
          (completed, m, if completed then d\<lparr>net_irq_status := net_irq_status d OR 1\<rparr> else d)
      | (Inl error, m, d) \<Rightarrow>
          (False, m, d\<lparr>net_fault := Some (''virtio-net stopped servicing: '' @ virtio_error_display error)\<rparr>))"

end
