(* ===== verification/Virtio_Net_Correct.thy ===== *)
theory Virtio_Net_Correct
  imports Virtio_Net
begin

text \<open>
  Correctness of the network device: what one transmit or receive chain does, and the bounds the
  device keeps over every run of register writes and polls.
\<close>

section \<open>Frames\<close>


lemma gather_Cons: "gather (d # ds) r = slice (unat (d_address d)) (unat (d_length d)) r @ gather ds r"
  by (simp add: gather_def)

context guest_memory
begin

lemma tx_gather_rest:
  assumes "inv m" "\<forall>d \<in> set ds. in_ram (length (ram m)) d" "length frame + total_bytes ds \<le> frame_len"
  shows "tx_gather ops m frame_len False ds frame = Inr (frame @ gather ds (ram m))"
  using assms(2,3)
proof (induction ds arbitrary: frame)
  case Nil
  then show ?case by (simp add: gather_def)
next
  case (Cons d ds)
  define n where "n = unat (d_length d)"
  have n: "length frame + n + total_bytes ds \<le> frame_len" "in_ram (length (ram m)) d"
    using Cons.prems by (simp_all add: n_def)
  have rd: "gm_read ops m (d_address d) n = Inr (slice (unat (d_address d)) n (ram m))"
    using read_in [OF assms(1), of "d_address d" n] n(2) by (simp add: in_ram_def n_def)
  have len: "length (slice (unat (d_address d)) n (ram m)) = n" using n(2) by (simp add: in_ram_def n_def)
  show ?case
    using n(1) rd len Cons.IH [of "frame @ slice (unat (d_address d)) n (ram m)"] Cons.IH [of frame] Cons.prems(1)
    by (cases "n = 0") (simp_all add: gather_Cons n_def [symmetric] min_absorb1)
qed

lemma tx_gather_first:
  assumes "inv m" "\<forall>x \<in> set (d # ds). in_ram (length (ram m)) x" "12 \<le> unat (d_length d)"
  shows "tx_gather ops m (total_bytes (d # ds) - 12) True (d # ds) [] = Inr (drop 12 (gather (d # ds) (ram m)))"
proof -
  define n where "n = unat (d_length d) - 12"
  have ram: "in_ram (length (ram m)) d" using assms(2) by simp
  have N: "unat (d_length d) = 12 + n" using assms(3) by (simp add: n_def)
  have a: "unat (d_address d + 12) = unat (d_address d) + 12" if "0 < n"
    using unat_add_of_nat [of "d_address d" 12] ram ram_lt [OF assms(1)] that by (simp add: in_ram_def n_def)
  have rd: "gm_read ops m (d_address d + 12) n = Inr (slice (unat (d_address d) + 12) n (ram m))" if "0 < n"
    using read_in [OF assms(1), of "d_address d + 12" n] ram a that assms(3) by (simp add: in_ram_def n_def)
  have len: "length (slice (unat (d_address d) + 12) n (ram m)) = n"
    using ram assms(3) by (simp add: in_ram_def n_def)
  have dr: "drop 12 (gather (d # ds) (ram m)) = slice (unat (d_address d) + 12) n (ram m) @ gather ds (ram m)"
    using ram assms(3) by (simp add: gather_Cons drop_slice in_ram_def n_def)
  show ?thesis
    using rd len assms(2) dr N
      tx_gather_rest [OF assms(1), of ds "slice (unat (d_address d) + 12) n (ram m)" "n + total_bytes ds"]
      tx_gather_rest [OF assms(1), of ds "[]" "total_bytes ds"]
    by (cases "n = 0") (simp_all add: VIRTIO_NET_HDR_BYTES_def min_absorb1)
qed

lemma rx_scatter_ok:
  assumes "inv m" "\<forall>d \<in> set ds. in_ram (length (ram m)) d"
  shows "\<exists>m'. rx_scatter ops ds bs m = (Inr (), m') \<and> inv m' \<and> ram m' = scatter ds bs (ram m)"
  using assms
proof (induction ds arbitrary: bs m)
  case (Cons d ds)
  show ?case
  proof (cases "bs = []")
    case True
    have "scatter xs [] r = r" for xs r by (induction xs) simp_all
    with True Cons.prems(1) show ?thesis by simp
  next
    case False
    define k where "k = min (length bs) (unat (d_length d))"
    have tk: "take k bs = take (unat (d_length d)) bs" "drop k bs = drop (unat (d_length d)) bs"
      by (auto simp: k_def min_def)
    have fits: "unat (d_address d) + length (take k bs) \<le> length (ram m)"
      using Cons.prems(2) by (auto simp: in_ram_def k_def)
    obtain m1 where m1: "gm_write ops m (d_address d) (take k bs) = (Inr (), m1)" "inv m1"
      "ram m1 = splice (unat (d_address d)) (take k bs) (ram m)"
      using write_in [OF Cons.prems(1) fits] by blast
    have "length (ram m1) = length (ram m)" using m1(3) fits by simp
    with Cons.IH [OF m1(2), of "drop k bs"] Cons.prems(2) m1 False tk show ?thesis
      by (auto simp: Let_def k_def [symmetric])
  qed
qed simp

end

section \<open>Properties of one chain\<close>

text \<open>
  For the witnesses: one descriptor of 14 bytes at 288 in the demo memory, and a backend that keeps
  the list of frames it was given.
\<close>

definition net_demo_ops :: "bytes list net_backend_ops" where
  "net_demo_ops = \<lparr>nb_mac = \<lambda>_. [2, 0, 0, 0, 0, 1], nb_enqueue = \<lambda>fs f. fs @ [f],
     nb_poll = \<lambda>fs. ([], fs), nb_reset = \<lambda>_. []\<rparr>"

definition net_demo :: "bytes list virtio_net" where
  "net_demo = (net_new net_demo_ops [] 0)
    \<lparr>net_queues := [demo_queue, demo_queue], net_queue_ready := [True, True]\<rparr>"

definition net_demo_mem :: "u16 \<Rightarrow> device_memory" where
  "net_demo_mem flags = demo_mem\<lparr>dm_ram :=
     splice 0 (to_le 8 (288 :: u64) @ to_le 4 (14 :: u32) @ to_le 2 flags @ to_le 2 (0 :: u16)) demo_ram\<rparr>"

lemma net_demo_ok:
  "dm_inv (net_demo_mem f)" "length (dm_ram (net_demo_mem f)) = 304"
  "rings_fit demo_queue (length (dm_ram (net_demo_mem f)))"
  "net_queues net_demo ! QUEUE_TX = demo_queue" "net_queues net_demo ! QUEUE_RX = demo_queue"
  by (simp_all add: net_demo_mem_def demo_mem_def dm_inv_def length_demo_ram rings_fit_def demo_queue_def
      net_demo_def QUEUE_TX_def QUEUE_RX_def)

lemma net_demo_chain:
  assumes "f = 0 \<or> f = 2"
  shows "validated_chain device_mem_ops (net_demo_mem f) demo_queue 0 MAX_CHAIN_DESCRIPTORS
    = Inr [\<lparr>d_address = 288, d_length = 14, d_flags = f\<rparr>]"
proof -
  have "desc_of demo_queue (dm_ram (net_demo_mem 0)) 0 = (\<lparr>d_address = 288, d_length = 14, d_flags = 0\<rparr>, 0)"
    "desc_of demo_queue (dm_ram (net_demo_mem 2)) 0 = (\<lparr>d_address = 288, d_length = 14, d_flags = 2\<rparr>, 0)"
    by code_simp+
  with assms have d: "desc_of demo_queue (dm_ram (net_demo_mem f)) 0 = (\<lparr>d_address = 288, d_length = 14, d_flags = f\<rparr>, 0)"
    by auto
  then have "chain_path demo_queue (dm_ram (net_demo_mem f)) [0] [\<lparr>d_address = 288, d_length = 14, d_flags = f\<rparr>]"
    using chain_path.stop [of 0 demo_queue "dm_ram (net_demo_mem f)"] assms by (auto simp: demo_size has_next_def)
  then show ?thesis
    unfolding dm.validated_chain_iff [OF net_demo_ok(1,3)]
    by (auto simp: net_demo_ok(2) MAX_CHAIN_DESCRIPTORS_def intro!: exI [of _ "[0]"])
qed



text \<open>
  C22: A receive chain never gets a truncated frame. When the chain passes validation and is writable
  and long enough, header and frame are laid out contiguously from the first byte of the chain and
  the length published is theirs; when the frame does not fit, or exceeds 1514 bytes, RAM does not
  change, the length published is zero and the drop is counted.
\<close>

theorem net_rx_frame:
  assumes "dm_inv m" "rings_fit (net_queues d ! QUEUE_RX) (length (dm_ram m))"
    "validated_chain device_mem_ops m (net_queues d ! QUEUE_RX) head MAX_CHAIN_DESCRIPTORS = Inr ds"
    "\<forall>x \<in> set ds. device_writable x" "12 \<le> total_bytes ds"
  shows "if 12 + length frame \<le> total_bytes ds \<and> length frame \<le> 1514
    then \<exists>m'. process_rx device_mem_ops head frame (m, d) = (Inr (of_nat (12 + length frame)), m', d)
      \<and> dm_ram m' = scatter ds (replicate 12 0 @ frame) (dm_ram m)
    else process_rx device_mem_ops head frame (m, d)
      = (Inr 0, m, d\<lparr>net_rx_dropped := saturating_add (net_rx_dropped d) 1\<rparr>)"
proof -
  have ram: "\<forall>x \<in> set ds. in_ram (length (dm_ram m)) x" and ne: "ds \<noteq> []"
    using assms(3) unfolding dm.validated_chain_iff [OF assms(1,2)]
    by (auto simp: in_ram_def dest: chain_path_length)
  have w: "require_all_device_writable ds = Inr ()"
    using assms(4) by (simp add: require_all_device_writable_def)
  obtain m' where m': "rx_scatter device_mem_ops ds (replicate 12 0 @ frame) m = (Inr (), m')"
    "dm_ram m' = scatter ds (replicate 12 0 @ frame) (dm_ram m)"
    using dm.rx_scatter_ok [OF assms(1) ram] by blast
  show ?thesis
    using assms(3,5) ne w m'
    by (auto simp: process_rx_def Let_def VIRTIO_NET_HDR_BYTES_def MAX_FRAME_BYTES_def not_less le_diff_conv)
qed

theorem net_rx_frame_witness:
  "(\<exists>m'. process_rx device_mem_ops 0 [5, 6] (net_demo_mem 2, net_demo) = (Inr 14, m', net_demo))
    \<and> fst (process_rx device_mem_ops 0 [5, 6, 7] (net_demo_mem 2, net_demo)) = Inr 0"
  using net_rx_frame [of "net_demo_mem 2" net_demo 0 "[\<lparr>d_address = 288, d_length = 14, d_flags = 2\<rparr>]" "[5, 6]"]
    net_rx_frame [of "net_demo_mem 2" net_demo 0 "[\<lparr>d_address = 288, d_length = 14, d_flags = 2\<rparr>]" "[5, 6, 7]"]
    net_demo_ok net_demo_chain [of 2]
  by (auto simp: device_writable_def)

section \<open>Bounds over a run\<close>

definition net_wf :: "'n virtio_net \<Rightarrow> bool" where
  "net_wf d \<longleftrightarrow>
     length (net_queues d) = 2 \<and> length (net_queue_ready d) = 2 \<and> length (net_kick_pending d) = 2
   \<and> length (net_last_seen_avail d) = 2 \<and> net_queue_sel d < 2
   \<and> (\<forall>i < 2. q_size (net_queues d ! i) \<le> QUEUE_NUM_MAX_VALUE
        \<and> (net_queue_ready d ! i \<longrightarrow> 0 < q_size (net_queues d ! i)))
   \<and> length (net_rx_backlog d) \<le> RX_BACKLOG_CAP"

lemma net_sel_bound: "net_wf d \<Longrightarrow> unat (net_queue_sel d) < 2"
  by (simp add: net_wf_def word_less_nat_alt)

lemma net_wf_cong:
  assumes "net_wf d" "net_queues d' = net_queues d" "net_queue_ready d' = net_queue_ready d"
    "length (net_kick_pending d') = 2" "length (net_last_seen_avail d') = 2" "net_queue_sel d' < 2"
    "length (net_rx_backlog d') \<le> RX_BACKLOG_CAP"
  shows "net_wf d'"
  using assms by (simp add: net_wf_def)

lemma net_wf_update_queue:
  assumes "net_wf d" "\<And>q. q_size (f q) = q_size q"
  shows "net_wf (net_update_queue d f)"
  using assms net_sel_bound [OF assms(1)] by (auto simp: net_wf_def net_update_queue_def nth_list_update)

lemma net_wf_queue_num:
  fixes v :: u32
  assumes "net_wf d" "\<not> net_queue_ready d ! unat (net_queue_sel d)"
  shows "net_wf (net_update_queue d (\<lambda>q. q\<lparr>q_size := (if 0 < v \<and> v \<le> ucast QUEUE_NUM_MAX_VALUE then ucast v else 0)\<rparr>))"
proof -
  have "(ucast v :: u16) \<le> QUEUE_NUM_MAX_VALUE" if "v \<le> ucast QUEUE_NUM_MAX_VALUE"
    using that by (simp add: QUEUE_NUM_MAX_VALUE_def word_le_nat_alt unat_ucast_mod)
  then show ?thesis
    using assms net_sel_bound [OF assms(1)] by (auto simp: net_wf_def net_update_queue_def nth_list_update)
qed

lemma net_wf_write:
  assumes "net_wf d"
  shows "net_wf (net_mmio_write nops d offset v)"
proof -
  note len = assms [unfolded net_wf_def]
  have st: "net_wf (net_write_status_reg nops d v)"
    using assms by (auto simp: net_write_status_reg_def Let_def net_reset_def net_wf_def queue_layout_default_def
        nth_Cons split: nat.splits)
  have rdy: "net_wf (net_write_queue_ready d v)"
    using assms net_sel_bound [OF assms]
    by (auto simp: net_write_queue_ready_def Let_def net_wf_def nth_list_update)
  have kick: "net_wf (d\<lparr>net_kick_pending := (net_kick_pending d)[unat v := True],
      net_notify_count := saturating_add (net_notify_count d) 1\<rparr>)"
    using len by (intro net_wf_cong [OF assms]) simp_all
  have rest: "net_wf (d\<lparr>net_device_feature_sel := v\<rparr>)" "net_wf (d\<lparr>net_driver_feature_sel := v\<rparr>)"
    "net_wf (d\<lparr>net_driver_features := p\<rparr>)" "net_wf (d\<lparr>net_irq_status := x\<rparr>)"
    "v < 2 \<Longrightarrow> net_wf (d\<lparr>net_queue_sel := v\<rparr>)" for p x
    using assms by (simp_all add: net_wf_def)
  show ?thesis
    unfolding net_mmio_write_def Let_def
    by (simp only: if_split)
      (intro conjI impI; (rule st rdy kick rest net_wf_update_queue net_wf_queue_num assms
        | simp add: assms rest kick net_wf_queue_num)+)
qed

text \<open>The drain passes every invariant of the closure's own state on.\<close>

lemma drain_loop_state:
  assumes "\<And>head m s r m' s'. J s \<Longrightarrow> process head (m, s) = (r, m', s') \<Longrightarrow> J s'"
  shows "J (snd st) \<Longrightarrow> J (snd (snd (snd (drain_loop ops q process avail l c st))))"
proof (induction "unat (avail - l)" arbitrary: l c st rule: less_induct)
  case less
  have step: "J (snd st')" if "process head st = (r, st')" for head r st'
    using assms [of "snd st" head "fst st" r "fst st'" "snd st'"] less.prems that by simp
  show ?case
  proof (cases "l = avail")
    case True
    then show ?thesis using less.prems by (simp add: drain_loop.simps)
  next
    case False
    show ?thesis
      using less.prems step less.hyps [OF unat_minus_suc [OF False], of "(_, _)"]
      by (subst drain_loop.simps) (auto split: sum.splits prod.splits)
  qed
qed

lemma drain_available_state:
  assumes "\<And>head m s r m' s'. J s \<Longrightarrow> process head (m, s) = (r, m', s') \<Longrightarrow> J s'"
    "J (snd st)" "drain_available ops q process l st = (r, l', m', s')"
  shows "J s'"
proof (cases "\<exists>avail. drain_available ops q process l st = drain_loop ops q process avail l 0 st")
  case True
  then obtain avail where "drain_loop ops q process avail l 0 st = (r, l', m', s')" using assms(3) by auto
  moreover have "J (snd (snd (snd (drain_loop ops q process avail l 0 st))))"
    by (rule drain_loop_state) (use assms(1,2) in blast)+
  ultimately show ?thesis by simp
next
  case False
  then have "\<And>avail. drain_loop ops q process avail l 0 st \<noteq> (r, l', m', s')" using assms(3) by metis
  then have "s' = snd st" using assms(3) by (auto simp: drain_available_def split: sum.splits)
  then show ?thesis using assms(2) by simp
qed

lemma process_tx_wf:
  assumes "net_wf d" "process_tx mops nops head (m, d) = (r, m', d')"
  shows "net_wf d'"
proof -
  have "d' = d \<or> (\<exists>b. d' = d\<lparr>net_backend := b\<rparr>) \<or> (\<exists>x. d' = d\<lparr>net_tx_dropped := x\<rparr>)"
    using assms(2) by (auto simp: process_tx_def Let_def split: sum.splits if_splits)
  with assms(1) show ?thesis by (auto simp: net_wf_def)
qed

lemma process_rx_wf:
  assumes "net_wf d" "process_rx mops head frame (m, d) = (r, m', d')"
  shows "net_wf d'"
proof -
  have "d' = d \<or> (\<exists>x. d' = d\<lparr>net_rx_dropped := x\<rparr>)"
    using assms(2) by (auto simp: process_rx_def Let_def split: sum.splits if_splits prod.splits)
  with assms(1) show ?thesis by (auto simp: net_wf_def)
qed

lemma net_wf_rx_bump:
  "net_wf d \<Longrightarrow> net_wf (d\<lparr>net_last_seen_avail := (net_last_seen_avail d)[QUEUE_RX := y], net_rx_drained := z\<rparr>)"
  by (simp add: net_wf_def)

lemma drain_rx_loop_wf:
  "net_wf d \<Longrightarrow> drain_rx_loop mops q n c (m, d) = (r, m', d') \<Longrightarrow> net_wf d'"
proof (induction n arbitrary: c m d)
  case (Suc n)
  have tl: "net_wf (d\<lparr>net_rx_backlog := tl (net_rx_backlog d)\<rparr>)"
    using Suc.prems(1) by (auto simp: net_wf_def)
  show ?case
    using Suc.prems
    by (auto simp: Let_def split: if_splits sum.splits prod.splits
        dest: process_rx_wf [OF tl] Suc.IH [OF net_wf_rx_bump])
qed simp

lemma net_push_wf: "net_wf d \<Longrightarrow> net_wf (net_push_frame f d)"
  by (auto simp: net_wf_def net_push_frame_def Let_def RX_BACKLOG_CAP_def)

lemma net_poll_backend_wf: "net_wf d \<Longrightarrow> net_wf (net_poll_backend nops now d)"
proof -
  have "net_wf (fold net_push_frame fs x)" if "net_wf x" for fs :: "bytes list" and x :: "'a virtio_net"
    using that by (induction fs arbitrary: x) (simp_all add: net_push_wf)
  then show "net_wf d \<Longrightarrow> net_wf (net_poll_backend nops now d)"
    by (auto simp: net_poll_backend_def net_wf_def Let_def split: prod.splits)
qed

lemma drain_tx_wf: "net_wf d \<Longrightarrow> drain_tx mops nops (m, d) = (r, m', d') \<Longrightarrow> net_wf d'"
proof -
  assume d: "net_wf d" and run: "drain_tx mops nops (m, d) = (r, m', d')"
  obtain r1 l1 m1 d1 where a: "drain_available mops (net_queues d ! QUEUE_TX) (process_tx mops nops)
      (net_last_seen_avail d ! QUEUE_TX) (m, d) = (r1, l1, m1, d1)" by (rule prod_cases4)
  have "net_wf d1"
    by (rule drain_available_state [where J = net_wf, OF _ _ a]) (use d process_tx_wf in auto)
  with a run show "net_wf d'" by (auto simp: drain_tx_def net_wf_def split: sum.splits)
qed

lemma drain_rx_wf: "net_wf d \<Longrightarrow> drain_rx mops (m, d) = (r, m', d') \<Longrightarrow> net_wf d'"
  by (auto simp: drain_rx_def Let_def split: sum.splits prod.splits dest: drain_rx_loop_wf)

lemma net_poll_wf:
  assumes "net_wf d" "net_poll mops nops now (m, d) = (e, m', d')"
  shows "net_wf d'"
proof -
  have kick: "net_wf (d\<lparr>net_kick_pending := (net_kick_pending d)[QUEUE_TX := False]\<rparr>)"
    using assms(1) by (simp add: net_wf_def)
  have inner: "net_wf d1" if "net_poll_inner mops nops now (m, d) = (r, m1, d1)" for r m1 d1
    using that assms(1) kick
    by (auto simp: net_poll_inner_def Let_def net_poll_backend_wf split: sum.splits if_splits prod.splits
        dest: drain_tx_wf [OF kick] drain_rx_wf [OF net_poll_backend_wf])
  obtain r m1 d1 where "net_poll_inner mops nops now (m, d) = (r, m1, d1)" by (metis prod_cases3)
  with inner assms show ?thesis
    by (auto simp: net_poll_def net_wf_def split: sum.splits if_splits)
qed

datatype net_event = NetWrite u64 u32 | NetTick nat

fun net_step :: "'m guest_mem_ops \<Rightarrow> 'n net_backend_ops \<Rightarrow> net_event \<Rightarrow> 'm \<times> 'n virtio_net \<Rightarrow> 'm \<times> 'n virtio_net" where
  "net_step mops nops (NetWrite offset v) (m, d) = (m, net_mmio_write nops d offset v)"
| "net_step mops nops (NetTick now) (m, d) = snd (net_poll mops nops now (m, d))"

text \<open>
  C23: Bounds over every run. Whatever the guest writes, whenever the device is polled and whatever
  frames the backend produces, starting from a fresh device: the selected queue always exists, so no
  register access indexes past the two queues; no queue is larger than 128 entries and a ready queue
  is not empty; and the receive backlog never holds more than 128 frames.
\<close>

theorem net_run_bounds:
  "net_wf (snd (fold (net_step mops nops) evs (m, net_new nops b now)))"
proof -
  have new: "net_wf (net_new nops b now)"
    by (auto simp: net_wf_def net_new_def queue_layout_default_def nth_Cons split: nat.splits)
  have "net_wf (snd (fold (net_step mops nops) evs (m, d)))" if "net_wf d" for m d
    using that
  proof (induction evs arbitrary: m d)
    case (Cons ev evs)
    obtain m1 d1 where st: "net_step mops nops ev (m, d) = (m1, d1)" by fastforce
    have "net_wf d1"
    proof (cases ev)
      case (NetWrite x v)
      with st Cons.prems show ?thesis by (auto simp: net_wf_write)
    next
      case (NetTick now)
      with st obtain e where "net_poll mops nops now (m, d) = (e, m1, d1)"
        by (cases "net_poll mops nops now (m, d)") auto
      then show ?thesis by (rule net_poll_wf [OF Cons.prems])
    qed
    with Cons.IH [of d1 m1] st show ?case by simp
  qed simp
  with new show ?thesis by blast
qed

end
