(* ===== verification/Guest_Memory.thy ===== *)
theory Guest_Memory
  imports Virtio_Block_Correct Virtio_Net_Correct Io_Apic Local_Apic Cpu_Error
begin

text \<open>
  Physical guest memory (\<open>memory.rs\<close>): RAM, the device windows and the dispatch between them, the
  device polls and the interrupt forwarding from the I/O APIC to the local APIC. A slice index out
  of range, which panics the host, is the value \<open>HostPanic\<close>.
\<close>

section \<open>State and address map\<close>

record ('b, 'n) memory =
  mem_ram :: bytes
  mem_lapic :: "local_apic option"
  mem_ioapic :: io_apic
  mem_virtio_blk :: "'b virtio_blk option"
  mem_virtio_blk2 :: "'b virtio_blk option"
  mem_virtio_net :: "'n virtio_net option"
  mem_generation :: u64
  mem_code_gen :: "u32 list"

definition LAPIC_BASE :: u64 where "LAPIC_BASE = 0xFEE00000"
definition LAPIC_SIZE :: u64 where "LAPIC_SIZE = 0x1000"
definition IOAPIC_BASE :: u64 where "IOAPIC_BASE = 0xFEC00000"
definition IOAPIC_SIZE :: u64 where "IOAPIC_SIZE = 0x1000"
definition VIRTIO_MMIO_BASE :: u64 where "VIRTIO_MMIO_BASE = 0xFEBF0000"
definition VIRTIO_NET_MMIO_BASE :: u64 where "VIRTIO_NET_MMIO_BASE = VIRTIO_MMIO_BASE + 0x1000"
definition VIRTIO_BLK2_MMIO_BASE :: u64 where "VIRTIO_BLK2_MMIO_BASE = VIRTIO_MMIO_BASE + 0x2000"
definition VIRTIO_MMIO_REGISTER_BYTES :: u64 where "VIRTIO_MMIO_REGISTER_BYTES = 0x200"
definition VIRTIO_MMIO_WINDOW_BYTES :: u64 where "VIRTIO_MMIO_WINDOW_BYTES = 0x400"

definition in_lapic :: "u64 \<Rightarrow> bool" where
  "in_lapic a \<longleftrightarrow> LAPIC_BASE \<le> a \<and> a < LAPIC_BASE + LAPIC_SIZE"
definition in_ioapic :: "u64 \<Rightarrow> bool" where
  "in_ioapic a \<longleftrightarrow> IOAPIC_BASE \<le> a \<and> a < IOAPIC_BASE + IOAPIC_SIZE"
definition in_virtio :: "u64 \<Rightarrow> bool" where
  "in_virtio a \<longleftrightarrow> VIRTIO_MMIO_BASE \<le> a \<and> a < VIRTIO_MMIO_BASE + VIRTIO_MMIO_WINDOW_BYTES"
definition in_virtio_blk2 :: "u64 \<Rightarrow> bool" where
  "in_virtio_blk2 a \<longleftrightarrow> VIRTIO_BLK2_MMIO_BASE \<le> a \<and> a < VIRTIO_BLK2_MMIO_BASE + VIRTIO_MMIO_WINDOW_BYTES"
definition in_virtio_net :: "u64 \<Rightarrow> bool" where
  "in_virtio_net a \<longleftrightarrow> VIRTIO_NET_MMIO_BASE \<le> a \<and> a < VIRTIO_NET_MMIO_BASE + VIRTIO_MMIO_WINDOW_BYTES"

definition mem_new :: "nat \<Rightarrow> cpu_error + ('b, 'n) memory" where
  "mem_new megabytes =
     (if megabytes = 0 then Inl (InvalidConfig ''guest memory must be at least 1 MiB'')
      else if 2 ^ 64 \<le> megabytes * (1024 * 1024) then Inl (InvalidConfig ''guest memory size overflow'')
      else let n = megabytes * (1024 * 1024); pages = (n + PAGE_SIZE - 1) div PAGE_SIZE
           in Inr \<lparr>mem_ram = replicate n 0, mem_lapic = None, mem_ioapic = io_apic_new,
                mem_virtio_blk = None, mem_virtio_blk2 = None, mem_virtio_net = None,
                mem_generation = 0, mem_code_gen = replicate pages 0\<rparr>)"

definition page_generation :: "('b, 'n) memory \<Rightarrow> u64 \<Rightarrow> u32" where
  "page_generation m physical =
     (let page = unat physical div PAGE_SIZE
      in if page < length (mem_code_gen m) then mem_code_gen m ! page else 0)"

section \<open>Attaching devices\<close>

definition attach_lapic :: "('b, 'n) memory \<Rightarrow> ('b, 'n) memory" where
  "attach_lapic m = m\<lparr>mem_lapic := Some local_apic_new\<rparr>"

definition attach_virtio_blk :: "'b virtio_blk \<Rightarrow> ('b, 'n) memory \<Rightarrow> cpu_error + ('b, 'n) memory" where
  "attach_virtio_blk d m =
     (if mem_virtio_blk m \<noteq> None then Inl (InvalidConfig ''a virtio block device is already attached'')
      else Inr (m\<lparr>mem_virtio_blk := Some d\<rparr>))"

definition attach_virtio_blk2 :: "'b virtio_blk \<Rightarrow> ('b, 'n) memory \<Rightarrow> cpu_error + ('b, 'n) memory" where
  "attach_virtio_blk2 d m =
     (if mem_virtio_blk2 m \<noteq> None
      then Inl (InvalidConfig ''a second virtio block device is already attached'')
      else Inr (m\<lparr>mem_virtio_blk2 := Some d\<rparr>))"

definition attach_virtio_net :: "'n virtio_net \<Rightarrow> ('b, 'n) memory \<Rightarrow> cpu_error + ('b, 'n) memory" where
  "attach_virtio_net d m =
     (if mem_virtio_net m \<noteq> None then Inl (InvalidConfig ''a virtio network device is already attached'')
      else Inr (m\<lparr>mem_virtio_net := Some d\<rparr>))"

definition virtio_blk_fault :: "('b, 'n) memory \<Rightarrow> string option" where
  "virtio_blk_fault m = Option.bind (mem_virtio_blk m) blk_fault"
definition virtio_blk2_fault :: "('b, 'n) memory \<Rightarrow> string option" where
  "virtio_blk2_fault m = Option.bind (mem_virtio_blk2 m) blk_fault"
definition virtio_net_fault :: "('b, 'n) memory \<Rightarrow> string option" where
  "virtio_net_fault m = Option.bind (mem_virtio_net m) net_fault"

section \<open>Interrupt controllers\<close>

definition lapic_pop_interrupt :: "('b, 'n) memory \<Rightarrow> u8 option \<times> ('b, 'n) memory" where
  "lapic_pop_interrupt m =
     (case mem_lapic m of None \<Rightarrow> (None, m)
      | Some l \<Rightarrow> (case pop_interrupt l of (v, l) \<Rightarrow> (v, m\<lparr>mem_lapic := Some l\<rparr>)))"

definition mem_lapic_tick :: "('b, 'n) memory \<Rightarrow> u32 \<Rightarrow> ('b, 'n) memory" where
  "mem_lapic_tick m instructions =
     (case mem_lapic m of None \<Rightarrow> m | Some l \<Rightarrow> m\<lparr>mem_lapic := Some (lapic_tick l instructions)\<rparr>)"

definition forward_to_lapic :: "u8 list \<Rightarrow> ('b, 'n) memory \<Rightarrow> ('b, 'n) memory" where
  "forward_to_lapic vectors m =
     (if vectors = [] then m
      else case mem_lapic m of None \<Rightarrow> m
           | Some l \<Rightarrow> m\<lparr>mem_lapic := Some (fold (\<lambda>v l. request l v) vectors l)\<rparr>)"

definition ioapic_set_lines :: "u32 \<Rightarrow> ('b, 'n) memory \<Rightarrow> ('b, 'n) memory" where
  "ioapic_set_lines lines m =
     (case set_lines (mem_ioapic m) lines of (fired, io) \<Rightarrow>
        forward_to_lapic fired (m\<lparr>mem_ioapic := io\<rparr>))"

definition ioapic_pulse :: "u8 \<Rightarrow> u32 \<Rightarrow> ('b, 'n) memory \<Rightarrow> ('b, 'n) memory" where
  "ioapic_pulse pin levels m =
     (let b = wshl1 (unat pin) in
      case set_lines (mem_ioapic m) (levels OR b) of (fired, io) \<Rightarrow>
      case set_lines io (levels AND NOT b) of (_, io) \<Rightarrow>
        forward_to_lapic fired (m\<lparr>mem_ioapic := io\<rparr>))"

section \<open>Device polls\<close>

definition lend :: "('b, 'n) memory \<Rightarrow> device_memory" where
  "lend m = \<lparr>dm_ram = mem_ram m, dm_code_gen = mem_code_gen m, dm_wrote = False\<rparr>"

definition take_back :: "device_memory \<Rightarrow> ('b, 'n) memory \<Rightarrow> ('b, 'n) memory" where
  "take_back g m = m\<lparr>mem_ram := dm_ram g, mem_code_gen := dm_code_gen g,
     mem_generation := (if dm_wrote g then mem_generation m + 1 else mem_generation m)\<rparr>"

definition poll_virtio_irq :: "'b block_backend_ops \<Rightarrow> ('b, 'n) memory \<Rightarrow> bool \<times> ('b, 'n) memory" where
  "poll_virtio_irq bops m =
     (case mem_virtio_blk m of None \<Rightarrow> (False, m)
      | Some d \<Rightarrow> (case blk_poll_kick device_mem_ops bops (lend m, d) of (completed, g, d) \<Rightarrow>
          (completed, (take_back g m)\<lparr>mem_virtio_blk := Some d\<rparr>)))"

definition poll_virtio_blk2_irq :: "'b block_backend_ops \<Rightarrow> ('b, 'n) memory \<Rightarrow> bool \<times> ('b, 'n) memory" where
  "poll_virtio_blk2_irq bops m =
     (case mem_virtio_blk2 m of None \<Rightarrow> (False, m)
      | Some d \<Rightarrow> (case blk_poll_kick device_mem_ops bops (lend m, d) of (completed, g, d) \<Rightarrow>
          (completed, (take_back g m)\<lparr>mem_virtio_blk2 := Some d\<rparr>)))"

definition poll_virtio_net :: "'n net_backend_ops \<Rightarrow> nat \<Rightarrow> ('b, 'n) memory \<Rightarrow> bool \<times> ('b, 'n) memory" where
  "poll_virtio_net nops now m =
     (case mem_virtio_net m of None \<Rightarrow> (False, m)
      | Some d \<Rightarrow> (case net_poll device_mem_ops nops now (lend m, d) of (completed, g, d) \<Rightarrow>
          (completed, (take_back g m)\<lparr>mem_virtio_net := Some d\<rparr>)))"

section \<open>Reads and writes\<close>

text \<open>
  A register read of \<open>n\<close> bytes: the first word, then what is left of a second word; slicing more
  than four bytes out of that word panics.
\<close>

definition two_words :: "u32 \<Rightarrow> u32 \<Rightarrow> nat \<Rightarrow> cpu_error + bytes" where
  "two_words v v2 n =
     (if n \<le> 4 then Inr (take n (to_le 4 v))
      else if n \<le> 8 then Inr (to_le 4 v @ take (n - 4) (to_le 4 v2))
      else Inl (HostPanic ''range end index out of range for slice of length 4''))"

definition virtio_window_read :: "(u64 \<Rightarrow> u32) option \<Rightarrow> u64 \<Rightarrow> nat \<Rightarrow> cpu_error + bytes" where
  "virtio_window_read device offset n =
     (if VIRTIO_MMIO_REGISTER_BYTES \<le> offset then Inr (replicate n 0)
      else case device of None \<Rightarrow> Inr (replicate n 0)
           | Some mmio_read \<Rightarrow> two_words (mmio_read offset) (mmio_read (offset + 4)) n)"

definition mem_read :: "('b, 'n) memory \<Rightarrow> u64 \<Rightarrow> nat \<Rightarrow> cpu_error + bytes" where
  "mem_read m a n =
     (if in_virtio_blk2 a
      then virtio_window_read (map_option blk_mmio_read (mem_virtio_blk2 m)) (a - VIRTIO_BLK2_MMIO_BASE) n
      else if in_virtio_net a
      then virtio_window_read (map_option net_mmio_read (mem_virtio_net m)) (a - VIRTIO_NET_MMIO_BASE) n
      else if in_virtio a
      then virtio_window_read (map_option blk_mmio_read (mem_virtio_blk m)) (a - VIRTIO_MMIO_BASE) n
      else if in_ioapic a
      then Inr (take n (to_le 4 (ioapic_read (mem_ioapic m) (a - IOAPIC_BASE) (of_nat n))) @ replicate (n - 4) 0)
      else if in_lapic a \<and> mem_lapic m \<noteq> None
      then let l = the (mem_lapic m); offset = a - LAPIC_BASE
           in two_words (lapic_read l offset (of_nat n)) (lapic_read l (offset + 4) (of_nat (n - 4))) n
      else case checked_add a (of_nat n) of
        None \<Rightarrow> Inl (GuestFault (''memory read address overflow at 0x'' @ show_radix 16 (unat a)))
      | Some stop \<Rightarrow>
          if of_nat (length (mem_ram m)) < stop
          then Inl (GuestFault (''memory read 0x'' @ show_radix 16 (unat a) @ ''..0x''
                 @ show_radix 16 (unat stop) @ '' exceeds '' @ show_radix 10 (length (mem_ram m)) @ '' bytes''))
          else Inr (slice (unat a) n (mem_ram m)))"

definition mmio_value :: "bytes \<Rightarrow> u32" where
  "mmio_value input = from_le (take 4 input @ replicate (4 - min (length input) 4) 0)"

definition lapic_window_write :: "u64 \<Rightarrow> bytes \<Rightarrow> local_apic \<Rightarrow> ('b, 'n) memory \<Rightarrow> ('b, 'n) memory" where
  "lapic_window_write offset input l m =
     (case lapic_write l offset (of_nat (length input)) (mmio_value input) of (retired, l) \<Rightarrow>
      let m = m\<lparr>mem_lapic := Some l\<rparr> in
      case retired of None \<Rightarrow> m
      | Some v \<Rightarrow> (case ioapic_end_of_interrupt (mem_ioapic m) v of (refired, io) \<Rightarrow>
          forward_to_lapic refired (m\<lparr>mem_ioapic := io\<rparr>)))"

definition mem_write :: "'n net_backend_ops \<Rightarrow> ('b, 'n) memory \<Rightarrow> u64 \<Rightarrow> bytes \<Rightarrow> cpu_error + ('b, 'n) memory" where
  "mem_write nops m a input =
     (if in_virtio_blk2 a
      then let offset = a - VIRTIO_BLK2_MMIO_BASE in
           Inr (if offset < VIRTIO_MMIO_REGISTER_BYTES
                then m\<lparr>mem_virtio_blk2 := map_option (\<lambda>d. blk_mmio_write d offset (mmio_value input)) (mem_virtio_blk2 m)\<rparr>
                else m)
      else if in_virtio_net a
      then let offset = a - VIRTIO_NET_MMIO_BASE in
           Inr (if offset < VIRTIO_MMIO_REGISTER_BYTES
                then m\<lparr>mem_virtio_net := map_option (\<lambda>d. net_mmio_write nops d offset (mmio_value input)) (mem_virtio_net m)\<rparr>
                else m)
      else if in_virtio a
      then let offset = a - VIRTIO_MMIO_BASE in
           Inr (if offset < VIRTIO_MMIO_REGISTER_BYTES
                then m\<lparr>mem_virtio_blk := map_option (\<lambda>d. blk_mmio_write d offset (mmio_value input)) (mem_virtio_blk m)\<rparr>
                else m)
      else if in_ioapic a
      then Inr (m\<lparr>mem_ioapic := ioapic_write (mem_ioapic m) (a - IOAPIC_BASE) (of_nat (length input)) (mmio_value input)\<rparr>)
      else if in_lapic a \<and> mem_lapic m \<noteq> None
      then Inr (lapic_window_write (a - LAPIC_BASE) input (the (mem_lapic m)) m)
      else case checked_add a (of_nat (length input)) of
        None \<Rightarrow> Inl (GuestFault (''memory write address overflow at 0x'' @ show_radix 16 (unat a)))
      | Some stop \<Rightarrow>
          if of_nat (length (mem_ram m)) < stop
          then Inl (GuestFault (''memory write 0x'' @ show_radix 16 (unat a) @ ''..0x''
                 @ show_radix 16 (unat stop) @ '' exceeds '' @ show_radix 10 (length (mem_ram m)) @ '' bytes''))
          else Inr (m\<lparr>mem_ram := splice (unat a) input (mem_ram m),
                      mem_generation := mem_generation m + 1,
                      mem_code_gen := bump_page_counters (mem_code_gen m) (unat a) (length input)\<rparr>))"

section \<open>Scalar accesses\<close>

definition read_u64_at :: "('b, 'n) memory \<Rightarrow> u64 \<Rightarrow> nat \<Rightarrow> cpu_error + u64" where
  "read_u64_at m a n = bind_res (mem_read m a n) (\<lambda>bs. Inr (from_le (bs @ replicate (8 - n) 0)))"

definition read_u8 :: "('b, 'n) memory \<Rightarrow> u64 \<Rightarrow> cpu_error + u8" where
  "read_u8 m a = bind_res (read_u64_at m a 1) (\<lambda>v. Inr (ucast v))"
definition read_u16 :: "('b, 'n) memory \<Rightarrow> u64 \<Rightarrow> cpu_error + u16" where
  "read_u16 m a = bind_res (read_u64_at m a 2) (\<lambda>v. Inr (ucast v))"
definition read_u32 :: "('b, 'n) memory \<Rightarrow> u64 \<Rightarrow> cpu_error + u32" where
  "read_u32 m a = bind_res (read_u64_at m a 4) (\<lambda>v. Inr (ucast v))"
definition read_u64 :: "('b, 'n) memory \<Rightarrow> u64 \<Rightarrow> cpu_error + u64" where
  "read_u64 m a = read_u64_at m a 8"

definition write_u8 :: "'n net_backend_ops \<Rightarrow> ('b, 'n) memory \<Rightarrow> u64 \<Rightarrow> u8 \<Rightarrow> cpu_error + ('b, 'n) memory" where
  "write_u8 nops m a v = mem_write nops m a (to_le 1 v)"
definition write_u16 :: "'n net_backend_ops \<Rightarrow> ('b, 'n) memory \<Rightarrow> u64 \<Rightarrow> u16 \<Rightarrow> cpu_error + ('b, 'n) memory" where
  "write_u16 nops m a v = mem_write nops m a (to_le 2 v)"
definition write_u32 :: "'n net_backend_ops \<Rightarrow> ('b, 'n) memory \<Rightarrow> u64 \<Rightarrow> u32 \<Rightarrow> cpu_error + ('b, 'n) memory" where
  "write_u32 nops m a v = mem_write nops m a (to_le 4 v)"
definition write_u64 :: "'n net_backend_ops \<Rightarrow> ('b, 'n) memory \<Rightarrow> u64 \<Rightarrow> u64 \<Rightarrow> cpu_error + ('b, 'n) memory" where
  "write_u64 nops m a v = mem_write nops m a (to_le 8 v)"

end
