(* ===== verification/Guest_Memory_Correct.thy ===== *)
theory Guest_Memory_Correct
  imports Guest_Memory
begin

text \<open>
  Correctness of physical memory: RAM accesses, invalidation of cached decodes and translations,
  the boundary of the device windows, and interrupt forwarding across the three components.
\<close>

section \<open>RAM below the device windows\<close>

text \<open>
  The provider caps guest memory at 1024 MiB, far below the lowest device window; the write
  counters cover all of RAM.
\<close>

definition mem_wf :: "('b, 'n) memory \<Rightarrow> bool" where
  "mem_wf m \<longleftrightarrow> length (mem_ram m) \<le> 0xFEBF0000 \<and> length (mem_ram m) \<le> length (mem_code_gen m) * PAGE_SIZE"

lemma mem_new_wf:
  assumes "mem_new mb = Inr m" "mb \<le> 1024"
  shows "mem_wf m"
proof -
  have "mb * (1024 * 1024) \<le> (mb * (1024 * 1024) + PAGE_SIZE - 1) div PAGE_SIZE * PAGE_SIZE"
    using div_mult_mod_eq [of "mb * (1024 * 1024) + PAGE_SIZE - 1" PAGE_SIZE]
      mod_less_divisor [of PAGE_SIZE "mb * (1024 * 1024) + PAGE_SIZE - 1"]
    by (simp add: PAGE_SIZE_def)
  with assms show ?thesis by (auto simp: mem_new_def Let_def mem_wf_def split: if_splits)
qed

lemmas window_defs = in_lapic_def in_ioapic_def in_virtio_def in_virtio_blk2_def in_virtio_net_def
  LAPIC_BASE_def LAPIC_SIZE_def IOAPIC_BASE_def IOAPIC_SIZE_def VIRTIO_MMIO_BASE_def
  VIRTIO_NET_MMIO_BASE_def VIRTIO_BLK2_MMIO_BASE_def VIRTIO_MMIO_WINDOW_BYTES_def

lemma below_windows:
  assumes "unat a < 0xFEBF0000"
  shows "\<not> in_lapic a" "\<not> in_ioapic a" "\<not> in_virtio a" "\<not> in_virtio_blk2 a" "\<not> in_virtio_net a"
  using assms by (simp_all add: window_defs word_le_nat_alt not_le)

lemma mem_ram_range:
  assumes "length (mem_ram m) < 2 ^ 64" "unat a + n \<le> length (mem_ram m)"
  shows "checked_add a (of_nat n :: u64) = Some (a + of_nat n)"
    "\<not> of_nat (length (mem_ram m)) < a + of_nat n"
proof -
  have n: "unat (of_nat n :: u64) = n" "unat (of_nat (length (mem_ram m)) :: u64) = length (mem_ram m)"
    using assms by (simp_all add: unat_of_nat_small)
  show "checked_add a (of_nat n) = Some (a + of_nat n)"
    using assms n by (simp add: checked_add_def)
  show "\<not> of_nat (length (mem_ram m)) < a + of_nat n"
    using assms n unat_add_of_nat [of a n] by (simp add: word_less_nat_alt)
qed

lemma mem_read_ram:
  assumes "mem_wf m" "0 < n" "unat a + n \<le> length (mem_ram m)"
  shows "mem_read m a n = Inr (slice (unat a) n (mem_ram m))"
proof -
  have "unat a < 0xFEBF0000" "length (mem_ram m) < 2 ^ 64" using assms by (auto simp: mem_wf_def)
  with assms(3) show ?thesis by (simp add: mem_read_def below_windows mem_ram_range)
qed

lemma mem_write_ram:
  assumes "mem_wf m" "bs \<noteq> []" "unat a + length bs \<le> length (mem_ram m)"
  shows "mem_write nops m a bs = Inr (m\<lparr>mem_ram := splice (unat a) bs (mem_ram m),
    mem_generation := mem_generation m + 1,
    mem_code_gen := bump_page_counters (mem_code_gen m) (unat a) (length bs)\<rparr>)"
proof -
  have "0 < length bs" using assms(2) by simp
  moreover have "length (mem_ram m) \<le> 0xFEBF0000" using assms(1) by (simp add: mem_wf_def)
  ultimately have "unat a < 0xFEBF0000" using assms(3) by linarith
  moreover have "length (mem_ram m) < 2 ^ 64" using \<open>length (mem_ram m) \<le> 0xFEBF0000\<close> by simp
  ultimately show ?thesis using assms(3) by (simp add: mem_write_def below_windows mem_ram_range)
qed

definition mem_example :: "(vec_block_backend, bytes list) memory" where
  "mem_example = \<lparr>mem_ram = replicate 32 0, mem_lapic = Some local_apic_new, mem_ioapic = io_apic_new,
     mem_virtio_blk = None, mem_virtio_blk2 = None, mem_virtio_net = None, mem_generation = 0,
     mem_code_gen = [0]\<rparr>"

lemma mem_example_wf: "mem_wf mem_example" "length (mem_ram mem_example) = 32"
  by (simp_all add: mem_wf_def mem_example_def PAGE_SIZE_def)

text \<open>
  C25: RAM behaves as a byte array. A write inside RAM succeeds, and every later read inside RAM
  returns the bytes of the old array with the written range replaced: the written bytes where the
  ranges meet and the old bytes everywhere else.
\<close>

theorem mem_read_after_write:
  assumes "mem_wf m" "bs \<noteq> []" "unat a + length bs \<le> length (mem_ram m)"
  shows "\<exists>m'. mem_write nops m a bs = Inr m' \<and> mem_wf m' \<and> length (mem_ram m') = length (mem_ram m)
    \<and> (\<forall>b n. 0 < n \<and> unat b + n \<le> length (mem_ram m) \<longrightarrow>
          mem_read m' b n = Inr (slice (unat b) n (splice (unat a) bs (mem_ram m))))"
proof -
  define m' where "m' = m\<lparr>mem_ram := splice (unat a) bs (mem_ram m), mem_generation := mem_generation m + 1,
    mem_code_gen := bump_page_counters (mem_code_gen m) (unat a) (length bs)\<rparr>"
  have "mem_write nops m a bs = Inr m'" using mem_write_ram [OF assms] by (simp add: m'_def)
  moreover have wf: "mem_wf m'" "length (mem_ram m') = length (mem_ram m)"
    using assms by (simp_all add: mem_wf_def m'_def)
  ultimately show ?thesis using mem_read_ram [OF wf(1)] by (auto simp: m'_def)
qed

theorem mem_read_after_write_witness:
  "\<exists>m'. mem_write net_demo_ops mem_example 4 [1, 2] = Inr m' \<and> mem_read m' 3 4 = Inr [0, 1, 2, 0]"
proof -
  obtain m' where "mem_write net_demo_ops mem_example 4 [1, 2] = Inr m'"
    "\<forall>b n. 0 < n \<and> unat b + n \<le> 32 \<longrightarrow>
       mem_read m' b n = Inr (slice (unat b) n (splice 4 [1, 2] (mem_ram mem_example)))"
    using mem_read_after_write [OF mem_example_wf(1), of "[1, 2]" 4 net_demo_ops]
    by (auto simp: mem_example_wf(2))
  moreover have "slice 3 4 (splice 4 [1, 2] (mem_ram mem_example)) = [0, 1, 2, 0]" by code_simp
  ultimately show ?thesis by (intro exI [of _ m']) (simp del: mult_numeral_left)
qed

lemma mem_read_own_write:
  assumes "mem_wf m" "bs \<noteq> []" "unat a + length bs \<le> length (mem_ram m)"
  shows "\<exists>m'. mem_write nops m a bs = Inr m' \<and> mem_read m' a (length bs) = Inr bs"
proof -
  define m' where "m' = m\<lparr>mem_ram := splice (unat a) bs (mem_ram m), mem_generation := mem_generation m + 1,
    mem_code_gen := bump_page_counters (mem_code_gen m) (unat a) (length bs)\<rparr>"
  have wf: "mem_wf m'" "length (mem_ram m') = length (mem_ram m)"
    using assms by (simp_all add: mem_wf_def m'_def)
  have "mem_read m' a (length bs) = Inr (slice (unat a) (length bs) (mem_ram m'))"
    using mem_read_ram [OF wf(1), of "length bs" a] assms wf(2) by simp
  then show ?thesis
    using mem_write_ram [OF assms, of nops] slice_splice_same [OF assms(3)] by (simp add: m'_def)
qed

lemma from_le_zeros: "(from_le (bs @ replicate k 0) :: 'a::len word) = from_le bs"
proof (induction bs)
  case Nil
  show ?case by (induction k) simp_all
qed simp

lemma ucast_from_le: "LENGTH('b) \<le> LENGTH('a) \<Longrightarrow> ucast (from_le bs :: 'a::len word) = (from_le bs :: 'b::len word)"
  by (rule bit_word_eqI) (simp add: bit_unsigned_iff bit_from_le)

text \<open>
  Scalars survive a round trip through RAM at every width, aligned or not.
\<close>

theorem mem_scalar_round_trip:
  assumes "mem_wf m" "unat a + 8 \<le> length (mem_ram m)"
  shows "bind_res (write_u8 nops m a v8) (\<lambda>m'. read_u8 m' a) = Inr v8
    \<and> bind_res (write_u16 nops m a v16) (\<lambda>m'. read_u16 m' a) = Inr v16
    \<and> bind_res (write_u32 nops m a v32) (\<lambda>m'. read_u32 m' a) = Inr v32
    \<and> bind_res (write_u64 nops m a v64) (\<lambda>m'. read_u64 m' a) = Inr v64"
proof -
  have rt: "bind_res (mem_write nops m a bs) (\<lambda>m'. read_u64_at m' a (length bs)) = Inr (from_le bs)"
    if "0 < length bs" "length bs \<le> 8" for bs
    using mem_read_own_write [OF assms(1), of bs a nops] that assms(2)
    by (auto simp: read_u64_at_def from_le_zeros)
  have l8: "(from_le (to_le 1 v8) :: u8) = v8" using from_le_to_le [of 1 v8] by simp
  have "bind_res (write_u8 nops m a v8) (\<lambda>m'. read_u8 m' a) = Inr v8"
    using rt [of "to_le 1 v8"] l8
    by (simp only: length_to_le) (auto simp: write_u8_def read_u8_def bind_res_eq_Inr ucast_from_le)
  moreover have "bind_res (write_u16 nops m a v16) (\<lambda>m'. read_u16 m' a) = Inr v16"
    using rt [of "to_le 2 v16"] by (auto simp: write_u16_def read_u16_def bind_res_eq_Inr ucast_from_le)
  moreover have "bind_res (write_u32 nops m a v32) (\<lambda>m'. read_u32 m' a) = Inr v32"
    using rt [of "to_le 4 v32"] by (auto simp: write_u32_def read_u32_def bind_res_eq_Inr ucast_from_le)
  moreover have "bind_res (write_u64 nops m a v64) (\<lambda>m'. read_u64 m' a) = Inr v64"
    using rt [of "to_le 8 v64"] by (auto simp: write_u64_def read_u64_def bind_res_eq_Inr)
  ultimately show ?thesis by blast
qed

theorem mem_scalar_round_trip_witness:
  "bind_res (write_u32 net_demo_ops mem_example 5 0xDEADBEEF) (\<lambda>m'. read_u32 m' 5) = Inr 0xDEADBEEF"
  using mem_scalar_round_trip [OF mem_example_wf(1), of 5 net_demo_ops _ _ "0xDEADBEEF"]
  by (simp add: mem_example_wf(2))

text \<open>The dispatch: a device window, or RAM.\<close>

definition is_mmio :: "('b, 'n) memory \<Rightarrow> u64 \<Rightarrow> bool" where
  "is_mmio m a \<longleftrightarrow> in_virtio_blk2 a \<or> in_virtio_net a \<or> in_virtio a \<or> in_ioapic a
     \<or> (in_lapic a \<and> mem_lapic m \<noteq> None)"

lemma forward_to_lapic_ram [simp]:
  "mem_ram (forward_to_lapic vs m) = mem_ram m"
  "mem_code_gen (forward_to_lapic vs m) = mem_code_gen m"
  "mem_generation (forward_to_lapic vs m) = mem_generation m"
  by (simp_all add: forward_to_lapic_def split: option.splits)

lemma lapic_window_write_ram [simp]:
  "mem_ram (lapic_window_write off bs l m) = mem_ram m"
  "mem_code_gen (lapic_window_write off bs l m) = mem_code_gen m"
  "mem_generation (lapic_window_write off bs l m) = mem_generation m"
  by (simp_all add: lapic_window_write_def Let_def split: prod.split option.split)

lemma mem_write_mmio:
  assumes "is_mmio m a"
  shows "\<exists>m'. mem_write nops m a bs = Inr m' \<and> mem_ram m' = mem_ram m
    \<and> mem_code_gen m' = mem_code_gen m \<and> mem_generation m' = mem_generation m"
  using assms unfolding is_mmio_def mem_write_def Let_def
  by (cases "mem_lapic m"; cases "in_virtio_blk2 a"; cases "in_virtio_net a"; cases "in_virtio a";
      cases "in_ioapic a"; simp)

lemma mem_write_not_mmio:
  assumes "\<not> is_mmio m a" "mem_write nops m a bs = Inr m'" "length (mem_ram m) < 2 ^ 64" "length bs < 2 ^ 64"
  shows "unat a + length bs \<le> length (mem_ram m)"
    "m' = m\<lparr>mem_ram := splice (unat a) bs (mem_ram m), mem_generation := mem_generation m + 1,
       mem_code_gen := bump_page_counters (mem_code_gen m) (unat a) (length bs)\<rparr>"
proof -
  have *: "mem_write nops m a bs = (case checked_add a (of_nat (length bs)) of
        None \<Rightarrow> Inl (GuestFault (''memory write address overflow at 0x'' @ show_radix 16 (unat a)))
      | Some stop \<Rightarrow>
          if of_nat (length (mem_ram m)) < stop
          then Inl (GuestFault (''memory write 0x'' @ show_radix 16 (unat a) @ ''..0x''
                 @ show_radix 16 (unat stop) @ '' exceeds '' @ show_radix 10 (length (mem_ram m)) @ '' bytes''))
          else Inr (m\<lparr>mem_ram := splice (unat a) bs (mem_ram m), mem_generation := mem_generation m + 1,
              mem_code_gen := bump_page_counters (mem_code_gen m) (unat a) (length bs)\<rparr>))"
    using assms(1) unfolding is_mmio_def mem_write_def by (simp only: de_Morgan_disj if_False simp_thms)
  obtain stop where c: "checked_add a (of_nat (length bs)) = Some stop" "\<not> of_nat (length (mem_ram m)) < stop"
    using assms(2) unfolding * by (cases "checked_add a (of_nat (length bs))") (auto split: if_splits)
  show "unat a + length bs \<le> length (mem_ram m)"
    using c assms(3,4) checked_add_unat [OF c(1)] by (simp add: word_less_nat_alt unat_of_nat_small)
  show "m' = m\<lparr>mem_ram := splice (unat a) bs (mem_ram m), mem_generation := mem_generation m + 1,
       mem_code_gen := bump_page_counters (mem_code_gen m) (unat a) (length bs)\<rparr>"
    using assms(2) unfolding * by (simp add: c)
qed

text \<open>
  C13: No write goes unnoticed by the caches. Whatever the address, a successful write that changes a
  byte of RAM has advanced the write counter of that byte's page and the write generation, so a decode or
  translation cached under the old counters no longer validates; pages whose counter did not move
  have not changed.
\<close>

theorem mem_write_invalidates:
  assumes "mem_wf m" "mem_write nops m a bs = Inr m'" "p < length (mem_ram m)"
    "mem_ram m' ! p \<noteq> mem_ram m ! p" "length bs < 2 ^ 64"
  shows "page_generation m' (of_nat p) = page_generation m (of_nat p) + 1
    \<and> mem_generation m' = mem_generation m + 1"
proof -
  have lt: "length (mem_ram m) < 2 ^ 64" using assms(1) by (simp add: mem_wf_def)
  have "\<not> is_mmio m a" using mem_write_mmio [of m a nops bs] assms(2,4) by auto
  note w = mem_write_not_mmio [OF this assms(2) lt assms(5)]
  have "unat a \<le> p \<and> p < unat a + length bs"
    using assms(3,4) w(1) by (auto simp: w(2) nth_splice split: if_splits)
  then have "page_touched (unat a) (length bs) (p div PAGE_SIZE)" by (auto simp: page_touched_def)
  moreover have "p div PAGE_SIZE < length (mem_code_gen m)"
    using assms(1,3) by (simp add: mem_wf_def div_less_iff_less_mult PAGE_SIZE_def)
  moreover have "unat (of_nat p :: u64) = p" using assms(3) lt by (simp add: unat_of_nat_small)
  ultimately show ?thesis
    by (simp add: page_generation_def Let_def w(2) nth_bump_page_counters)
qed

theorem mem_write_invalidates_witness:
  "\<exists>m'. mem_write net_demo_ops mem_example 4 [1, 2] = Inr m'
    \<and> page_generation m' 5 = page_generation mem_example 5 + 1"
proof -
  let ?m' = "mem_example\<lparr>mem_ram := splice 4 [1, 2] (mem_ram mem_example), mem_generation := 1,
    mem_code_gen := bump_page_counters [0] 4 2\<rparr>"
  have w: "mem_write net_demo_ops mem_example 4 [1, 2] = Inr ?m'"
    using mem_write_ram [OF mem_example_wf(1), of "[1, 2]" 4 net_demo_ops]
    by (simp add: mem_example_wf(2)) (simp add: mem_example_def numeral_2_eq_2)
  have "mem_ram ?m' ! 5 \<noteq> mem_ram mem_example ! 5" by code_simp
  from mem_write_invalidates [OF mem_example_wf(1) w _ this] w show ?thesis
    by (simp add: mem_example_wf(2))
qed

section \<open>Device windows\<close>

definition device_register :: "('b, 'n) memory \<Rightarrow> u64 \<Rightarrow> bool" where
  "device_register m a \<longleftrightarrow>
     (in_lapic a \<and> mem_lapic m \<noteq> None)
   \<or> (in_virtio a \<and> mem_virtio_blk m \<noteq> None \<and> a - VIRTIO_MMIO_BASE < VIRTIO_MMIO_REGISTER_BYTES)
   \<or> (in_virtio_blk2 a \<and> mem_virtio_blk2 m \<noteq> None \<and> a - VIRTIO_BLK2_MMIO_BASE < VIRTIO_MMIO_REGISTER_BYTES)
   \<or> (in_virtio_net a \<and> mem_virtio_net m \<noteq> None \<and> a - VIRTIO_NET_MMIO_BASE < VIRTIO_MMIO_REGISTER_BYTES)"

lemma windows_disjoint:
  "in_lapic a \<Longrightarrow> \<not> in_ioapic a \<and> \<not> in_virtio a \<and> \<not> in_virtio_blk2 a \<and> \<not> in_virtio_net a"
  "in_virtio a \<Longrightarrow> \<not> in_virtio_blk2 a \<and> \<not> in_virtio_net a"
  "in_virtio_net a \<Longrightarrow> \<not> in_virtio_blk2 a"
  by (auto simp: window_defs word_le_nat_alt word_less_nat_alt)

lemma two_words_length:
  "if n \<le> 8 then \<exists>bs. two_words v w n = Inr bs \<and> length bs = n
   else \<exists>msg. two_words v w n = Inl (HostPanic msg)"
  by (auto simp: two_words_def)

lemma device_register_read:
  assumes "device_register m a"
  shows "\<exists>v w. mem_read m a n = two_words v w n"
proof -
  consider (l) l where "in_lapic a" "mem_lapic m = Some l"
    | (b) d where "in_virtio a" "mem_virtio_blk m = Some d" "a - VIRTIO_MMIO_BASE < VIRTIO_MMIO_REGISTER_BYTES"
    | (b2) d where "in_virtio_blk2 a" "mem_virtio_blk2 m = Some d" "a - VIRTIO_BLK2_MMIO_BASE < VIRTIO_MMIO_REGISTER_BYTES"
    | (n) d where "in_virtio_net a" "mem_virtio_net m = Some d" "a - VIRTIO_NET_MMIO_BASE < VIRTIO_MMIO_REGISTER_BYTES"
    using assms unfolding device_register_def by blast
  then show ?thesis
  proof cases
    case l
    with windows_disjoint(1) [of a] show ?thesis unfolding mem_read_def Let_def by simp blast
  next
    case b
    with windows_disjoint(2) [of a] show ?thesis
      unfolding mem_read_def virtio_window_read_def by (simp add: not_le [symmetric]) blast
  next
    case b2
    then show ?thesis unfolding mem_read_def virtio_window_read_def by (simp add: not_le [symmetric]) blast
  next
    case n
    with windows_disjoint(3) [of a] show ?thesis
      unfolding mem_read_def virtio_window_read_def by (simp add: not_le [symmetric]) blast
  qed
qed

text \<open>
  C37: The boundary of the register windows. Reading up to eight bytes of an attached device succeeds
  with exactly the bytes asked for, but a longer read panics the host; instruction fetch reads
  fifteen bytes and vector loads sixteen, so guest code that executes from or vector-loads such a
  window stops the emulator.
\<close>
theorem mmio_read_width:
  assumes "device_register m a"
  shows "if n \<le> 8 then \<exists>bs. mem_read m a n = Inr bs \<and> length bs = n
    else \<exists>msg. mem_read m a n = Inl (HostPanic msg)"
  using device_register_read [OF assms, of n] two_words_length [of n] by (auto split: if_splits)

theorem mmio_read_width_witness:
  "(\<exists>bs. mem_read mem_example 0xFEE00020 8 = Inr bs) \<and> (\<exists>msg. mem_read mem_example 0xFEE00020 15 = Inl (HostPanic msg))"
proof -
  have d: "device_register mem_example 0xFEE00020"
    by (simp add: device_register_def window_defs mem_example_def)
  show ?thesis using mmio_read_width [OF d, of 8] mmio_read_width [OF d, of 15] by auto
qed

section \<open>Level-triggered lines across the two interrupt controllers\<close>

lemma vset_fold_request:
  "length (la_irr l) = 8 \<Longrightarrow> vset (la_irr (fold (\<lambda>v l. request l v) vs l)) = vset (la_irr l) \<union> unat ` set vs"
proof (induction vs arbitrary: l)
  case (Cons v vs)
  have "length (la_irr (request l v)) = 8" using Cons.prems by (simp add: request_def)
  from Cons.IH [OF this] Cons.prems show ?case by (auto simp: request_def vset_set_vector)
qed simp

text \<open>
  C24: A level-triggered interrupt is not lost while its line stays asserted. When the guest writes
  the EOI register of the local APIC and the vector it retires is that of an unmasked level entry of
  the I/O APIC whose line is still high, the vector is requested at the local APIC again by the same
  memory write, and RAM is not touched.
\<close>

theorem level_line_redelivered:
  assumes "mem_lapic m = Some l" "lapic_wf l" "io_wf (mem_ioapic m)" "highest (la_isr l) = Some v"
    "i < IOAPIC_PINS" "awaiting_eoi v (redirection (mem_ioapic m) ! i)"
    "bit (io_lines (mem_ioapic m)) i" "\<not> entry_masked (redirection (mem_ioapic m) ! i)"
  shows "\<exists>m' l'. mem_write nops m (LAPIC_BASE + 0xB0) (to_le 4 (0 :: u32)) = Inr m' \<and> mem_lapic m' = Some l'
    \<and> unat v \<in> vset (la_irr l') \<and> mem_ram m' = mem_ram m"
proof -
  let ?a = "LAPIC_BASE + 0xB0"
  have a: "in_lapic ?a" by (simp add: window_defs)
  obtain l1 where l1: "lapic_write l 0xB0 4 (mmio_value (to_le 4 (0 :: u32))) = (Some v, l1)" "lapic_wf l1"
    using assms(4) lapic_wf_eoi [OF assms(2)]
    by (simp add: lapic_write_def lapic_end_of_interrupt_def Let_def)
  let ?m1 = "m\<lparr>mem_lapic := Some l1\<rparr>"
  obtain vs io where e: "ioapic_end_of_interrupt (mem_ioapic m) v = (vs, io)" by (cases "ioapic_end_of_interrupt (mem_ioapic m) v")
  have v: "v \<in> set vs" using ioapic_eoi_eq [OF assms(3), of v] e assms(5-8) by auto
  then have ne: "vs \<noteq> []" by auto
  have w: "mem_write nops m ?a (to_le 4 (0 :: u32)) = Inr (forward_to_lapic vs (?m1\<lparr>mem_ioapic := io\<rparr>))"
    using assms(1) a windows_disjoint(1) [OF a] l1(1) e
    by (simp add: mem_write_def lapic_window_write_def Let_def LAPIC_BASE_def)
  have "length (la_irr l1) = 8" using l1(2) by (simp add: lapic_wf_def)
  from vset_fold_request [OF this, of vs] v
  have "unat v \<in> vset (la_irr (fold (\<lambda>v l. request l v) vs l1))" by auto
  with w ne show ?thesis by (simp add: forward_to_lapic_def)
qed

definition level_lapic :: local_apic where
  "level_lapic = local_apic_new\<lparr>la_isr := set_vector (la_isr local_apic_new) 0x49\<rparr>"

definition level_example :: "(vec_block_backend, bytes list) memory" where
  "level_example = mem_example\<lparr>mem_lapic := Some level_lapic, mem_ioapic := snd (set_lines io_example 0x200)\<rparr>"

lemma level_lapic_wf: "lapic_wf level_lapic" "highest (la_isr level_lapic) = Some 0x49"
proof -
  show h: "highest (la_isr level_lapic) = Some 0x49" by code_simp
  have n: "length (la_isr local_apic_new) = 8" using lapic_wf_new by (simp add: lapic_wf_def)
  have "highest (la_isr local_apic_new) = None" by code_simp
  then have "vset (la_isr local_apic_new) = {}" by (simp add: highest_None)
  then have "vset (la_isr level_lapic) = {0x49}" using n by (simp add: level_lapic_def vset_set_vector)
  then show "lapic_wf level_lapic"
    using lapic_wf_new n by (simp add: lapic_wf_def level_lapic_def)
qed

theorem level_line_redelivered_witness:
  "\<exists>m' l'. mem_write net_demo_ops level_example (LAPIC_BASE + 0xB0) (to_le 4 (0 :: u32)) = Inr m'
    \<and> mem_lapic m' = Some l' \<and> 0x49 \<in> vset (la_irr l')"
proof -
  have m: "mem_lapic level_example = Some level_lapic" "mem_ioapic level_example = snd (set_lines io_example 0x200)"
    by (simp_all add: level_example_def)
  have io: "io_wf (mem_ioapic level_example)" "9 < IOAPIC_PINS" "bit (io_lines (mem_ioapic level_example)) 9"
    using io_wf_set_lines [OF io_example_facts(1)] by (simp_all add: m IOAPIC_PINS_def io_example_facts)
  show ?thesis
    using level_line_redelivered [OF m(1) level_lapic_wf(1) io(1) level_lapic_wf(2) io(2) _ io(3), of net_demo_ops]
      io_example_facts(4,6) by (auto simp: m)
qed

end
