(* ===== verification/Cpu_State.thy ===== *)
theory Cpu_State
  imports Cpu_Error
begin

text \<open>
  The architectural state of the interpreter: segment registers with their descriptor caches
  (\<open>arch/segments.rs\<close>) and the register file (\<open>arch/registers.rs\<close>). A selector is its 16-bit value;
  the \<open>bitflags\<close> types are their 64-bit values with \<open>contains\<close> as the subset test. The segment named
  by an instruction prefix is a value of \<open>seg_name\<close>, with \<open>OtherRegister\<close> for everything that is not
  a segment register.
\<close>

section \<open>Segments\<close>

definition sel_index :: "u16 \<Rightarrow> u16" where
  "sel_index s = drop_bit 3 s"

definition sel_table :: "u16 \<Rightarrow> u8" where
  "sel_table s = (if s AND 4 \<noteq> 0 then 1 else 0)"

definition sel_rpl :: "u16 \<Rightarrow> u8" where
  "sel_rpl s = ucast (s AND 3)"

record segment_attributes =
  at_present :: bool
  at_dpl :: u8
  at_system :: bool
  at_descriptor_type :: u8
  at_accessed :: bool

record segment_register =
  seg_selector :: u16
  seg_base :: u64
  seg_limit :: u32
  seg_attributes :: segment_attributes
  seg_granularity :: bool
  seg_default_32 :: bool
  seg_long_mode :: bool
  seg_expand_down :: bool
  seg_writable_or_readable :: bool
  seg_code :: bool
  seg_conforming :: bool

definition segment_default :: segment_register where
  "segment_default =
     \<lparr>seg_selector = 0, seg_base = 0, seg_limit = - 1,
      seg_attributes = \<lparr>at_present = True, at_dpl = 0, at_system = False, at_descriptor_type = 0,
        at_accessed = False\<rparr>,
      seg_granularity = True, seg_default_32 = False, seg_long_mode = False, seg_expand_down = False,
      seg_writable_or_readable = True, seg_code = False, seg_conforming = False\<rparr>"

definition real_mode_segment :: "u16 \<Rightarrow> segment_register" where
  "real_mode_segment selector =
     segment_default\<lparr>seg_selector := selector, seg_base := push_bit 4 (ucast selector)\<rparr>"

definition is_32_bit_code :: "segment_register \<Rightarrow> bool" where
  "is_32_bit_code s \<longleftrightarrow> seg_code s \<and> seg_default_32 s"

definition effective_limit :: "segment_register \<Rightarrow> u64" where
  "effective_limit s =
     (if seg_granularity s then push_bit 12 (ucast (seg_limit s)) OR 0xFFF else ucast (seg_limit s))"

record seg_descriptor =
  de_base :: u64
  de_limit :: u32
  de_granularity :: bool
  de_default_32 :: bool
  de_long_mode :: bool
  de_present :: bool
  de_dpl :: u8
  de_system :: bool
  de_descriptor_type :: u8
  de_code :: bool
  de_conforming :: bool
  de_expand_down :: bool
  de_writable_or_readable :: bool
  de_accessed :: bool

definition descriptor_decode :: "u64 \<Rightarrow> seg_descriptor" where
  "descriptor_decode entry =
     \<lparr>de_base = drop_bit 32 (entry AND 0xFF00000000000000)
        OR drop_bit 16 (entry AND 0x000000FF00000000) OR (drop_bit 16 entry AND 0xFFFF),
      de_limit = (ucast (drop_bit 48 entry AND 0xF) * 0x10000) OR ucast (entry AND 0xFFFF),
      de_granularity = (entry AND shl1 55 \<noteq> 0),
      de_default_32 = (entry AND shl1 54 \<noteq> 0),
      de_long_mode = (entry AND shl1 53 \<noteq> 0),
      de_present = (entry AND shl1 47 \<noteq> 0),
      de_dpl = ucast (drop_bit 45 entry AND 3),
      de_system = (entry AND shl1 44 = 0),
      de_descriptor_type = ucast (drop_bit 40 entry AND 0xF),
      de_code = (entry AND shl1 43 \<noteq> 0),
      de_conforming = (entry AND shl1 42 \<noteq> 0),
      de_expand_down = (entry AND shl1 42 \<noteq> 0),
      de_writable_or_readable = (entry AND shl1 41 \<noteq> 0),
      de_accessed = (entry AND shl1 40 \<noteq> 0)\<rparr>"

definition descriptor_load :: "seg_descriptor \<Rightarrow> u16 \<Rightarrow> segment_register" where
  "descriptor_load d selector =
     \<lparr>seg_selector = selector, seg_base = de_base d, seg_limit = de_limit d,
      seg_attributes = \<lparr>at_present = de_present d, at_dpl = de_dpl d, at_system = de_system d,
        at_descriptor_type = de_descriptor_type d, at_accessed = de_accessed d\<rparr>,
      seg_granularity = de_granularity d, seg_default_32 = de_default_32 d,
      seg_long_mode = de_long_mode d, seg_expand_down = de_expand_down d,
      seg_writable_or_readable = de_writable_or_readable d, seg_code = de_code d,
      seg_conforming = de_conforming d\<rparr>"

section \<open>Flags and control registers\<close>

definition contains :: "u64 \<Rightarrow> u64 \<Rightarrow> bool" where
  "contains flags f \<longleftrightarrow> flags AND f = f"

definition RFLAGS_TF :: u64 where "RFLAGS_TF = shl1 8"
definition RFLAGS_IF :: u64 where "RFLAGS_IF = shl1 9"
definition RFLAGS_NT :: u64 where "RFLAGS_NT = shl1 14"
definition RFLAGS_RF :: u64 where "RFLAGS_RF = shl1 16"
definition RFLAGS_AC :: u64 where "RFLAGS_AC = shl1 18"
definition CR0_PE :: u64 where "CR0_PE = shl1 0"
definition CR0_ET :: u64 where "CR0_ET = shl1 4"
definition CR0_NE :: u64 where "CR0_NE = shl1 5"
definition CR0_WP :: u64 where "CR0_WP = shl1 16"
definition CR0_PG :: u64 where "CR0_PG = shl1 31"
definition CR4_PSE :: u64 where "CR4_PSE = shl1 4"
definition CR4_PAE :: u64 where "CR4_PAE = shl1 5"
definition CR4_LA57 :: u64 where "CR4_LA57 = shl1 12"
definition CR4_SMEP :: u64 where "CR4_SMEP = shl1 20"
definition CR4_SMAP :: u64 where "CR4_SMAP = shl1 21"
definition EFER_LMA :: u64 where "EFER_LMA = shl1 10"
definition EFER_NXE :: u64 where "EFER_NXE = shl1 11"

lemmas flag_defs = RFLAGS_TF_def RFLAGS_IF_def RFLAGS_NT_def RFLAGS_RF_def RFLAGS_AC_def CR0_PE_def
  CR0_ET_def CR0_NE_def CR0_WP_def CR0_PG_def CR4_PSE_def CR4_PAE_def CR4_LA57_def CR4_SMEP_def
  CR4_SMAP_def EFER_LMA_def EFER_NXE_def

lemma contains_shl1: "k < 64 \<Longrightarrow> contains w (shl1 k) \<longleftrightarrow> bit w k"
proof -
  assume k: "k < 64"
  have "w AND shl1 k = shl1 k" if "bit w k"
    by (rule bit_word_eqI) (use that in \<open>auto simp: bit_and_iff\<close>)
  moreover have "bit w k" if "w AND shl1 k = shl1 k"
  proof -
    have "bit (w AND shl1 k) k" using that k by simp
    then show ?thesis by (simp add: bit_and_iff)
  qed
  ultimately show ?thesis by (auto simp: contains_def)
qed

section \<open>The register file\<close>

datatype cpu_mode = RealMode | Protected16 | Protected32 | LongMode

datatype seg_name = SegES | SegCS | SegSS | SegDS | SegFS | SegGS | OtherRegister

record registers =
  r_gpr :: "u64 list"
  r_rip :: u64
  r_rflags :: u64
  r_xmm :: "128 word list"
  r_cr0 :: u64
  r_cr2 :: u64
  r_cr3 :: u64
  r_cr4 :: u64
  r_cr8 :: u64
  r_efer :: u64
  r_cs :: segment_register
  r_ds :: segment_register
  r_es :: segment_register
  r_fs :: segment_register
  r_gs :: segment_register
  r_ss :: segment_register
  r_gdt_base :: u64
  r_gdt_limit :: u32
  r_idt_base :: u64
  r_idt_limit :: u32
  r_ldtr :: segment_register
  r_tr :: segment_register
  r_tr_base :: u64
  r_instructions_retired :: u64

definition registers_default :: registers where
  "registers_default =
     \<lparr>r_gpr = replicate 16 0, r_rip = 0, r_rflags = 0, r_xmm = replicate 16 0, r_cr0 = CR0_ET OR CR0_NE,
      r_cr2 = 0, r_cr3 = 0, r_cr4 = 0, r_cr8 = 0, r_efer = 0, r_cs = real_mode_segment 0xF000,
      r_ds = real_mode_segment 0, r_es = real_mode_segment 0, r_fs = real_mode_segment 0,
      r_gs = real_mode_segment 0, r_ss = real_mode_segment 0, r_gdt_base = 0, r_gdt_limit = 0,
      r_idt_base = 0, r_idt_limit = 0, r_ldtr = segment_default, r_tr = segment_default,
      r_tr_base = 0, r_instructions_retired = 0\<rparr>"

definition RSP :: nat where "RSP = 4"

definition rsp :: "registers \<Rightarrow> u64" where
  "rsp r = r_gpr r ! RSP"

definition set_rsp :: "u64 \<Rightarrow> registers \<Rightarrow> registers" where
  "set_rsp v r = r\<lparr>r_gpr := (r_gpr r)[RSP := v]\<rparr>"

definition mode :: "registers \<Rightarrow> cpu_mode" where
  "mode r =
     (if contains (r_efer r) EFER_LMA then LongMode
      else if contains (r_cr0 r) CR0_PE
      then (if is_32_bit_code (r_cs r) then Protected32 else Protected16)
      else RealMode)"

definition cpl :: "registers \<Rightarrow> u8" where
  "cpl r = (case mode r of RealMode \<Rightarrow> 0 | _ \<Rightarrow> sel_rpl (seg_selector (r_cs r)))"

definition code_base :: "registers \<Rightarrow> u64" where
  "code_base r = (case mode r of LongMode \<Rightarrow> 0 | _ \<Rightarrow> seg_base (r_cs r))"

definition stack_base :: "registers \<Rightarrow> u64" where
  "stack_base r = (case mode r of LongMode \<Rightarrow> 0 | _ \<Rightarrow> seg_base (r_ss r))"

definition segment_selector :: "registers \<Rightarrow> seg_name \<Rightarrow> u16" where
  "segment_selector r s = (case s of
     SegES \<Rightarrow> seg_selector (r_es r) | SegCS \<Rightarrow> seg_selector (r_cs r) | SegSS \<Rightarrow> seg_selector (r_ss r)
   | SegDS \<Rightarrow> seg_selector (r_ds r) | SegFS \<Rightarrow> seg_selector (r_fs r) | SegGS \<Rightarrow> seg_selector (r_gs r)
   | OtherRegister \<Rightarrow> 0)"

definition data_base :: "registers \<Rightarrow> seg_name \<Rightarrow> u64" where
  "data_base r s =
     (if mode r = LongMode
      then (case s of SegFS \<Rightarrow> seg_base (r_fs r) | SegGS \<Rightarrow> seg_base (r_gs r) | _ \<Rightarrow> 0)
      else (case s of SegES \<Rightarrow> seg_base (r_es r) | SegFS \<Rightarrow> seg_base (r_fs r)
            | SegGS \<Rightarrow> seg_base (r_gs r) | _ \<Rightarrow> seg_base (r_ds r)))"

lemma cpl_le_3: "unat (cpl r) \<le> 3"
proof -
  have "s AND 3 \<le> (3 :: u16)" for s by (rule word_and_le1)
  then have "unat (s AND 3 :: u16) \<le> 3" for s by (simp add: word_le_nat_alt)
  moreover have "unat (ucast w :: u8) = unat w" if "unat w \<le> 3" for w :: u16
    using that by (simp add: unat_ucast_mod)
  ultimately show ?thesis by (simp add: cpl_def sel_rpl_def split: cpu_mode.splits)
qed

lemma set_rsp_simps [simp]:
  "length (r_gpr r) = 16 \<Longrightarrow> rsp (set_rsp v r) = v"
  "length (r_gpr (set_rsp v r)) = length (r_gpr r)"
  "mode (set_rsp v r) = mode r" "cpl (set_rsp v r) = cpl r"
  "r_cr3 (set_rsp v r) = r_cr3 r" "r_cr4 (set_rsp v r) = r_cr4 r" "r_efer (set_rsp v r) = r_efer r"
  "r_cr0 (set_rsp v r) = r_cr0 r" "r_rflags (set_rsp v r) = r_rflags r" "r_rip (set_rsp v r) = r_rip r"
  by (simp_all add: rsp_def set_rsp_def RSP_def mode_def cpl_def)

section \<open>Segment descriptors in memory\<close>

text \<open>
  The reference layout of a legacy descriptor: base, limit and type byte scattered over 64 bits.
  \<open>descriptor_encode\<close> assembles them the way system software does, and decoding gives them back.
\<close>

definition descriptor_encode :: "u32 \<Rightarrow> u32 \<Rightarrow> u8 \<Rightarrow> u64 \<Rightarrow> u64" where
  "descriptor_encode base limit access flags =
     (ucast limit AND 0xFFFF) OR push_bit 16 (ucast base AND 0xFFFFFF)
      OR push_bit 40 (ucast access) OR push_bit 48 (drop_bit 16 (ucast limit) AND 0xF)
      OR push_bit 52 (flags AND 0xF) OR push_bit 56 (drop_bit 24 (ucast base))"

end
