(* ===== verification/Paging.thy ===== *)
theory Paging
  imports Cpu_State Guest_Memory
begin

text \<open>
  Linear-to-physical translation (\<open>arch/paging.rs\<close>): the three table walks of the source (4 or 5
  levels in long mode, PAE, two-level), the permissions they accumulate, and the access check with
  its page-fault error codes. The table entries are read through the memory model, so an entry may
  lie in RAM or, if the guest puts its tables there, in a device window.
\<close>

section \<open>Entries, faults and translations\<close>

definition PAGE_PRESENT :: u64 where "PAGE_PRESENT = shl1 0"
definition PAGE_WRITABLE :: u64 where "PAGE_WRITABLE = shl1 1"
definition PAGE_USER :: u64 where "PAGE_USER = shl1 2"
definition PAGE_LARGE :: u64 where "PAGE_LARGE = shl1 7"
definition PAGE_NX :: u64 where "PAGE_NX = shl1 63"
definition TABLE_MASK :: u64 where "TABLE_MASK = 0x000FFFFFFFFFF000"

datatype access_kind = ReadAccess | WriteAccess | ExecuteAccess

record page_fault =
  pf_linear :: u64
  pf_error_code :: u16

definition FAULT_PRESENT :: u16 where "FAULT_PRESENT = shl1 0"
definition FAULT_WRITE :: u16 where "FAULT_WRITE = shl1 1"
definition FAULT_USER :: u16 where "FAULT_USER = shl1 2"
definition FAULT_RESERVED :: u16 where "FAULT_RESERVED = shl1 3"
definition FAULT_FETCH :: u16 where "FAULT_FETCH = shl1 4"

record translation =
  tr_frame :: u64
  tr_page_size :: u64
  tr_writable :: bool
  tr_user :: bool
  tr_no_execute :: bool

definition physical :: "translation \<Rightarrow> u64 \<Rightarrow> u64" where
  "physical t linear = tr_frame t OR (linear AND (tr_page_size t - 1))"

section \<open>The walks\<close>

definition reserved_mask :: "u64 \<Rightarrow> u64" where
  "reserved_mask efer = 0"

definition accumulate :: "translation \<Rightarrow> u64 \<Rightarrow> translation" where
  "accumulate t entry =
     t\<lparr>tr_writable := (tr_writable t \<and> entry AND PAGE_WRITABLE \<noteq> 0),
       tr_user := (tr_user t \<and> entry AND PAGE_USER \<noteq> 0),
       tr_no_execute := (tr_no_execute t \<or> entry AND PAGE_NX \<noteq> 0)\<rparr>"

definition permissive :: "u64 \<Rightarrow> translation" where
  "permissive page_size = \<lparr>tr_frame = 0, tr_page_size = page_size, tr_writable = True, tr_user = True,
     tr_no_execute = False\<rparr>"

definition reserved_fault :: "u64 \<Rightarrow> page_fault" where
  "reserved_fault linear = \<lparr>pf_linear = linear, pf_error_code = FAULT_PRESENT OR FAULT_RESERVED\<rparr>"

definition validate_entry :: "u64 \<Rightarrow> u64 \<Rightarrow> u64 \<Rightarrow> page_fault + u64" where
  "validate_entry entry linear reserved =
     (if entry AND PAGE_PRESENT = 0 then Inl \<lparr>pf_linear = linear, pf_error_code = 0\<rparr>
      else if entry AND reserved \<noteq> 0 then Inl (reserved_fault linear)
      else Inr entry)"

definition read_entry :: "('b, 'n) memory \<Rightarrow> u64 \<Rightarrow> u64 \<Rightarrow> u64 \<Rightarrow> page_fault + u64" where
  "read_entry m address linear reserved =
     (case read_u64 m address of
        Inl _ \<Rightarrow> Inl \<lparr>pf_linear = linear, pf_error_code = 0\<rparr>
      | Inr entry \<Rightarrow> validate_entry entry linear reserved)"

definition read_entry32 :: "('b, 'n) memory \<Rightarrow> u64 \<Rightarrow> u64 \<Rightarrow> u64 \<Rightarrow> page_fault + u64" where
  "read_entry32 m address linear reserved =
     (case read_u32 m address of
        Inl _ \<Rightarrow> Inl \<lparr>pf_linear = linear, pf_error_code = 0\<rparr>
      | Inr entry \<Rightarrow> validate_entry (ucast entry) linear reserved)"

definition large_page :: "translation \<Rightarrow> u64 \<Rightarrow> u64 \<Rightarrow> nat \<Rightarrow> page_fault + translation" where
  "large_page t entry linear shift =
     (let m = shl1 shift - 1
      in Inr (t\<lparr>tr_page_size := m + 1, tr_frame := entry AND NOT m AND TABLE_MASK\<rparr>))"

definition walk_generic ::
  "('b, 'n) memory \<Rightarrow> u64 \<Rightarrow> u64 \<Rightarrow> u64 \<Rightarrow> u64 \<Rightarrow> bool \<Rightarrow> page_fault + translation" where
  "walk_generic m cr3 efer reserved linear five_level =
     bind_res (if five_level
               then let index = drop_bit 48 linear AND 0x1FF
                    in read_entry m ((cr3 AND TABLE_MASK) + index * 8) linear reserved
               else let index = drop_bit 39 linear AND 0x1FF
                    in read_entry m ((cr3 AND TABLE_MASK) + index * 8) linear reserved) (\<lambda>entry.
     let st = accumulate (permissive 0x1000) entry in
     if entry AND PAGE_LARGE \<noteq> 0 then Inl (reserved_fault linear)
     else bind_res (if five_level
               then let pml4_index = drop_bit 39 linear AND 0x1FF
                    in bind_res (read_entry m ((entry AND TABLE_MASK) + pml4_index * 8) linear reserved) (\<lambda>entry.
                       if entry AND PAGE_LARGE \<noteq> 0 then Inl (reserved_fault linear)
                       else Inr (accumulate st entry, entry))
               else Inr (st, entry)) (\<lambda>(st, entry).
     let pdpt_index = drop_bit 30 linear AND 0x1FF in
     bind_res (read_entry m ((entry AND TABLE_MASK) + pdpt_index * 8) linear reserved) (\<lambda>entry.
     let st = accumulate st entry in
     if entry AND PAGE_LARGE \<noteq> 0 then large_page st entry linear 30
     else let pd_index = drop_bit 21 linear AND 0x1FF in
     bind_res (read_entry m ((entry AND TABLE_MASK) + pd_index * 8) linear reserved) (\<lambda>entry.
     let st = accumulate st entry in
     if entry AND PAGE_LARGE \<noteq> 0 then large_page st entry linear 21
     else let pt_index = drop_bit 12 linear AND 0x1FF in
     bind_res (read_entry m ((entry AND TABLE_MASK) + pt_index * 8) linear reserved) (\<lambda>entry.
     let st = accumulate st entry in
     Inr (st\<lparr>tr_frame := entry AND TABLE_MASK AND NOT 0xFFF\<rparr>))))))"

definition walk_pae32 ::
  "('b, 'n) memory \<Rightarrow> u64 \<Rightarrow> u64 \<Rightarrow> u64 \<Rightarrow> u64 \<Rightarrow> u64 \<Rightarrow> page_fault + translation" where
  "walk_pae32 m cr3 cr4 efer reserved linear =
     (let st = permissive 0x1000; pdpt_index = drop_bit 30 linear AND 3 in
      bind_res (read_entry m ((cr3 AND 0xFFFFFFE0) + pdpt_index * 8) linear reserved) (\<lambda>entry.
      if entry AND PAGE_LARGE \<noteq> 0 then Inl (reserved_fault linear)
      else let pd_index = drop_bit 21 linear AND 0x1FF in
      bind_res (read_entry m ((entry AND TABLE_MASK) + pd_index * 8) linear reserved) (\<lambda>entry.
      let st = accumulate st entry in
      if entry AND PAGE_LARGE \<noteq> 0 then large_page st entry linear 21
      else let pt_index = drop_bit 12 linear AND 0x1FF in
      bind_res (read_entry m ((entry AND TABLE_MASK) + pt_index * 8) linear reserved) (\<lambda>entry.
      let st = accumulate st entry in
      Inr (st\<lparr>tr_frame := entry AND TABLE_MASK AND NOT 0xFFF\<rparr>)))))"

definition walk_2_level ::
  "('b, 'n) memory \<Rightarrow> u64 \<Rightarrow> u64 \<Rightarrow> u64 \<Rightarrow> u64 \<Rightarrow> u64 \<Rightarrow> page_fault + translation" where
  "walk_2_level m cr3 cr4 efer reserved linear =
     (let st = permissive 0x1000; pd_index = drop_bit 22 linear AND 0x3FF in
      bind_res (read_entry32 m ((cr3 AND 0xFFFFF000) + pd_index * 4) linear reserved) (\<lambda>entry.
      let st = accumulate st entry in
      if entry AND PAGE_LARGE \<noteq> 0
      then if \<not> contains cr4 CR4_PSE then Inl (reserved_fault linear)
           else Inr (st\<lparr>tr_page_size := 0x400000, tr_frame := entry AND 0xFFC00000\<rparr>)
      else let pt_index = drop_bit 12 linear AND 0x3FF in
      bind_res (read_entry32 m ((entry AND 0xFFFFF000) + pt_index * 4) linear reserved) (\<lambda>entry.
      let st = accumulate st entry in
      Inr (st\<lparr>tr_frame := entry AND 0xFFFFF000\<rparr>))))"

definition walk :: "('b, 'n) memory \<Rightarrow> u64 \<Rightarrow> u64 \<Rightarrow> u64 \<Rightarrow> u64 \<Rightarrow> page_fault + translation" where
  "walk m cr3 cr4 efer linear =
     (let reserved = reserved_mask efer in
      if contains efer EFER_LMA then walk_generic m cr3 efer reserved linear (contains cr4 CR4_LA57)
      else if contains cr4 CR4_PAE then walk_pae32 m cr3 cr4 efer reserved linear
      else walk_2_level m cr3 cr4 efer reserved linear)"

section \<open>Access checks\<close>

definition with_access_bits :: "page_fault \<Rightarrow> access_kind \<Rightarrow> u8 \<Rightarrow> page_fault" where
  "with_access_bits fault kind ring =
     (let fault = (if kind = WriteAccess then fault\<lparr>pf_error_code := pf_error_code fault OR FAULT_WRITE\<rparr> else fault);
          fault = (if kind = ExecuteAccess then fault\<lparr>pf_error_code := pf_error_code fault OR FAULT_FETCH\<rparr> else fault)
      in if ring = 3 then fault\<lparr>pf_error_code := pf_error_code fault OR FAULT_USER\<rparr> else fault)"

definition check_access ::
  "translation \<Rightarrow> u64 \<Rightarrow> access_kind \<Rightarrow> u8 \<Rightarrow> u64 \<Rightarrow> u64 \<Rightarrow> u64 \<Rightarrow> bool \<Rightarrow> page_fault + unit" where
  "check_access walked linear kind ring cr0 cr4 efer alignment_check =
     (let user = (ring = 3);
          error_code = FAULT_PRESENT;
          error_code = (if user then error_code OR FAULT_USER else error_code);
          error_code = (if kind = WriteAccess then error_code OR FAULT_WRITE else error_code);
          error_code = (if kind = ExecuteAccess then error_code OR FAULT_FETCH else error_code);
          deny = Inl \<lparr>pf_linear = linear, pf_error_code = error_code\<rparr>
      in if user \<and> \<not> tr_user walked then deny
         else if (case kind of
             WriteAccess \<Rightarrow> (user \<or> contains cr0 CR0_WP) \<and> \<not> tr_writable walked
           | ExecuteAccess \<Rightarrow> (contains efer EFER_NXE \<and> tr_no_execute walked)
               \<or> (\<not> user \<and> contains cr4 CR4_SMEP \<and> tr_user walked)
           | ReadAccess \<Rightarrow> False) then deny
         else if \<not> user \<and> kind \<noteq> ExecuteAccess \<and> contains cr4 CR4_SMAP \<and> tr_user walked \<and> \<not> alignment_check
         then deny
         else Inr ())"

definition paging_translate ::
  "('b, 'n) memory \<Rightarrow> u64 \<Rightarrow> u64 \<Rightarrow> u64 \<Rightarrow> u64 \<Rightarrow> u64 \<Rightarrow> access_kind \<Rightarrow> page_fault + u64" where
  "paging_translate m cr3 cr0 cr4 efer linear kind =
     (if \<not> contains cr0 CR0_PG then Inr linear
      else bind_res (walk m cr3 cr4 efer linear) (\<lambda>walked.
           bind_res (check_access walked linear kind 0 cr0 cr4 efer False) (\<lambda>_.
           Inr (physical walked linear))))"

lemmas page_bit_defs = PAGE_PRESENT_def PAGE_WRITABLE_def PAGE_USER_def PAGE_LARGE_def PAGE_NX_def

section \<open>The radix walk\<close>

text \<open>
  The reference: a table walk is a descent along a list of levels. A level names the shift of its
  index and whether an entry may map a page there. The shape of a walk is the list of its levels,
  the width of an index and the size of an entry.
\<close>

datatype leaf_rule = NeverLeaf | MayLeaf | AlwaysLeaf

fun radix_walk ::
  "(u64 \<Rightarrow> page_fault + u64) \<Rightarrow> u64 \<Rightarrow> u64 \<Rightarrow> (nat \<times> leaf_rule) list \<Rightarrow> translation \<Rightarrow> page_fault + translation" where
  "radix_walk rd linear table [] perms = Inl (reserved_fault linear)"
| "radix_walk rd linear table ((shift, rule) # levels) perms =
     bind_res (rd (table + (drop_bit shift linear AND 0x1FF) * 8)) (\<lambda>entry.
     let perms = accumulate perms entry;
         leaf = Inr (perms\<lparr>tr_page_size := shl1 shift, tr_frame := entry AND NOT (shl1 shift - 1) AND TABLE_MASK\<rparr>)
     in case rule of
          AlwaysLeaf \<Rightarrow> leaf
        | MayLeaf \<Rightarrow> if entry AND PAGE_LARGE \<noteq> 0 then leaf else radix_walk rd linear (entry AND TABLE_MASK) levels perms
        | NeverLeaf \<Rightarrow> if entry AND PAGE_LARGE \<noteq> 0 then Inl (reserved_fault linear)
                     else radix_walk rd linear (entry AND TABLE_MASK) levels perms)"

definition long_levels :: "bool \<Rightarrow> (nat \<times> leaf_rule) list" where
  "long_levels five_level = (if five_level then [(48, NeverLeaf)] else [])
     @ [(39, NeverLeaf), (30, MayLeaf), (21, MayLeaf), (12, AlwaysLeaf)]"

lemma bind_res_assoc: "bind_res (bind_res r f) g = bind_res r (\<lambda>x. bind_res (f x) g)"
  by (cases r) auto

lemma bind_res_if: "bind_res (if c then a else b) g = (if c then bind_res a g else bind_res b g)"
  by simp

lemma bind_res_cong: "(\<And>x. f x = g x) \<Longrightarrow> bind_res r f = bind_res r g"
  by (cases r) auto

lemma accumulate_page_size [simp]: "tr_page_size (accumulate t e) = tr_page_size t"
  by (simp add: accumulate_def)

lemma leaf_4k:
  assumes "tr_page_size t = 0x1000"
  shows "t\<lparr>tr_frame := e AND TABLE_MASK AND NOT 0xFFF\<rparr>
    = t\<lparr>tr_page_size := shl1 12, tr_frame := e AND NOT (shl1 12 - 1) AND TABLE_MASK\<rparr>"
proof -
  have "(shl1 12 :: u64) = 0x1000" by (simp add: shl1_def push_bit_eq_mult)
  moreover have "e AND TABLE_MASK AND NOT 0xFFF = e AND NOT 0xFFF AND TABLE_MASK"
    by (simp only: and.commute)
  ultimately show ?thesis using assms by (cases t) simp
qed

lemma permissive_page_size [simp]: "tr_page_size (permissive n) = n"
  by (simp add: permissive_def)

lemmas radix_unfold = long_levels_def if_True if_False append.simps radix_walk.simps Let_def
  large_page_def leaf_rule.case leaf_4k accumulate_page_size permissive_page_size diff_add_cancel
  bind_res_assoc bind_res_if bind_res_simps prod.case

lemma walk_generic_radix:
  "walk_generic m cr3 efer reserved linear five_level =
     radix_walk (\<lambda>a. read_entry m a linear reserved) linear (cr3 AND TABLE_MASK) (long_levels five_level) (permissive 0x1000)"
proof (cases five_level)
  case True
  show ?thesis by (simp only: True walk_generic_def radix_unfold)
next
  case False
  show ?thesis by (simp only: False walk_generic_def radix_unfold)
qed

lemma walk_pae_radix:
  "walk_pae32 m cr3 cr4 efer reserved linear =
     bind_res (read_entry m ((cr3 AND 0xFFFFFFE0) + (drop_bit 30 linear AND 3) * 8) linear reserved) (\<lambda>entry.
       if entry AND PAGE_LARGE \<noteq> 0 then Inl (reserved_fault linear)
       else radix_walk (\<lambda>a. read_entry m a linear reserved) linear (entry AND TABLE_MASK)
              [(21, MayLeaf), (12, AlwaysLeaf)] (permissive 0x1000))"
  by (simp only: walk_pae32_def radix_unfold)

section \<open>Paths, permissions and page shapes\<close>

text \<open>
  The entries visited by a walk, with the shift of the level that mapped the page, and the
  translation they stand for: writable and user-accessible when every level allows it,
  non-executable when some level says so.
\<close>

fun radix_path ::
  "(u64 \<Rightarrow> page_fault + u64) \<Rightarrow> u64 \<Rightarrow> u64 \<Rightarrow> (nat \<times> leaf_rule) list \<Rightarrow> page_fault + nat \<times> u64 list" where
  "radix_path rd linear table [] = Inl (reserved_fault linear)"
| "radix_path rd linear table ((shift, rule) # levels) =
     bind_res (rd (table + (drop_bit shift linear AND 0x1FF) * 8)) (\<lambda>entry.
     if rule = AlwaysLeaf \<or> rule = MayLeaf \<and> bit entry 7 then Inr (shift, [entry])
     else if bit entry 7 then Inl (reserved_fault linear)
     else bind_res (radix_path rd linear (entry AND TABLE_MASK) levels) (\<lambda>(s, es). Inr (s, entry # es)))"

definition path_translation :: "nat \<times> u64 list \<Rightarrow> translation" where
  "path_translation p =
     \<lparr>tr_frame = last (snd p) AND NOT (shl1 (fst p) - 1) AND TABLE_MASK, tr_page_size = shl1 (fst p),
      tr_writable = (\<forall>e \<in> set (snd p). bit e 1), tr_user = (\<forall>e \<in> set (snd p). bit e 2),
      tr_no_execute = (\<exists>e \<in> set (snd p). bit e 63)\<rparr>"

definition narrowed :: "translation \<Rightarrow> nat \<times> u64 list \<Rightarrow> translation" where
  "narrowed perms p = (path_translation p)
     \<lparr>tr_writable := (tr_writable perms \<and> tr_writable (path_translation p)),
      tr_user := (tr_user perms \<and> tr_user (path_translation p)),
      tr_no_execute := (tr_no_execute perms \<or> tr_no_execute (path_translation p))\<rparr>"

lemma radix_path_nonempty: "radix_path rd linear table levels = Inr (s, es) \<Longrightarrow> es \<noteq> []"
  by (cases levels) (auto simp: bind_res_eq_Inr split: if_splits)

lemma narrowed_Cons:
  "es \<noteq> [] \<Longrightarrow> narrowed (accumulate perms e) (s, es) = narrowed perms (s, e # es)"
  by (auto simp: narrowed_def path_translation_def accumulate_def page_bit_defs)

lemma narrowed_leaf:
  "(accumulate perms e)\<lparr>tr_page_size := shl1 s, tr_frame := e AND NOT (shl1 s - 1) AND TABLE_MASK\<rparr>
     = narrowed perms (s, [e])"
  by (simp add: narrowed_def path_translation_def accumulate_def page_bit_defs)

lemma radix_walk_path:
  "radix_walk rd linear table levels perms
     = bind_res (radix_path rd linear table levels) (\<lambda>p. Inr (narrowed perms p))"
proof (induction levels arbitrary: table perms)
  case (Cons l levels)
  obtain shift rule where l: "l = (shift, rule)" by fastforce
  show ?case
  proof (cases "rd (table + (drop_bit shift linear AND 0x1FF) * 8)")
    case (Inr entry)
    have "bind_res (radix_path rd linear (entry AND TABLE_MASK) levels) (\<lambda>p. Inr (narrowed (accumulate perms entry) p))
        = bind_res (bind_res (radix_path rd linear (entry AND TABLE_MASK) levels) (\<lambda>(s, es). Inr (s, entry # es)))
            (\<lambda>p. Inr (narrowed perms p))"
      by (cases "radix_path rd linear (entry AND TABLE_MASK) levels")
        (auto simp: narrowed_Cons radix_path_nonempty)
    with Inr Cons show ?thesis
      by (cases rule) (auto simp: l Let_def narrowed_leaf page_bit_defs)
  qed (simp add: l)
qed simp

lemma narrowed_permissive [simp]: "narrowed (permissive n) p = path_translation p"
  by (simp add: narrowed_def permissive_def)

lemma walk_long:
  assumes "contains efer EFER_LMA"
  shows "walk m cr3 cr4 efer linear =
    bind_res (radix_path (\<lambda>a. read_entry m a linear 0) linear (cr3 AND TABLE_MASK) (long_levels (contains cr4 CR4_LA57)))
      (\<lambda>p. Inr (path_translation p))"
  using assms by (simp add: walk_def Let_def reserved_mask_def walk_generic_radix radix_walk_path)

text \<open>Every translation a walk returns has an aligned frame and a page size of its level.\<close>

definition page_shape :: "translation \<Rightarrow> nat \<Rightarrow> bool" where
  "page_shape t k \<longleftrightarrow> 12 \<le> k \<and> k \<le> 30 \<and> tr_page_size t = shl1 k \<and> (\<forall>i < k. \<not> bit (tr_frame t) i)"

lemma bit_shl1_minus_1: "k < 64 \<Longrightarrow> bit (shl1 k - 1 :: u64) i \<longleftrightarrow> i < k"
proof -
  assume "k < 64"
  have "(shl1 k - 1 :: u64) = mask k" by (simp add: shl1_def mask_eq_exp_minus_1 push_bit_eq_mult)
  with \<open>k < 64\<close> show ?thesis by (auto simp: bit_mask_iff)
qed

lemma frame_shape:
  assumes "12 \<le> k" "k \<le> 30" "tr_page_size t = shl1 k" "tr_frame t = e AND NOT (shl1 k - 1) AND M"
  shows "page_shape t k"
  using assms by (auto simp: page_shape_def bit_and_iff bit_not_iff bit_shl1_minus_1)

lemma path_shape: "12 \<le> fst p \<Longrightarrow> fst p \<le> 30 \<Longrightarrow> page_shape (path_translation p) (fst p)"
  by (rule frame_shape [of "fst p" _ "last (snd p)" TABLE_MASK]) (simp_all add: path_translation_def)

lemma radix_path_leaf:
  "radix_path rd linear table levels = Inr p \<Longrightarrow> (fst p, MayLeaf) \<in> set levels \<or> (fst p, AlwaysLeaf) \<in> set levels"
proof (induction levels arbitrary: table p)
  case (Cons l levels)
  obtain shift rule where l: "l = (shift, rule)" by fastforce
  from Cons.prems obtain e where
    "(rule = AlwaysLeaf \<or> rule = MayLeaf) \<and> p = (shift, [e])
      \<or> (\<exists>s es. radix_path rd linear (e AND TABLE_MASK) levels = Inr (s, es) \<and> p = (s, e # es))"
    by (auto simp: l bind_res_eq_Inr split: if_splits)
  with Cons.IH [of "e AND TABLE_MASK"] show ?case by (fastforce simp: l)
qed simp

lemma walk_shape:
  assumes "walk m cr3 cr4 efer linear = Inr t"
  shows "\<exists>k. page_shape t k"
proof -
  consider (long) "contains efer EFER_LMA" | (pae) "\<not> contains efer EFER_LMA" "contains cr4 CR4_PAE"
    | (two) "\<not> contains efer EFER_LMA" "\<not> contains cr4 CR4_PAE" by blast
  then show ?thesis
  proof cases
    case long
    then obtain p where p: "radix_path (\<lambda>a. read_entry m a linear 0) linear (cr3 AND TABLE_MASK)
        (long_levels (contains cr4 CR4_LA57)) = Inr p" "t = path_translation p"
      using assms by (auto simp: walk_long bind_res_eq_Inr)
    then have "fst p \<in> {12, 21, 30}"
      using radix_path_leaf [OF p(1)] by (auto simp: long_levels_def split: if_splits)
    with p(2) path_shape [of p] show ?thesis by auto
  next
    case pae
    then have "\<exists>p. t = path_translation p \<and> fst p \<in> {12, 21}"
      using assms
      by (auto simp: walk_def Let_def walk_pae_radix radix_walk_path bind_res_eq_Inr split: if_splits
          intro: exI [of _ "(21, _)"] exI [of _ "(12, _)"])
    then obtain p where "t = path_translation p" "fst p \<in> {12, 21}" by blast
    with path_shape [of p] show ?thesis by auto
  next
    case two
    have s: "(shl1 22 :: u64) = 0x400000" "(shl1 12 :: u64) = 0x1000" by (simp_all add: shl1_def push_bit_eq_mult)
    have f: "(0xFFC00000 :: u64) = NOT (shl1 22 - 1) AND 0xFFFFFFFF" "(0xFFFFF000 :: u64) = NOT (shl1 12 - 1) AND 0xFFFFFFFF"
      by (simp_all add: s)
    from two obtain e k where "k \<in> {12, 22}" "tr_page_size t = shl1 k" "tr_frame t = e AND NOT (shl1 k - 1) AND 0xFFFFFFFF"
      using assms by (fastforce simp: walk_def Let_def walk_2_level_def bind_res_eq_Inr f s [symmetric] split: if_splits)
    then show ?thesis using frame_shape [of k t e "0xFFFFFFFF"] by auto
  qed
qed

section \<open>A walk depends on the page only\<close>

definition retarget :: "u64 \<Rightarrow> page_fault + 'a \<Rightarrow> page_fault + 'a" where
  "retarget l r = (case r of Inl f \<Rightarrow> Inl (f\<lparr>pf_linear := l\<rparr>) | Inr x \<Rightarrow> Inr x)"

lemma retarget_simps [simp]:
  "retarget l (Inl f) = Inl (f\<lparr>pf_linear := l\<rparr>)" "retarget l (Inr x) = Inr x"
  by (simp_all add: retarget_def)

lemma retarget_bind: "retarget l (bind_res r f) = bind_res (retarget l r) (\<lambda>x. retarget l (f x))"
  by (cases r) simp_all

lemma retarget_if: "retarget l (if c then a else b) = (if c then retarget l a else retarget l b)"
  by simp

lemma retarget_reserved: "retarget l' (Inl (reserved_fault l)) = Inl (reserved_fault l')"
  by (simp add: reserved_fault_def)

lemma retarget_read:
  "read_entry m a l' r = retarget l' (read_entry m a l r)"
  "read_entry32 m a l' r = retarget l' (read_entry32 m a l r)"
  by (simp_all add: read_entry_def read_entry32_def validate_entry_def reserved_fault_def split: sum.splits)

lemma retarget_large: "retarget l' (large_page t e l k) = large_page t e l' k"
  by (simp add: large_page_def Let_def)

lemma drop_bit_page:
  assumes "drop_bit 12 l = drop_bit 12 (l' :: u64)" "12 \<le> k"
  shows "drop_bit k l = drop_bit k l'"
proof -
  have "drop_bit (k - 12) (drop_bit 12 l) = drop_bit (k - 12) (drop_bit 12 l')" using assms(1) by simp
  with assms(2) show ?thesis by simp
qed

lemma walk_retarget:
  assumes "drop_bit 12 l = drop_bit 12 l'"
  shows "walk m cr3 cr4 efer l' = retarget l' (walk m cr3 cr4 efer l)"
proof -
  note same = assms drop_bit_page [OF assms, of 21, simplified] drop_bit_page [OF assms, of 22, simplified]
    drop_bit_page [OF assms, of 30, simplified] drop_bit_page [OF assms, of 39, simplified]
    drop_bit_page [OF assms, of 48, simplified]
  note push = retarget_bind retarget_if retarget_reserved retarget_large retarget_simps(2)
    retarget_read [of m _ l' _ l, symmetric] prod.case_distrib [of "retarget l'"] Let_def same [symmetric]
  have "walk_generic m cr3 efer r l' five = retarget l' (walk_generic m cr3 efer r l five)" for r five
    by (simp only: walk_generic_def push)
  moreover have "walk_pae32 m cr3 cr4 efer r l' = retarget l' (walk_pae32 m cr3 cr4 efer r l)" for r
    by (simp only: walk_pae32_def push)
  moreover have "walk_2_level m cr3 cr4 efer r l' = retarget l' (walk_2_level m cr3 cr4 efer r l)" for r
    by (simp only: walk_2_level_def push)
  ultimately show ?thesis by (simp only: walk_def Let_def if_distrib [of "retarget l'"])
qed

section \<open>Physical addresses inside a page\<close>

lemma same_page_add:
  fixes l :: u64
  assumes "unat l mod 4096 + j < 4096"
  shows "unat (l + of_nat j) = unat l + j" "drop_bit 12 (l + of_nat j) = drop_bit 12 l"
proof -
  have "unat l div 4096 < 4503599627370496" using unat_bound [of l] by (simp add: less_mult_imp_div_less)
  then have "unat l + j < 18446744073709551616" using assms div_mult_mod_eq [of "unat l" 4096] by linarith
  then show u: "unat (l + of_nat j) = unat l + j"
    using unat_add_no_wrap [of l "of_nat j"] by (simp add: unat_of_nat_small)
  have "unat l + j = (unat l mod 4096 + j) + unat l div 4096 * 4096" by simp
  also have "\<dots> div 4096 = unat l div 4096 + (unat l mod 4096 + j) div 4096" by (rule div_mult_self1) simp
  also have "(unat l mod 4096 + j) div 4096 = 0" using assms by (rule div_less)
  finally have "(unat l + j) div 4096 = unat l div 4096" by simp
  then show "drop_bit 12 (l + of_nat j) = drop_bit 12 l"
    by (simp add: word_unat_eq_iff drop_bit_eq_div unat_div u)
qed

lemma bit_physical:
  assumes "page_shape t k"
  shows "bit (physical t l) i \<longleftrightarrow> (if i < k then bit l i else bit (tr_frame t) i)"
  using assms bit_shl1_minus_1 [of k i] by (auto simp: physical_def page_shape_def bit_or_iff bit_and_iff)

lemma physical_page:
  assumes "page_shape t k"
  shows "take_bit 12 (physical t l) = take_bit 12 l"
    "drop_bit 12 l = drop_bit 12 l' \<Longrightarrow> drop_bit 12 (physical t l) = drop_bit 12 (physical t l')"
proof -
  have k: "12 \<le> k" using assms by (simp add: page_shape_def)
  then show "take_bit 12 (physical t l) = take_bit 12 l"
    by (intro bit_word_eqI) (auto simp: bit_take_bit_iff bit_physical [OF assms])
  assume "drop_bit 12 l = drop_bit 12 l'"
  then have "bit (drop_bit 12 l) i = bit (drop_bit 12 l') i" for i by simp
  then have "bit l (12 + i) = bit l' (12 + i)" for i by (simp only: bit_drop_bit_eq comp_apply)
  then show "drop_bit 12 (physical t l) = drop_bit 12 (physical t l')"
    by (intro bit_word_eqI) (simp add: bit_drop_bit_eq bit_physical [OF assms])
qed

lemma physical_add:
  assumes "page_shape t k" "unat l mod 4096 + j < 4096"
  shows "physical t (l + of_nat j) = physical t l + of_nat j"
    "unat (physical t l) mod 4096 = unat l mod 4096"
proof -
  have low: "unat (physical t x) mod 4096 = unat x mod 4096" for x
    using arg_cong [OF physical_page(1) [OF assms(1), of x], of unat]
    by (simp add: take_bit_eq_mod unat_mod)
  then show "unat (physical t l) mod 4096 = unat l mod 4096" .
  have "unat (physical t l) mod 4096 + j < 4096" using assms(2) low by simp
  note pa = same_page_add [OF this] and la = same_page_add [OF assms(2)]
  have "unat (physical t (l + of_nat j)) div 4096 = unat (physical t l) div 4096"
    using arg_cong [OF physical_page(2) [OF assms(1) la(2)], of unat]
    by (simp add: drop_bit_eq_div unat_div)
  moreover have "unat (physical t (l + of_nat j)) mod 4096 = unat (physical t l) mod 4096 + j"
    unfolding low la(1) mod_add_left_eq [of "unat l" 4096 j, symmetric] using assms(2) by (rule mod_less)
  ultimately have "unat (physical t (l + of_nat j)) = unat (physical t l) + j"
    using div_mult_mod_eq [of "unat (physical t (l + of_nat j))" 4096] div_mult_mod_eq [of "unat (physical t l)" 4096]
    by linarith
  with pa(1) show "physical t (l + of_nat j) = physical t l + of_nat j" by (simp add: word_unat_eq_iff)
qed

end
