(* ===== verification/Tlb.thy ===== *)
theory Tlb
  imports Paging
begin

text \<open>
  The translation lookaside buffer (\<open>cpu/tlb.rs\<close>): a direct-mapped cache of completed walks, tagged
  by the linear page number. The abstract view of it is the partial map \<open>tlb_map\<close> from page numbers
  to translations, and the lemmas give each operation on that map.
\<close>

definition TLB_ENTRIES :: nat where "TLB_ENTRIES = 2 ^ 14"
definition TLB_INVALID :: u64 where "TLB_INVALID = - 1"

record tlb_entry =
  te_tag :: u64
  te_translation :: translation

record tlb =
  tlb_entries :: "tlb_entry list"
  tlb_hits :: u64
  tlb_misses :: u64
  tlb_epoch :: u64

definition tlb_new :: tlb where
  "tlb_new =
     \<lparr>tlb_entries = replicate TLB_ENTRIES \<lparr>te_tag = TLB_INVALID,
        te_translation = \<lparr>tr_frame = 0, tr_page_size = 0x1000, tr_writable = False, tr_user = False,
          tr_no_execute = True\<rparr>\<rparr>,
      tlb_hits = 0, tlb_misses = 0, tlb_epoch = 0\<rparr>"

definition tlb_slot :: "u64 \<Rightarrow> nat" where
  "tlb_slot page = unat (drop_bit 32 (page * 0x9E3779B97F4A7C15) AND (of_nat TLB_ENTRIES - 1))"

definition tlb_lookup :: "tlb \<Rightarrow> u64 \<Rightarrow> translation option \<times> tlb" where
  "tlb_lookup t linear =
     (let page = drop_bit 12 linear; entry = tlb_entries t ! tlb_slot page
      in if te_tag entry = page then (Some (te_translation entry), t\<lparr>tlb_hits := tlb_hits t + 1\<rparr>)
         else (None, t\<lparr>tlb_misses := tlb_misses t + 1\<rparr>))"

definition tlb_insert :: "u64 \<Rightarrow> translation \<Rightarrow> tlb \<Rightarrow> tlb" where
  "tlb_insert linear translation t =
     (let page = drop_bit 12 linear
      in t\<lparr>tlb_entries := (tlb_entries t)[tlb_slot page := \<lparr>te_tag = page, te_translation = translation\<rparr>]\<rparr>)"

definition tlb_flush :: "tlb \<Rightarrow> tlb" where
  "tlb_flush t = t\<lparr>tlb_epoch := tlb_epoch t + 1,
     tlb_entries := map (\<lambda>e. e\<lparr>te_tag := TLB_INVALID\<rparr>) (tlb_entries t)\<rparr>"

definition tlb_invalidate :: "u64 \<Rightarrow> tlb \<Rightarrow> tlb" where
  "tlb_invalidate linear t =
     (let t = t\<lparr>tlb_epoch := tlb_epoch t + 1\<rparr>; page = drop_bit 12 linear; slot = tlb_slot page
      in if te_tag (tlb_entries t ! slot) = page
         then t\<lparr>tlb_entries := (tlb_entries t)[slot := (tlb_entries t ! slot)\<lparr>te_tag := TLB_INVALID\<rparr>]\<rparr>
         else t)"

section \<open>The cache as a partial map\<close>

definition tlb_wf :: "tlb \<Rightarrow> bool" where
  "tlb_wf t \<longleftrightarrow> length (tlb_entries t) = TLB_ENTRIES"

definition tlb_map :: "tlb \<Rightarrow> u64 \<Rightarrow> translation option" where
  "tlb_map t page = (let entry = tlb_entries t ! tlb_slot page
     in if te_tag entry = page then Some (te_translation entry) else None)"

lemma tlb_slot_bound: "tlb_slot page < TLB_ENTRIES"
proof -
  have "drop_bit 32 (page * 0x9E3779B97F4A7C15) AND 0x3FFF \<le> (0x3FFF :: u64)" by (rule word_and_le1)
  then show ?thesis by (simp add: tlb_slot_def TLB_ENTRIES_def word_le_nat_alt)
qed

lemma page_not_invalid: "drop_bit 12 (l :: u64) \<noteq> TLB_INVALID"
proof
  assume "drop_bit 12 l = TLB_INVALID"
  then have "bit (drop_bit 12 l) 63 = bit TLB_INVALID 63" by simp
  then show False
    using bit_imp_le_length [of l 75] by (auto simp: TLB_INVALID_def bit_drop_bit_eq bit_minus_1_iff)
qed

lemma tlb_wf_ops [wf_intros]:
  "tlb_wf tlb_new"
  "tlb_wf t \<Longrightarrow> tlb_wf (snd (tlb_lookup t l))"
  "tlb_wf t \<Longrightarrow> tlb_wf (tlb_insert l tr t)"
  "tlb_wf t \<Longrightarrow> tlb_wf (tlb_flush t)"
  "tlb_wf t \<Longrightarrow> tlb_wf (tlb_invalidate l t)"
  by (simp_all add: tlb_wf_def tlb_new_def tlb_lookup_def tlb_insert_def tlb_flush_def tlb_invalidate_def Let_def)

lemma tlb_lookup_map:
  "fst (tlb_lookup t l) = tlb_map t (drop_bit 12 l)"
  "tlb_map (snd (tlb_lookup t l)) = tlb_map t"
  by (auto simp: tlb_lookup_def tlb_map_def Let_def)

lemma tlb_insert_map:
  assumes "tlb_wf t"
  shows "tlb_map (tlb_insert l tr t) p =
    (if p = drop_bit 12 l then Some tr
     else if tlb_slot p = tlb_slot (drop_bit 12 l) then None else tlb_map t p)"
  using assms tlb_slot_bound [of "drop_bit 12 l"]
  by (auto simp: tlb_map_def tlb_insert_def tlb_wf_def Let_def nth_list_update)

lemma tlb_new_map: "tlb_map tlb_new (drop_bit 12 l) = None"
  using tlb_slot_bound [of "drop_bit 12 l"] page_not_invalid [of l]
  by (auto simp: tlb_map_def tlb_new_def Let_def)

lemma tlb_flush_map: "tlb_wf t \<Longrightarrow> tlb_map (tlb_flush t) (drop_bit 12 l) = None"
  using tlb_slot_bound [of "drop_bit 12 l"] page_not_invalid [of l]
  by (auto simp: tlb_map_def tlb_flush_def tlb_wf_def Let_def)

lemma tlb_invalidate_map:
  assumes "tlb_wf t"
  shows "tlb_map (tlb_invalidate l t) (drop_bit 12 l') =
    (if drop_bit 12 l' = drop_bit 12 l then None else tlb_map t (drop_bit 12 l'))"
  using assms tlb_slot_bound [of "drop_bit 12 l"] page_not_invalid [of l] page_not_invalid [of l']
  by (auto simp: tlb_map_def tlb_invalidate_def tlb_wf_def Let_def nth_list_update)

section \<open>Coherence with the page tables\<close>

text \<open>
  A cache is coherent with a walk function when every page it holds maps to what the walk returns.
  The x86 contract lets entries go stale when software edits its tables; coherence is then restored
  by a flush, or by an invalidation of each page whose walk changed.
\<close>

definition tlb_coherent :: "(u64 \<Rightarrow> page_fault + translation) \<Rightarrow> tlb \<Rightarrow> bool" where
  "tlb_coherent wk t \<longleftrightarrow> tlb_wf t
     \<and> (\<forall>l tr. tlb_map t (drop_bit 12 l) = Some tr \<longrightarrow> wk l = Inr tr)"

lemma tlb_coherent_new [wf_intros]: "tlb_coherent wk tlb_new"
  by (simp add: tlb_coherent_def tlb_new_map tlb_wf_ops)

lemma tlb_coherent_flush [wf_intros]: "tlb_wf t \<Longrightarrow> tlb_coherent wk (tlb_flush t)"
  by (simp add: tlb_coherent_def tlb_flush_map tlb_wf_ops)

lemma tlb_coherent_lookup [wf_intros]: "tlb_coherent wk t \<Longrightarrow> tlb_coherent wk (snd (tlb_lookup t l))"
  by (simp add: tlb_coherent_def tlb_wf_ops tlb_lookup_map)

lemma tlb_coherent_invalidate [wf_intros]: "tlb_coherent wk t \<Longrightarrow> tlb_coherent wk (tlb_invalidate l t)"
  by (auto simp: tlb_coherent_def tlb_wf_ops tlb_invalidate_map split: if_splits)

lemma tlb_coherent_insert [wf_intros]:
  assumes "tlb_coherent wk t" "wk l = Inr tr" "\<And>l'. drop_bit 12 l' = drop_bit 12 l \<Longrightarrow> wk l = Inr tr \<Longrightarrow> wk l' = Inr tr"
  shows "tlb_coherent wk (tlb_insert l tr t)"
  using assms by (auto simp: tlb_coherent_def tlb_wf_ops tlb_insert_map split: if_splits)

text \<open>Software that changes the walk of some pages and invalidates each of them keeps coherence.\<close>

lemma tlb_coherent_shootdown:
  assumes "tlb_coherent wk t" "\<And>l. (\<forall>p \<in> set ls. drop_bit 12 l \<noteq> drop_bit 12 p) \<Longrightarrow> wk' l = wk l"
  shows "tlb_coherent wk' (fold tlb_invalidate ls t)"
proof -
  have wf: "tlb_wf t \<Longrightarrow> tlb_wf (fold tlb_invalidate ls t)"
    by (induction ls arbitrary: t) (auto intro: tlb_wf_ops)
  have m: "tlb_wf t \<Longrightarrow> tlb_map (fold tlb_invalidate ls t) (drop_bit 12 l) =
      (if \<exists>p \<in> set ls. drop_bit 12 l = drop_bit 12 p then None else tlb_map t (drop_bit 12 l))" for l
    by (induction ls arbitrary: t) (auto simp: tlb_invalidate_map tlb_wf_ops)
  show ?thesis using assms wf m by (auto simp: tlb_coherent_def split: if_splits)
qed

end
