(* ===== verification/Decode_Cache.thy ===== *)
theory Decode_Cache
  imports Cpu_State Guest_Memory_Correct
begin

text \<open>
  The decoded-instruction cache (\<open>cpu/decode.rs\<close>). Instructions and their decoder come from the
  third-party \<open>iced-x86\<close> crate: \<open>'i\<close> is its instruction type, and \<open>iced_ops\<close> collects the functions of
  it that the interpreter core calls. Registers are the discriminants of the crate's enumeration, as
  the register table of the source uses them.
\<close>

section \<open>The decoder interface\<close>

datatype op_kind = OpMemory | OpMemorySegSI | OpMemorySegESI | OpMemorySegRSI | OpMemoryESDI
  | OpMemoryESEDI | OpMemoryESRDI | OpOther

record 'i iced_ops =
  ic_default :: 'i
  ic_decode :: "u32 \<Rightarrow> bytes \<Rightarrow> u64 \<Rightarrow> 'i"
  ic_len :: "'i \<Rightarrow> nat"
  ic_is_invalid :: "'i \<Rightarrow> bool"
  ic_op_kinds :: "'i \<Rightarrow> op_kind list"
  ic_mnemonic :: "'i \<Rightarrow> string"
  ic_segment_prefix :: "'i \<Rightarrow> seg_name"
  ic_is_ip_rel :: "'i \<Rightarrow> bool"
  ic_ip_rel_address :: "'i \<Rightarrow> u64"
  ic_memory_base :: "'i \<Rightarrow> nat"
  ic_memory_index :: "'i \<Rightarrow> nat"
  ic_memory_scale :: "'i \<Rightarrow> u32"
  ic_displacement :: "'i \<Rightarrow> u64"

section \<open>The cache\<close>

definition MAX_INSTRUCTION_BYTES :: nat where "MAX_INSTRUCTION_BYTES = 15"
definition DECODE_ENTRIES :: nat where "DECODE_ENTRIES = 2 ^ 15"
definition DECODE_INVALID :: u64 where "DECODE_INVALID = - 1"

record 'i decode_entry =
  dn_tag :: u64
  dn_linear :: u64
  dn_physical :: u64
  dn_generation :: u32
  dn_translation_epoch :: u64
  dn_execution_context :: u32
  dn_instruction :: 'i

record decode_mapping =
  mp_ip :: u64
  mp_linear :: u64
  mp_physical :: u64
  mp_page_generation :: u32
  mp_translation_epoch :: u64
  mp_execution_context :: u32

record 'i decode_cache =
  dc_entries :: "'i decode_entry list"
  dc_hits :: u64
  dc_misses :: u64

definition decode_cache_new :: "'i iced_ops \<Rightarrow> 'i decode_cache" where
  "decode_cache_new ic =
     \<lparr>dc_entries = replicate DECODE_ENTRIES \<lparr>dn_tag = DECODE_INVALID, dn_linear = 0, dn_physical = 0,
        dn_generation = 0, dn_translation_epoch = 0, dn_execution_context = 0,
        dn_instruction = ic_default ic\<rparr>,
      dc_hits = 0, dc_misses = 0\<rparr>"

definition decode_slot :: "u64 \<Rightarrow> nat" where
  "decode_slot ip = unat (drop_bit 33 (ip * 0x9E3779B97F4A7C15) AND (of_nat DECODE_ENTRIES - 1))"

definition lookup_mapped ::
  "('b, 'n) memory \<Rightarrow> u64 \<Rightarrow> u64 \<Rightarrow> u64 \<Rightarrow> u32 \<Rightarrow> 'i decode_cache \<Rightarrow> 'i option \<times> 'i decode_cache" where
  "lookup_mapped m ip linear translation_epoch execution_context dc =
     (let entry = dc_entries dc ! decode_slot ip in
      if dn_tag entry \<noteq> ip \<or> dn_linear entry \<noteq> linear
        \<or> dn_translation_epoch entry \<noteq> translation_epoch
        \<or> dn_execution_context entry \<noteq> execution_context
        \<or> page_generation m (dn_physical entry) \<noteq> dn_generation entry
      then (None, dc)
      else (Some (dn_instruction entry), dc\<lparr>dc_hits := dc_hits dc + 1\<rparr>))"

definition decode_lookup :: "decode_mapping \<Rightarrow> 'i decode_cache \<Rightarrow> 'i option \<times> 'i decode_cache" where
  "decode_lookup mp dc =
     (let slot = decode_slot (mp_ip mp); entry = dc_entries dc ! slot in
      if dn_tag entry \<noteq> mp_ip mp \<or> dn_linear entry \<noteq> mp_linear mp \<or> dn_physical entry \<noteq> mp_physical mp
        \<or> dn_generation entry \<noteq> mp_page_generation mp
        \<or> dn_execution_context entry \<noteq> mp_execution_context mp
      then (None, dc\<lparr>dc_misses := dc_misses dc + 1\<rparr>)
      else (Some (dn_instruction entry),
            dc\<lparr>dc_entries := (dc_entries dc)[slot := entry\<lparr>dn_translation_epoch := mp_translation_epoch mp,
                 dn_execution_context := mp_execution_context mp\<rparr>],
               dc_hits := dc_hits dc + 1\<rparr>))"

definition decode_insert ::
  "'i iced_ops \<Rightarrow> decode_mapping \<Rightarrow> 'i \<Rightarrow> 'i decode_cache \<Rightarrow> 'i decode_cache" where
  "decode_insert ic mp instruction dc =
     (if MAX_INSTRUCTION_BYTES < ic_len ic instruction then dc
      else dc\<lparr>dc_entries := (dc_entries dc)[decode_slot (mp_ip mp) :=
             \<lparr>dn_tag = mp_ip mp, dn_linear = mp_linear mp, dn_physical = mp_physical mp,
              dn_generation = mp_page_generation mp, dn_translation_epoch = mp_translation_epoch mp,
              dn_execution_context = mp_execution_context mp, dn_instruction = instruction\<rparr>]\<rparr>)"

lemma decode_slot_bound: "decode_slot ip < DECODE_ENTRIES"
proof -
  have "drop_bit 33 (ip * 0x9E3779B97F4A7C15) AND 0x7FFF \<le> (0x7FFF :: u64)" by (rule word_and_le1)
  then show ?thesis by (simp add: decode_slot_def DECODE_ENTRIES_def word_le_nat_alt)
qed

end
