(* ===== verification/Cpu_Core.thy ===== *)
theory Cpu_Core
  imports Tlb Decode_Cache Pic8259 Pit8254 Cmos_Rtc Uart16550
begin

text \<open>
  The processor state and its access paths (\<open>cpu/mod.rs\<close>): address translation through the TLB,
  linear memory, the stack, descriptor tables, port I/O and the batched chipset update. A method that
  can fail after it changed the processor returns its result together with the state.

  The environment \<open>env\<close> collects what the core is built with: the block and network backends, the
  devices on the extension port bus, the instruction decoder, and the diagnostic switch that turns
  the TLB off. The fields of the source's \<open>Cpu\<close> that only instruction semantics use (x87, SSE
  control, system-call registers) are the opaque component \<open>c_rest\<close>.
\<close>

section \<open>State\<close>

record ('b, 'n, 's, 'i) cpu_env =
  env_blk :: "'b block_backend_ops"
  env_net :: "'n net_backend_ops"
  env_ports :: "'s port_ops"
  env_iced :: "'i iced_ops"
  env_tlb_disabled :: bool

definition NANOSECONDS_PER_INSTRUCTION :: u64 where "NANOSECONDS_PER_INSTRUCTION = 10"
definition DEVICE_TICK_INTERVAL :: u32 where "DEVICE_TICK_INTERVAL = 64"

record io_event =
  io_retired :: u64
  io_is_write :: bool
  io_port :: u16
  io_size :: u8
  io_value :: u32

record fault_event =
  fe_retired :: u64
  fe_vector :: u8
  fe_error_code :: u16
  fe_rip :: u64
  fe_cr2 :: u64
  fe_is_exception :: bool

record deliverable =
  dv_vector :: u8
  dv_error_code :: u16
  dv_has_error_code :: bool

record ('b, 'n, 's, 'i, 'r) cpu =
  c_regs :: registers
  c_memory :: "('b, 'n) memory"
  c_ports :: "'s port_bus"
  c_pic :: pic8259
  c_pit :: pit8254
  c_cmos :: cmos
  c_acpi_pm :: acpi_pm
  c_uart_console :: uart16550
  c_uart_control :: uart16550
  c_lines :: interrupt_lines
  c_tsc :: u64
  c_halted :: bool
  c_trace :: "(u64 \<times> u64 list \<times> bytes) list"
  c_trace_capacity :: nat
  c_io_log :: "io_event list"
  c_io_log_capacity :: nat
  c_interrupts_delivered :: u64
  c_exceptions_raised :: u64
  c_fault_log :: "fault_event list"
  c_pending_interrupts :: "deliverable list"
  c_in_exception :: bool
  c_in_double_fault :: bool
  c_tlb :: tlb
  c_decoded :: "'i decode_cache"
  c_device_countdown :: u32
  c_waiting_for_interrupt :: bool
  c_interrupt_shadow :: bool
  c_instruction_start :: u64
  c_rest :: 'r

type_synonym ('c, 'a) cpu_op = "'c \<Rightarrow> (cpu_error + 'a) \<times> 'c"

definition bind_op :: "('c, 'a) cpu_op \<Rightarrow> ('a \<Rightarrow> ('c, 'b) cpu_op) \<Rightarrow> ('c, 'b) cpu_op" where
  "bind_op f g c = (case f c of (Inl e, c) \<Rightarrow> (Inl e, c) | (Inr x, c) \<Rightarrow> g x c)"

definition ret_op :: "'a \<Rightarrow> ('c, 'a) cpu_op" where
  "ret_op x c = (Inr x, c)"

definition fail_op :: "cpu_error \<Rightarrow> ('c, 'a) cpu_op" where
  "fail_op e c = (Inl e, c)"

definition mem_read_op :: "(('b, 'n) memory \<Rightarrow> cpu_error + 'a) \<Rightarrow> (('b, 'n, 's, 'i, 'r) cpu, 'a) cpu_op" where
  "mem_read_op f c = (f (c_memory c), c)"

definition mem_write_op ::
  "(('b, 'n) memory \<Rightarrow> cpu_error + ('b, 'n) memory) \<Rightarrow> (('b, 'n, 's, 'i, 'r) cpu, unit) cpu_op" where
  "mem_write_op f c = (case f (c_memory c) of Inl e \<Rightarrow> (Inl e, c) | Inr m \<Rightarrow> (Inr (), c\<lparr>c_memory := m\<rparr>))"

definition cpu_new :: "'i iced_ops \<Rightarrow> nat \<Rightarrow> u64 \<Rightarrow> nat \<Rightarrow> 'r \<Rightarrow> cpu_error + ('b, 'n, 's, 'i, 'r) cpu" where
  "cpu_new ic memory_mib boot_seconds trace_capacity rest =
     bind_res (mem_new memory_mib) (\<lambda>m.
     Inr \<lparr>c_regs = registers_default, c_memory = attach_lapic m, c_ports = bus_default,
          c_pic = pic8259_new, c_pit = pit_new, c_cmos = cmos_new boot_seconds,
          c_acpi_pm = acpi_pm_new, c_uart_console = uart_new 0x3F8 4096 65536,
          c_uart_control = uart_new 0x2F8 65536 65536, c_lines = \<lparr>asserted = 0\<rparr>, c_tsc = 0,
          c_halted = False, c_trace = [], c_trace_capacity = trace_capacity, c_io_log = [],
          c_io_log_capacity = 0, c_interrupts_delivered = 0, c_exceptions_raised = 0,
          c_fault_log = [], c_pending_interrupts = [], c_in_exception = False,
          c_in_double_fault = False, c_tlb = tlb_new, c_decoded = decode_cache_new ic,
          c_device_countdown = DEVICE_TICK_INTERVAL, c_waiting_for_interrupt = False,
          c_interrupt_shadow = False, c_instruction_start = 0, c_rest = rest\<rparr>)"

section \<open>Address translation\<close>

definition page_fault_error :: "page_fault \<Rightarrow> cpu_error" where
  "page_fault_error f = PageFaultError (pf_linear f) (pf_error_code f)"

definition translate_as ::
  "('b, 'n, 's, 'i) cpu_env \<Rightarrow> u64 \<Rightarrow> access_kind \<Rightarrow> u8 \<Rightarrow> (('b, 'n, 's, 'i, 'r) cpu, u64) cpu_op" where
  "translate_as env linear kind ring c =
     (let r = c_regs c in
      if \<not> contains (r_cr0 r) CR0_PG then (Inr linear, c)
      else let (cached, t) = (if env_tlb_disabled env then (None, c_tlb c) else tlb_lookup (c_tlb c) linear) in
      case (case cached of
              Some translation \<Rightarrow> Inr (translation, t)
            | None \<Rightarrow>
                (case walk (c_memory c) (r_cr3 r) (r_cr4 r) (r_efer r) linear of
                   Inl fault \<Rightarrow> Inl (page_fault_error (with_access_bits fault kind ring))
                 | Inr walked \<Rightarrow> Inr (walked, tlb_insert linear walked t))) of
        Inl e \<Rightarrow> (Inl e, c\<lparr>c_tlb := t\<rparr>)
      | Inr (walked, t) \<Rightarrow>
          (case check_access walked linear kind ring (r_cr0 r) (r_cr4 r) (r_efer r)
                  (contains (r_rflags r) RFLAGS_AC) of
             Inl fault \<Rightarrow> (Inl (page_fault_error fault), c\<lparr>c_tlb := tlb_invalidate linear t\<rparr>)
           | Inr _ \<Rightarrow> (Inr (physical walked linear), c\<lparr>c_tlb := t\<rparr>)))"

definition translate ::
  "('b, 'n, 's, 'i) cpu_env \<Rightarrow> u64 \<Rightarrow> access_kind \<Rightarrow> (('b, 'n, 's, 'i, 'r) cpu, u64) cpu_op" where
  "translate env linear kind c = translate_as env linear kind (cpl (c_regs c)) c"

definition translate_privileged ::
  "('b, 'n, 's, 'i) cpu_env \<Rightarrow> u64 \<Rightarrow> access_kind \<Rightarrow> (('b, 'n, 's, 'i, 'r) cpu, u64) cpu_op" where
  "translate_privileged env linear kind = translate_as env linear kind 0"

definition flush_tlb :: "('b, 'n, 's, 'i, 'r) cpu \<Rightarrow> ('b, 'n, 's, 'i, 'r) cpu" where
  "flush_tlb c = c\<lparr>c_tlb := tlb_flush (c_tlb c)\<rparr>"

definition invalidate_page :: "u64 \<Rightarrow> ('b, 'n, 's, 'i, 'r) cpu \<Rightarrow> ('b, 'n, 's, 'i, 'r) cpu" where
  "invalidate_page linear c = c\<lparr>c_tlb := tlb_invalidate linear (c_tlb c)\<rparr>"

section \<open>Linear memory\<close>

text \<open>Bytes from a physical address to the end of its page.\<close>

definition page_left :: "u64 \<Rightarrow> nat" where
  "page_left pa = 4096 - unat (pa AND 0xFFF)"

lemma page_left_pos: "0 < page_left p"
proof -
  have "p AND 0xFFF \<le> 0xFFF" by (rule word_and_le1)
  then show ?thesis by (simp add: page_left_def word_le_nat_alt)
qed

lemma chunk_progress: "d < n \<Longrightarrow> n - (d + min (page_left p) (n - d)) < n - d"
  using page_left_pos [of p] by auto

function read_linear_loop ::
  "('b, 'n, 's, 'i) cpu_env \<Rightarrow> access_kind \<Rightarrow> u64 \<Rightarrow> nat \<Rightarrow> nat \<Rightarrow> (('b, 'n, 's, 'i, 'r) cpu, bytes) cpu_op" where
  "read_linear_loop env kind linear n done' c =
     (if done' < n then
        (case translate env (linear + of_nat done') kind c of
           (Inl e, c) \<Rightarrow> (Inl e, c)
         | (Inr pa, c) \<Rightarrow>
             let in_page = min (page_left pa) (n - done') in
             (case mem_read (c_memory c) pa in_page of
                Inl e \<Rightarrow> (Inl e, c)
              | Inr bs \<Rightarrow>
                  (case read_linear_loop env kind linear n (done' + in_page) c of
                     (Inl e, c) \<Rightarrow> (Inl e, c)
                   | (Inr rest, c) \<Rightarrow> (Inr (bs @ rest), c))))
      else (Inr [], c))"
  by pat_completeness auto
termination
  by (relation "measure (\<lambda>(_, _, _, n, done', _). n - done')") (auto simp: chunk_progress)

declare read_linear_loop.simps [simp del]

definition read_linear_bytes ::
  "('b, 'n, 's, 'i) cpu_env \<Rightarrow> u64 \<Rightarrow> nat \<Rightarrow> (('b, 'n, 's, 'i, 'r) cpu, bytes) cpu_op" where
  "read_linear_bytes env linear n = read_linear_loop env ReadAccess linear n 0"

function write_linear_loop ::
  "('b, 'n, 's, 'i) cpu_env \<Rightarrow> u64 \<Rightarrow> bytes \<Rightarrow> nat \<Rightarrow> (('b, 'n, 's, 'i, 'r) cpu, unit) cpu_op" where
  "write_linear_loop env linear bs written c =
     (if written < length bs then
        (case translate env (linear + of_nat written) WriteAccess c of
           (Inl e, c) \<Rightarrow> (Inl e, c)
         | (Inr pa, c) \<Rightarrow>
             let in_page = min (page_left pa) (length bs - written) in
             (case mem_write (env_net env) (c_memory c) pa (slice written in_page bs) of
                Inl e \<Rightarrow> (Inl e, c)
              | Inr m \<Rightarrow> write_linear_loop env linear bs (written + in_page) (c\<lparr>c_memory := m\<rparr>)))
      else (Inr (), c))"
  by pat_completeness auto
termination
  by (relation "measure (\<lambda>(_, _, bs, written, _). length bs - written)") (auto simp: chunk_progress)

declare write_linear_loop.simps [simp del]

definition write_linear_bytes ::
  "('b, 'n, 's, 'i) cpu_env \<Rightarrow> u64 \<Rightarrow> bytes \<Rightarrow> (('b, 'n, 's, 'i, 'r) cpu, unit) cpu_op" where
  "write_linear_bytes env linear bs = write_linear_loop env linear bs 0"

section \<open>Operands\<close>

text \<open>
  \<open>REGISTER_INDEX\<close> folds the discriminants of the register enumeration (8-bit 1 to 20, 16-bit 21 to
  36, 32-bit 37 to 52, 64-bit 53 to 68) to a slot of the register file.
\<close>

definition register_index :: "nat \<Rightarrow> nat" where
  "register_index v =
     (if v < 69 then
        if v = 0 then 0 else if v \<le> 8 then (v - 1) mod 4 else if v \<le> 20 then v - 5
        else if v \<le> 36 then v - 21 else if v \<le> 52 then v - 37 else v - 53
      else 0)"

definition address_size_of :: "'i iced_ops \<Rightarrow> 'i \<Rightarrow> u32" where
  "address_size_of ic ins =
     (let r = (if ic_memory_base ic ins \<noteq> 0 then ic_memory_base ic ins else ic_memory_index ic ins)
      in if r = 0 then 8 else if 53 \<le> r \<and> r \<le> 68 then 8 else if 37 \<le> r \<and> r \<le> 52 then 4 else 2)"

definition effective_address ::
  "('b, 'n, 's, 'i) cpu_env \<Rightarrow> ('b, 'n, 's, 'i, 'r) cpu \<Rightarrow> 'i \<Rightarrow> u64" where
  "effective_address env c ins =
     (let ic = env_iced env; segment_base = data_base (c_regs c) (ic_segment_prefix ic ins) in
      if ic_is_ip_rel ic ins then segment_base + ic_ip_rel_address ic ins
      else let base = ic_memory_base ic ins; index = ic_memory_index ic ins;
               address = ic_displacement ic ins;
               address = (if base \<noteq> 0 then address + r_gpr (c_regs c) ! register_index base else address);
               address = (if index \<noteq> 0
                 then address + r_gpr (c_regs c) ! register_index index * ucast (ic_memory_scale ic ins) else address);
               address = (if address_size_of ic ins = 2 then address AND 0xFFFF
                 else if address_size_of ic ins = 4 then address AND 0xFFFFFFFF else address)
           in segment_base + address)"

definition unsupported_size :: "u8 \<Rightarrow> cpu_error" where
  "unsupported_size sz = GuestFault (''unsupported operand size '' @ show_radix 10 (unat sz))"

definition read_operand ::
  "('b, 'n, 's, 'i) cpu_env \<Rightarrow> 'i \<Rightarrow> u8 \<Rightarrow> (('b, 'n, 's, 'i, 'r) cpu, u64) cpu_op" where
  "read_operand env ins sz c =
     (let linear = effective_address env c ins in
      if (linear AND 0xFFF) + ucast sz \<le> 0x1000 then
        bind_op (translate env linear ReadAccess) (\<lambda>pa.
          if sz = 1 then mem_read_op (\<lambda>m. bind_res (read_u8 m pa) (\<lambda>v. Inr (ucast v)))
          else if sz = 2 then mem_read_op (\<lambda>m. bind_res (read_u16 m pa) (\<lambda>v. Inr (ucast v)))
          else if sz = 4 then mem_read_op (\<lambda>m. bind_res (read_u32 m pa) (\<lambda>v. Inr (ucast v)))
          else if sz = 8 then mem_read_op (\<lambda>m. read_u64 m pa)
          else fail_op (unsupported_size sz)) c
      else if sz \<notin> {1, 2, 4, 8} then (Inl (unsupported_size sz), c)
      else bind_op (read_linear_bytes env linear (unat sz)) (\<lambda>bs.
             ret_op (from_le (bs @ replicate (8 - unat sz) 0))) c)"

definition write_operand ::
  "('b, 'n, 's, 'i) cpu_env \<Rightarrow> 'i \<Rightarrow> u8 \<Rightarrow> u64 \<Rightarrow> (('b, 'n, 's, 'i, 'r) cpu, unit) cpu_op" where
  "write_operand env ins sz v c =
     (let linear = effective_address env c ins in
      if (linear AND 0xFFF) + ucast sz \<le> 0x1000 then
        bind_op (translate env linear WriteAccess) (\<lambda>pa.
          if sz = 1 then mem_write_op (\<lambda>m. write_u8 (env_net env) m pa (ucast v))
          else if sz = 2 then mem_write_op (\<lambda>m. write_u16 (env_net env) m pa (ucast v))
          else if sz = 4 then mem_write_op (\<lambda>m. write_u32 (env_net env) m pa (ucast v))
          else if sz = 8 then mem_write_op (\<lambda>m. write_u64 (env_net env) m pa v)
          else fail_op (unsupported_size sz)) c
      else if sz \<notin> {1, 2, 4, 8} then (Inl (unsupported_size sz), c)
      else write_linear_bytes env linear (take (unat sz) (to_le 8 v)) c)"

section \<open>Descriptor tables\<close>

definition descriptor_address :: "registers \<Rightarrow> u16 \<Rightarrow> u64" where
  "descriptor_address r selector =
     (let table_base = (if sel_table selector = 0 then r_gdt_base r else seg_base (r_ldtr r))
      in table_base + ucast (sel_index selector) * 8)"

definition descriptor_entry ::
  "('b, 'n, 's, 'i) cpu_env \<Rightarrow> u16 \<Rightarrow> (('b, 'n, 's, 'i, 'r) cpu, u64) cpu_op" where
  "descriptor_entry env selector c =
     bind_op (translate_privileged env (descriptor_address (c_regs c) selector) ReadAccess)
       (\<lambda>pa. mem_read_op (\<lambda>m. read_u64 m pa)) c"

definition load_segment_from_table ::
  "('b, 'n, 's, 'i) cpu_env \<Rightarrow> u16 \<Rightarrow> (('b, 'n, 's, 'i, 'r) cpu, segment_register) cpu_op" where
  "load_segment_from_table env selector =
     (if sel_index selector = 0 \<and> sel_table selector = 0
      then ret_op (segment_default\<lparr>seg_selector := selector, seg_base := 0, seg_limit := 0\<rparr>)
      else bind_op (descriptor_entry env selector)
             (\<lambda>entry. ret_op (descriptor_load (descriptor_decode entry) selector)))"

definition load_system_descriptor ::
  "('b, 'n, 's, 'i) cpu_env \<Rightarrow> u16 \<Rightarrow> (('b, 'n, 's, 'i, 'r) cpu, segment_register) cpu_op" where
  "load_system_descriptor env selector =
     bind_op (descriptor_entry env selector) (\<lambda>low c.
       let loaded = descriptor_load (descriptor_decode low) selector in
       if mode (c_regs c) = LongMode
       then bind_op (translate_privileged env (descriptor_address (c_regs c) selector + 8) ReadAccess) (\<lambda>pa.
            bind_op (mem_read_op (\<lambda>m. read_u64 m pa)) (\<lambda>high.
            ret_op (loaded\<lparr>seg_base := seg_base loaded OR push_bit 32 (high AND 0xFFFFFFFF)\<rparr>))) c
       else (Inr loaded, c))"

definition drop_segment :: "u8 \<Rightarrow> segment_register \<Rightarrow> segment_register" where
  "drop_segment ring s =
     (if seg_selector s \<noteq> 0 \<and> \<not> seg_conforming s \<and> at_dpl (seg_attributes s) < ring
      then segment_default\<lparr>seg_selector := 0, seg_base := seg_base s, seg_limit := 0\<rparr> else s)"

definition drop_inaccessible_data_segments ::
  "u8 \<Rightarrow> ('b, 'n, 's, 'i, 'r) cpu \<Rightarrow> ('b, 'n, 's, 'i, 'r) cpu" where
  "drop_inaccessible_data_segments ring c =
     (let r = c_regs c in
      c\<lparr>c_regs := r\<lparr>r_ds := drop_segment ring (r_ds r), r_es := drop_segment ring (r_es r),
                    r_fs := drop_segment ring (r_fs r), r_gs := drop_segment ring (r_gs r)\<rparr>\<rparr>)"

section \<open>The stack\<close>

definition map_regs :: "(registers \<Rightarrow> registers) \<Rightarrow> ('b, 'n, 's, 'i, 'r) cpu \<Rightarrow> ('b, 'n, 's, 'i, 'r) cpu" where
  "map_regs f c = c\<lparr>c_regs := f (c_regs c)\<rparr>"

definition move_rsp :: "u64 \<Rightarrow> ('b, 'n, 's, 'i, 'r) cpu \<Rightarrow> ('b, 'n, 's, 'i, 'r) cpu" where
  "move_rsp d = map_regs (\<lambda>r. set_rsp (rsp r + d) r)"

definition push16 :: "('b, 'n, 's, 'i) cpu_env \<Rightarrow> u16 \<Rightarrow> (('b, 'n, 's, 'i, 'r) cpu, unit) cpu_op" where
  "push16 env v c =
     (let c = move_rsp (- 2) c; linear = stack_base (c_regs c) + rsp (c_regs c) in
      bind_op (translate env linear WriteAccess) (\<lambda>pa. mem_write_op (\<lambda>m. write_u16 (env_net env) m pa v)) c)"

definition push32 :: "('b, 'n, 's, 'i) cpu_env \<Rightarrow> u32 \<Rightarrow> (('b, 'n, 's, 'i, 'r) cpu, unit) cpu_op" where
  "push32 env v c =
     (let c = move_rsp (- 4) c; linear = stack_base (c_regs c) + rsp (c_regs c) in
      bind_op (translate env linear WriteAccess) (\<lambda>pa. mem_write_op (\<lambda>m. write_u32 (env_net env) m pa v)) c)"

definition push64 :: "('b, 'n, 's, 'i) cpu_env \<Rightarrow> u64 \<Rightarrow> (('b, 'n, 's, 'i, 'r) cpu, unit) cpu_op" where
  "push64 env v c =
     (let c = move_rsp (- 8) c in
      bind_op (translate env (rsp (c_regs c)) WriteAccess) (\<lambda>pa. mem_write_op (\<lambda>m. write_u64 (env_net env) m pa v)) c)"

definition pop16 :: "('b, 'n, 's, 'i) cpu_env \<Rightarrow> (('b, 'n, 's, 'i, 'r) cpu, u16) cpu_op" where
  "pop16 env c =
     bind_op (translate env (stack_base (c_regs c) + rsp (c_regs c)) ReadAccess) (\<lambda>pa.
     bind_op (mem_read_op (\<lambda>m. read_u16 m pa)) (\<lambda>v c. (Inr v, move_rsp 2 c))) c"

definition pop32 :: "('b, 'n, 's, 'i) cpu_env \<Rightarrow> (('b, 'n, 's, 'i, 'r) cpu, u32) cpu_op" where
  "pop32 env c =
     bind_op (translate env (stack_base (c_regs c) + rsp (c_regs c)) ReadAccess) (\<lambda>pa.
     bind_op (mem_read_op (\<lambda>m. read_u32 m pa)) (\<lambda>v c. (Inr v, move_rsp 4 c))) c"

definition pop64 :: "('b, 'n, 's, 'i) cpu_env \<Rightarrow> (('b, 'n, 's, 'i, 'r) cpu, u64) cpu_op" where
  "pop64 env c =
     bind_op (translate env (rsp (c_regs c)) ReadAccess) (\<lambda>pa.
     bind_op (mem_read_op (\<lambda>m. read_u64 m pa)) (\<lambda>v c. (Inr v, move_rsp 8 c))) c"

definition pop_native :: "('b, 'n, 's, 'i) cpu_env \<Rightarrow> (('b, 'n, 's, 'i, 'r) cpu, u64) cpu_op" where
  "pop_native env c =
     (case mode (c_regs c) of
        LongMode \<Rightarrow> pop64 env c
      | Protected32 \<Rightarrow> bind_op (pop32 env) (\<lambda>v. ret_op (ucast v)) c
      | _ \<Rightarrow> bind_op (pop16 env) (\<lambda>v. ret_op (ucast v)) c)"

definition push_native :: "('b, 'n, 's, 'i) cpu_env \<Rightarrow> u64 \<Rightarrow> (('b, 'n, 's, 'i, 'r) cpu, unit) cpu_op" where
  "push_native env v c =
     (case mode (c_regs c) of
        LongMode \<Rightarrow> push64 env v c
      | Protected32 \<Rightarrow> push32 env (ucast v) c
      | _ \<Rightarrow> push16 env (ucast v) c)"

section \<open>The chipset\<close>

text \<open>An edge on one line reaches both interrupt controllers.\<close>

definition pulse_line :: "u8 \<Rightarrow> u32 \<Rightarrow> ('b, 'n, 's, 'i, 'r) cpu \<Rightarrow> ('b, 'n, 's, 'i, 'r) cpu" where
  "pulse_line line levels c =
     c\<lparr>c_pic := pulse (c_pic c) line, c_memory := ioapic_pulse line levels (c_memory c)\<rparr>"

definition VIRTIO_IRQ :: u8 where "VIRTIO_IRQ = 10"
definition VIRTIO_NET_IRQ :: u8 where "VIRTIO_NET_IRQ = 11"
definition VIRTIO_BLK2_IRQ :: u8 where "VIRTIO_BLK2_IRQ = 12"

definition service_serial_edges :: "('b, 'n, 's, 'i, 'r) cpu \<Rightarrow> ('b, 'n, 's, 'i, 'r) cpu" where
  "service_serial_edges c =
     (let levels = ucast (asserted (c_lines c));
          c = (if poll_interrupt_edge (c_uart_console c) then pulse_line (irq_line (c_uart_console c)) levels c else c)
      in if poll_interrupt_edge (c_uart_control c) then pulse_line (irq_line (c_uart_control c)) levels c else c)"

text \<open>\<open>now\<close> is the host clock the network device reads when it is polled.\<close>

definition service_devices ::
  "('b, 'n, 's, 'i) cpu_env \<Rightarrow> nat \<Rightarrow> u32 \<Rightarrow> ('b, 'n, 's, 'i, 'r) cpu \<Rightarrow> ('b, 'n, 's, 'i, 'r) cpu" where
  "service_devices env now instructions c =
     (let c = c\<lparr>c_memory := mem_lapic_tick (c_memory c) instructions\<rparr>;
          (timer_fired, pit) = pit_advance (c_pit c) (NANOSECONDS_PER_INSTRUCTION * ucast instructions);
          c = c\<lparr>c_pit := pit\<rparr>;
          console_edge = poll_interrupt_edge (c_uart_console c);
          control_edge = poll_interrupt_edge (c_uart_control c);
          levels = ucast (asserted (c_lines c));
          c = (if timer_fired then pulse_line 0 levels c else c);
          c = (if console_edge then pulse_line (irq_line (c_uart_console c)) levels c else c);
          c = (if control_edge then pulse_line (irq_line (c_uart_control c)) levels c else c);
          (blk, m) = poll_virtio_irq (env_blk env) (c_memory c);
          c = c\<lparr>c_memory := m\<rparr>;
          c = (if blk then pulse_line VIRTIO_IRQ levels c else c);
          (blk2, m) = poll_virtio_blk2_irq (env_blk env) (c_memory c);
          c = c\<lparr>c_memory := m\<rparr>;
          c = (if blk2 then pulse_line VIRTIO_BLK2_IRQ levels c else c);
          (net, m) = poll_virtio_net (env_net env) now (c_memory c);
          c = c\<lparr>c_memory := m\<rparr>;
          c = (if net then pulse_line VIRTIO_NET_IRQ levels c else c)
      in c\<lparr>c_pic := set_input (c_pic c) (c_lines c), c_memory := ioapic_set_lines levels (c_memory c)\<rparr>)"

section \<open>Port I/O\<close>

definition record_io :: "bool \<Rightarrow> u16 \<Rightarrow> u8 \<Rightarrow> u32 \<Rightarrow> ('b, 'n, 's, 'i, 'r) cpu \<Rightarrow> ('b, 'n, 's, 'i, 'r) cpu" where
  "record_io wr port sz v c =
     (if c_io_log_capacity c = 0 then c
      else let log = (if c_io_log_capacity c \<le> length (c_io_log c) then tl (c_io_log c) else c_io_log c)
           in c\<lparr>c_io_log := log @ [\<lparr>io_retired = r_instructions_retired (c_regs c), io_is_write = wr,
                io_port = port, io_size = sz, io_value = v\<rparr>]\<rparr>)"

definition is_pic_port :: "u16 \<Rightarrow> bool" where
  "is_pic_port port \<longleftrightarrow> port \<in> {0x20, 0x21, 0xA0, 0xA1}"

definition is_pit_port :: "u16 \<Rightarrow> bool" where
  "is_pit_port port \<longleftrightarrow> 0x40 \<le> port \<and> port \<le> 0x43 \<or> port = 0x61"

definition dispatch_io_read ::
  "('b, 'n, 's, 'i) cpu_env \<Rightarrow> u16 \<Rightarrow> u8 \<Rightarrow> (('b, 'n, 's, 'i, 'r) cpu, u32) cpu_op" where
  "dispatch_io_read env port sz c =
     (if 0x3F8 \<le> port \<and> port \<le> 0x3FF then
        (case uart_read (c_uart_console c) port 1 of Inl e \<Rightarrow> (Inl e, c)
         | Inr (v, u) \<Rightarrow> (Inr (ucast (ucast v :: u8)), service_serial_edges (c\<lparr>c_uart_console := u\<rparr>)))
      else if 0x2F8 \<le> port \<and> port \<le> 0x2FF then
        (case uart_read (c_uart_control c) port 1 of Inl e \<Rightarrow> (Inl e, c)
         | Inr (v, u) \<Rightarrow> (Inr (ucast (ucast v :: u8)), service_serial_edges (c\<lparr>c_uart_control := u\<rparr>)))
      else if is_pic_port port then
        (case pic_read (c_pic c) port sz of Inl e \<Rightarrow> (Inl e, c) | Inr (v, p) \<Rightarrow> (Inr v, c\<lparr>c_pic := p\<rparr>))
      else if is_pit_port port then
        (case pit_read (c_pit c) port sz of Inl e \<Rightarrow> (Inl e, c) | Inr (v, p) \<Rightarrow> (Inr v, c\<lparr>c_pit := p\<rparr>))
      else if port = 0x70 \<or> port = 0x71 then
        (case cmos_read (c_cmos c) port sz of Inl e \<Rightarrow> (Inl e, c) | Inr (v, p) \<Rightarrow> (Inr v, c\<lparr>c_cmos := p\<rparr>))
      else if pm_handles port then (Inr (pm_read (c_acpi_pm c) port sz (c_tsc c)), c)
      else (case bus_read (env_ports env) (c_ports c) port sz of Inl e \<Rightarrow> (Inl e, c)
            | Inr (v, p) \<Rightarrow> (Inr v, c\<lparr>c_ports := p\<rparr>)))"

definition io_read :: "('b, 'n, 's, 'i) cpu_env \<Rightarrow> u16 \<Rightarrow> u8 \<Rightarrow> (('b, 'n, 's, 'i, 'r) cpu, u32) cpu_op" where
  "io_read env port sz = bind_op (dispatch_io_read env port sz) (\<lambda>v c. (Inr v, record_io False port sz v c))"

definition dispatch_io_write ::
  "('b, 'n, 's, 'i) cpu_env \<Rightarrow> u16 \<Rightarrow> u8 \<Rightarrow> u32 \<Rightarrow> (('b, 'n, 's, 'i, 'r) cpu, unit) cpu_op" where
  "dispatch_io_write env port sz v c =
     (if 0x3F8 \<le> port \<and> port \<le> 0x3FF then
        (case uart_write (c_uart_console c) port 1 (v AND 0xFF) of Inl e \<Rightarrow> (Inl e, c)
         | Inr u \<Rightarrow> (Inr (), service_serial_edges (c\<lparr>c_uart_console := u\<rparr>)))
      else if 0x2F8 \<le> port \<and> port \<le> 0x2FF then
        (case uart_write (c_uart_control c) port 1 (v AND 0xFF) of Inl e \<Rightarrow> (Inl e, c)
         | Inr u \<Rightarrow> (Inr (), service_serial_edges (c\<lparr>c_uart_control := u\<rparr>)))
      else if is_pic_port port then
        (case pic_write (c_pic c) port sz v of Inl e \<Rightarrow> (Inl e, c) | Inr p \<Rightarrow> (Inr (), c\<lparr>c_pic := p\<rparr>))
      else if is_pit_port port then
        (case pit_write (c_pit c) port sz v of Inl e \<Rightarrow> (Inl e, c) | Inr p \<Rightarrow> (Inr (), c\<lparr>c_pit := p\<rparr>))
      else if port = 0x70 \<or> port = 0x71 then
        (case cmos_write (c_cmos c) port sz v of Inl e \<Rightarrow> (Inl e, c) | Inr p \<Rightarrow> (Inr (), c\<lparr>c_cmos := p\<rparr>))
      else if pm_handles port then (Inr (), c\<lparr>c_acpi_pm := pm_write (c_acpi_pm c) port sz v\<rparr>)
      else (case bus_write (env_ports env) (c_ports c) port sz v of Inl e \<Rightarrow> (Inl e, c)
            | Inr p \<Rightarrow> (Inr (), c\<lparr>c_ports := p\<rparr>)))"

definition io_write :: "('b, 'n, 's, 'i) cpu_env \<Rightarrow> u16 \<Rightarrow> u8 \<Rightarrow> u32 \<Rightarrow> (('b, 'n, 's, 'i, 'r) cpu, unit) cpu_op" where
  "io_write env port sz v c = dispatch_io_write env port sz v (record_io True port sz v c)"

end
