(* ===== verification/Cpu_Interrupts.thy ===== *)
theory Cpu_Interrupts
  imports Cpu_Core
begin

text \<open>
  Exception and interrupt delivery through the guest IDT (\<open>cpu/interrupts.rs\<close>): gate decoding, the
  stack switch through the TSS, the frame pushed on the handler's stack, fault nesting, and the order
  in which pending sources are served.
\<close>

definition VECTOR_DOUBLE_FAULT :: u8 where "VECTOR_DOUBLE_FAULT = 8"
definition VECTOR_PAGE_FAULT :: u8 where "VECTOR_PAGE_FAULT = 14"
definition TSS_RSP0 :: u64 where "TSS_RSP0 = 4"
definition TSS_IST1 :: u64 where "TSS_IST1 = 36"
definition FAULT_LOG_CAPACITY :: nat where "FAULT_LOG_CAPACITY = 64"

record gate =
  g_selector :: u16
  g_offset :: u64
  g_ist :: u8
  g_kind :: u8
  g_dpl :: u8
  g_present :: bool

definition clears_interrupt_flag :: "gate \<Rightarrow> bool" where
  "clears_interrupt_flag g \<longleftrightarrow> g_kind g AND 0xF \<noteq> 0xF"

definition gate_decode :: "bool \<Rightarrow> u64 \<Rightarrow> u64 \<Rightarrow> gate" where
  "gate_decode long_mode low high =
     (let attributes = drop_bit 40 low AND 0xFF;
          offset = (low AND 0xFFFF) OR (drop_bit 32 low AND 0xFFFF0000)
      in \<lparr>g_selector = ucast (drop_bit 16 low),
          g_offset = (if long_mode then offset OR push_bit 32 (high AND 0xFFFFFFFF) else offset),
          g_ist = (if long_mode then ucast (drop_bit 32 low AND 7) else 0),
          g_kind = ucast (attributes AND 0xF),
          g_dpl = ucast (drop_bit 5 attributes AND 3),
          g_present = (attributes AND 0x80 \<noteq> 0)\<rparr>)"

definition idt_gate :: "('b, 'n, 's, 'i) cpu_env \<Rightarrow> u8 \<Rightarrow> (('b, 'n, 's, 'i, 'r) cpu, gate) cpu_op" where
  "idt_gate env vector c =
     (let long_mode = (mode (c_regs c) = LongMode);
          entry_size = (if long_mode then 16 else 8) :: u32;
          required = ucast vector * entry_size + entry_size - 1
      in if r_idt_limit (c_regs c) < required
         then (Inl (GuestFault (''IDT limit '' @ show_radix 10 (unat (r_idt_limit (c_regs c)))
                 @ '' cannot reach vector '' @ show_radix 10 (unat vector))), c)
         else let address = r_idt_base (c_regs c) + ucast vector * ucast entry_size in
         bind_op (translate_privileged env address ReadAccess) (\<lambda>pa.
         bind_op (mem_read_op (\<lambda>m. read_u64 m pa)) (\<lambda>low.
         if long_mode
         then bind_op (translate_privileged env (address + 8) ReadAccess) (\<lambda>pa.
              bind_op (mem_read_op (\<lambda>m. read_u64 m pa)) (\<lambda>high. ret_op (gate_decode True low high)))
         else ret_op (gate_decode False low 0))) c)"

definition tss_field :: "('b, 'n, 's, 'i) cpu_env \<Rightarrow> u64 \<Rightarrow> (('b, 'n, 's, 'i, 'r) cpu, u64) cpu_op" where
  "tss_field env offset c =
     (if r_tr_base (c_regs c) = 0
      then (Inl (GuestFault ''interrupt needs a stack from the TSS, but no task register is loaded''), c)
      else bind_op (translate_privileged env (r_tr_base (c_regs c) + offset) ReadAccess)
             (\<lambda>pa. mem_read_op (\<lambda>m. read_u64 m pa)) c)"

definition use_handler_stack :: "u64 \<Rightarrow> registers \<Rightarrow> registers" where
  "use_handler_stack v r = (set_rsp (v AND NOT 0xF) r)\<lparr>r_ss := segment_default\<lparr>seg_selector := 0\<rparr>\<rparr>"

definition switch_to_gate_stack ::
  "('b, 'n, 's, 'i) cpu_env \<Rightarrow> gate \<Rightarrow> u8 \<Rightarrow> u8 \<Rightarrow> (('b, 'n, 's, 'i, 'r) cpu, unit) cpu_op" where
  "switch_to_gate_stack env g old_cpl new_cpl =
     (let install = (\<lambda>v c. (Inr (), map_regs (use_handler_stack v) c)) in
      if g_ist g \<noteq> 0 then bind_op (tss_field env (TSS_IST1 + ucast (g_ist g - 1) * 8)) install
      else if new_cpl < old_cpl then bind_op (tss_field env (TSS_RSP0 + ucast new_cpl * 8)) install
      else ret_op ())"

definition load_code_segment ::
  "('b, 'n, 's, 'i) cpu_env \<Rightarrow> u16 \<Rightarrow> (('b, 'n, 's, 'i, 'r) cpu, segment_register) cpu_op" where
  "load_code_segment env selector c =
     (case mode (c_regs c) of
        RealMode \<Rightarrow> (Inr (real_mode_segment selector), c)
      | Protected16 \<Rightarrow> (Inr (real_mode_segment selector), c)
      | _ \<Rightarrow> load_segment_from_table env selector c)"

definition record_fault :: "u8 \<Rightarrow> u16 \<Rightarrow> bool \<Rightarrow> ('b, 'n, 's, 'i, 'r) cpu \<Rightarrow> ('b, 'n, 's, 'i, 'r) cpu" where
  "record_fault vector error_code is_exception c =
     (let log = (if FAULT_LOG_CAPACITY \<le> length (c_fault_log c) then tl (c_fault_log c) else c_fault_log c)
      in c\<lparr>c_fault_log := log @ [\<lparr>fe_retired = r_instructions_retired (c_regs c), fe_vector = vector,
             fe_error_code = error_code, fe_rip = r_rip (c_regs c), fe_cr2 = r_cr2 (c_regs c),
             fe_is_exception = is_exception\<rparr>]\<rparr>)"

text \<open>The frame, in the order of the pushes; \<open>push_all\<close> stops at the first that fails.\<close>

fun push_all :: "('a \<Rightarrow> ('c, unit) cpu_op) \<Rightarrow> 'a list \<Rightarrow> ('c, unit) cpu_op" where
  "push_all push [] = ret_op ()"
| "push_all push (v # vs) = bind_op (push v) (\<lambda>_. push_all push vs)"

definition push_frame ::
  "('b, 'n, 's, 'i) cpu_env \<Rightarrow> cpu_mode \<Rightarrow> u16 \<Rightarrow> u64 \<Rightarrow> u64 \<Rightarrow> u16 \<Rightarrow> u64 \<Rightarrow> u16 \<Rightarrow> bool
    \<Rightarrow> (('b, 'n, 's, 'i, 'r) cpu, unit) cpu_op" where
  "push_frame env md ss old_rsp flags cs rip error_code has_error_code =
     (case md of
        LongMode \<Rightarrow> push_all (push64 env) ([ucast ss, old_rsp, flags, ucast cs, rip]
                      @ (if has_error_code then [ucast error_code] else []))
      | Protected32 \<Rightarrow> push_all (push32 env) ([ucast flags, ucast cs, ucast rip]
                      @ (if has_error_code then [ucast error_code] else []))
      | _ \<Rightarrow> push_all (push16 env) ([ucast flags, cs, ucast rip]
                      @ (if has_error_code then [error_code] else [])))"

definition gate_flags :: "gate \<Rightarrow> u64 \<Rightarrow> u64" where
  "gate_flags g flags =
     (let new_flags = flags AND NOT RFLAGS_TF AND NOT RFLAGS_NT AND NOT RFLAGS_RF
      in if clears_interrupt_flag g then new_flags AND NOT RFLAGS_IF else new_flags)"

definition enter_handler ::
  "gate \<Rightarrow> cpu_mode \<Rightarrow> u64 \<Rightarrow> u8 \<Rightarrow> u16 \<Rightarrow> bool \<Rightarrow> ('b, 'n, 's, 'i, 'r) cpu \<Rightarrow> ('b, 'n, 's, 'i, 'r) cpu" where
  "enter_handler g old_mode new_flags vector error_code is_exception c =
     (let c = (if is_exception
               then c\<lparr>c_exceptions_raised := saturating_add (c_exceptions_raised c) 1\<rparr>
               else c\<lparr>c_interrupts_delivered := saturating_add (c_interrupts_delivered c) 1\<rparr>);
          c = record_fault vector error_code is_exception c
      in map_regs (\<lambda>r. r\<lparr>r_rflags := new_flags,
           r_rip := (case old_mode of LongMode \<Rightarrow> g_offset g
                     | Protected32 \<Rightarrow> g_offset g AND 0xFFFFFFFF | _ \<Rightarrow> g_offset g AND 0xFFFF)\<rparr>) c)"

definition transfer_to_gate ::
  "('b, 'n, 's, 'i) cpu_env \<Rightarrow> gate \<Rightarrow> u8 \<Rightarrow> u16 \<Rightarrow> bool \<Rightarrow> bool \<Rightarrow> (('b, 'n, 's, 'i, 'r) cpu, unit) cpu_op" where
  "transfer_to_gate env g vector error_code has_error_code is_exception c =
     (if \<not> g_present g
      then (Inl (GuestFault (''IDT gate for vector 0x'' @ show_radix 16 (unat vector) @ '' (selector 0x''
              @ show_radix 16 (unat (g_selector g)) @ '') is not present; idt=0x''
              @ show_radix 16 (unat (r_idt_base (c_regs c))) @ ''/0x''
              @ show_radix 16 (unat (r_idt_limit (c_regs c))))), c)
      else let old = c_regs c; old_mode = mode old in
      bind_op (load_code_segment env (g_selector g)) (\<lambda>new_cs.
      let new_cpl = (if old_mode = RealMode then 0 else sel_rpl (seg_selector new_cs)) in
      bind_op (if old_mode = LongMode then switch_to_gate_stack env g (cpl old) new_cpl else ret_op ()) (\<lambda>_ c.
      bind_op (push_frame env old_mode (seg_selector (r_ss old)) (rsp old) (r_rflags old)
                 (seg_selector (r_cs old)) (r_rip old) error_code has_error_code)
        (\<lambda>_ c. (Inr (), enter_handler g old_mode (gate_flags g (r_rflags old)) vector error_code is_exception c))
        (map_regs (\<lambda>r. r\<lparr>r_cs := new_cs\<rparr>) c))) c)"

definition deliver_gate ::
  "('b, 'n, 's, 'i) cpu_env \<Rightarrow> u8 \<Rightarrow> u16 \<Rightarrow> bool \<Rightarrow> bool \<Rightarrow> (('b, 'n, 's, 'i, 'r) cpu, unit) cpu_op" where
  "deliver_gate env vector error_code has_error_code is_exception =
     bind_op (idt_gate env vector) (\<lambda>g. transfer_to_gate env g vector error_code has_error_code is_exception)"

definition raise_exception ::
  "('b, 'n, 's, 'i) cpu_env \<Rightarrow> u8 \<Rightarrow> u16 \<Rightarrow> bool \<Rightarrow> (('b, 'n, 's, 'i, 'r) cpu, unit) cpu_op" where
  "raise_exception env vector error_code has_error_code c =
     (let c = map_regs (\<lambda>r. r\<lparr>r_rip := c_instruction_start c\<rparr>) c in
      if c_in_exception c then
        if c_in_double_fault c then (Inl TripleFault, c)
        else (case deliver_gate env VECTOR_DOUBLE_FAULT 0 True True (c\<lparr>c_in_double_fault := True\<rparr>) of
                (r, c) \<Rightarrow> (r, c\<lparr>c_in_double_fault := False\<rparr>))
      else (case deliver_gate env vector error_code has_error_code True (c\<lparr>c_in_exception := True\<rparr>) of
              (r, c) \<Rightarrow> (r, c\<lparr>c_in_exception := False\<rparr>)))"

definition wake :: "(('b, 'n, 's, 'i, 'r) cpu, unit) cpu_op" where
  "wake c = (Inr (), c\<lparr>c_waiting_for_interrupt := False\<rparr>)"

definition next_lapic_vector :: "('b, 'n, 's, 'i, 'r) cpu \<Rightarrow> u8 option \<times> ('b, 'n, 's, 'i, 'r) cpu" where
  "next_lapic_vector c = (case lapic_pop_interrupt (c_memory c) of (v, m) \<Rightarrow> (v, c\<lparr>c_memory := m\<rparr>))"

definition deliver_pending :: "('b, 'n, 's, 'i) cpu_env \<Rightarrow> (('b, 'n, 's, 'i, 'r) cpu, unit) cpu_op" where
  "deliver_pending env c =
     (case c_pending_interrupts c of
        item # rest \<Rightarrow>
          bind_op (deliver_gate env (dv_vector item) (dv_error_code item) (dv_has_error_code item) True)
            (\<lambda>_. wake) (c\<lparr>c_pending_interrupts := rest\<rparr>)
      | [] \<Rightarrow>
          if \<not> contains (r_rflags (c_regs c)) RFLAGS_IF then (Inr (), c)
          else (case next_lapic_vector c of
              (Some vector, c) \<Rightarrow> bind_op (deliver_gate env vector 0 False False) (\<lambda>_. wake) c
            | (None, c) \<Rightarrow>
                (case pending_irq (c_pic c) of
                   Some irq \<Rightarrow>
                     (case acknowledge (c_pic c) irq of (vector, p) \<Rightarrow>
                        bind_op (deliver_gate env vector 0 False False) (\<lambda>_. wake) (c\<lparr>c_pic := p\<rparr>))
                 | None \<Rightarrow> (Inr (), c))))"

definition inject_interrupt ::
  "u8 \<Rightarrow> u16 \<Rightarrow> bool \<Rightarrow> ('b, 'n, 's, 'i, 'r) cpu \<Rightarrow> ('b, 'n, 's, 'i, 'r) cpu" where
  "inject_interrupt vector error_code has_error_code c =
     c\<lparr>c_pending_interrupts := c_pending_interrupts c @
        [\<lparr>dv_vector = vector, dv_error_code = error_code, dv_has_error_code = has_error_code\<rparr>]\<rparr>"

end
