(* ===== verification/Cpu_Step.thy ===== *)
theory Cpu_Step
  imports Cpu_Interrupts
begin

text \<open>
  Fetch, execution of one instruction with fault delivery and rollback, and the step loop
  (\<open>cpu/mod.rs\<close>). The semantics of the instructions themselves (\<open>Cpu::dispatch\<close> and \<open>ops/\<close>) is the
  parameter \<open>dispatch\<close>. \<open>execute_one\<close> loops until an instruction completes or an error escapes, and
  a guest can make that loop endless, so it is a partial function: \<open>None\<close> is not returning.
\<close>

section \<open>Fetch\<close>

definition decode_environment :: "registers \<Rightarrow> u32 \<times> u64" where
  "decode_environment r = (case mode r of
     RealMode \<Rightarrow> (16, r_rip r AND 0xFFFF) | Protected16 \<Rightarrow> (16, r_rip r AND 0xFFFF)
   | Protected32 \<Rightarrow> (32, r_rip r AND 0xFFFFFFFF) | LongMode \<Rightarrow> (64, r_rip r))"

definition decode_execution_context :: "registers \<Rightarrow> u32 \<Rightarrow> u32" where
  "decode_execution_context r bitness =
     (let context = bitness OR push_bit 8 (ucast (cpl r));
          context = (if contains (r_cr0 r) CR0_PG then context OR shl1 10 else context);
          context = (if contains (r_cr4 r) CR4_SMEP then context OR shl1 11 else context)
      in if contains (r_efer r) EFER_NXE then context OR shl1 12 else context)"

text \<open>
  The bytes of a window that starts at \<open>pa\<close>: what is left of the page in one read, then page by
  page with a translation each, as in \<open>read_linear_bytes\<close> but for execution.
\<close>

definition read_window ::
  "('b, 'n, 's, 'i) cpu_env \<Rightarrow> u64 \<Rightarrow> u64 \<Rightarrow> (('b, 'n, 's, 'i, 'r) cpu, bytes) cpu_op" where
  "read_window env linear pa =
     (let in_page = page_left pa in
      if MAX_INSTRUCTION_BYTES \<le> in_page then mem_read_op (\<lambda>m. mem_read m pa MAX_INSTRUCTION_BYTES)
      else bind_op (mem_read_op (\<lambda>m. mem_read m pa in_page)) (\<lambda>first.
           bind_op (read_linear_loop env ExecuteAccess linear MAX_INSTRUCTION_BYTES in_page) (\<lambda>rest.
           ret_op (first @ rest))))"

definition read_fetch_window ::
  "('b, 'n, 's, 'i) cpu_env \<Rightarrow> u64 \<Rightarrow> (('b, 'n, 's, 'i, 'r) cpu, bytes) cpu_op" where
  "read_fetch_window env instruction_pointer c =
     (let bitness = fst (decode_environment (c_regs c));
          ip = (if bitness = 16 then instruction_pointer AND 0xFFFF
                else if bitness = 32 then instruction_pointer AND 0xFFFFFFFF else instruction_pointer);
          linear = code_base (c_regs c) + ip
      in bind_op (translate env linear ExecuteAccess) (\<lambda>pa. read_window env linear pa) c)"

definition fetch_mapping :: "('b, 'n, 's, 'i, 'r) cpu \<Rightarrow> u64 \<Rightarrow> u64 \<Rightarrow> u32 \<Rightarrow> u64 \<Rightarrow> u64 \<Rightarrow> decode_mapping" where
  "fetch_mapping c ip linear execution_context epoch pa =
     \<lparr>mp_ip = ip, mp_linear = linear, mp_physical = pa,
      mp_page_generation = page_generation (c_memory c) pa, mp_translation_epoch = epoch,
      mp_execution_context = execution_context\<rparr>"

definition decode_fetched ::
  "('b, 'n, 's, 'i) cpu_env \<Rightarrow> u32 \<Rightarrow> u64 \<Rightarrow> bool \<Rightarrow> (('b, 'n, 's, 'i, 'r) cpu \<Rightarrow> decode_mapping) \<Rightarrow> bytes
    \<Rightarrow> (('b, 'n, 's, 'i, 'r) cpu, 'i) cpu_op" where
  "decode_fetched env bitness ip cacheable mapping window c =
     (let instruction = ic_decode (env_iced env) bitness window ip in
      if ic_is_invalid (env_iced env) instruction
      then (Inl (UnimplementedInstruction ''invalid'' (r_rip (c_regs c)) window), c)
      else (Inr instruction,
            if cacheable then c\<lparr>c_decoded := decode_insert (env_iced env) (mapping c) instruction (c_decoded c)\<rparr>
            else c))"

definition fetch_translated ::
  "('b, 'n, 's, 'i) cpu_env \<Rightarrow> u32 \<Rightarrow> u64 \<Rightarrow> u64 \<Rightarrow> u32 \<Rightarrow> u64 \<Rightarrow> u64 \<Rightarrow> (('b, 'n, 's, 'i, 'r) cpu, 'i) cpu_op" where
  "fetch_translated env bitness ip linear execution_context epoch pa c =
     (let cacheable = (MAX_INSTRUCTION_BYTES \<le> page_left pa
            \<and> unat pa \<le> length (mem_ram (c_memory c)) - MAX_INSTRUCTION_BYTES);
          mapping = (\<lambda>c. fetch_mapping c ip linear execution_context epoch pa);
          (cached, dc) = (if cacheable then decode_lookup (mapping c) (c_decoded c) else (None, c_decoded c));
          c = c\<lparr>c_decoded := dc\<rparr>
      in case cached of
           Some instruction \<Rightarrow> (Inr instruction, c)
         | None \<Rightarrow> bind_op (read_window env linear pa) (decode_fetched env bitness ip cacheable mapping) c)"

definition fetch :: "('b, 'n, 's, 'i) cpu_env \<Rightarrow> (('b, 'n, 's, 'i, 'r) cpu, 'i) cpu_op" where
  "fetch env c =
     (let (bitness, ip) = decode_environment (c_regs c);
          linear = code_base (c_regs c) + ip;
          epoch = tlb_epoch (c_tlb c);
          execution_context = decode_execution_context (c_regs c) bitness;
          (cached, dc) = (if env_tlb_disabled env then (None, c_decoded c)
             else lookup_mapped (c_memory c) ip linear epoch execution_context (c_decoded c));
          c = c\<lparr>c_decoded := dc\<rparr>
      in case cached of
           Some instruction \<Rightarrow> (Inr instruction, c)
         | None \<Rightarrow> bind_op (translate env linear ExecuteAccess)
                    (fetch_translated env bitness ip linear execution_context epoch) c)"

section \<open>Execution\<close>

definition fault_mnemonics :: "string list" where
  "fault_mnemonics = [''Push'', ''Lsl'', ''Pop'', ''Call'', ''Ret'', ''Retf'', ''Leave'', ''Enter'', ''Pushf'',
     ''Pushfd'', ''Pushfq'', ''Popf'', ''Popfd'', ''Popfq'', ''Pusha'', ''Pushad'', ''Popa'', ''Popad'',
     ''Iret'', ''Iretd'', ''Iretq'', ''Int'', ''Int3'', ''Int1'', ''Into'', ''Bound'', ''Xsave'', ''Xsave64'',
     ''Xsavec'', ''Xsavec64'', ''Xsaves'', ''Xsaves64'', ''Xrstor'', ''Xrstor64'', ''Xrstors'', ''Xrstors64'',
     ''Fxsave'', ''Fxsave64'', ''Fxrstor'', ''Fxrstor64'']"

definition may_fault :: "'i iced_ops \<Rightarrow> 'i \<Rightarrow> bool" where
  "may_fault ic ins \<longleftrightarrow>
     list_ex (\<lambda>k. k \<noteq> OpOther) (ic_op_kinds ic ins) \<or> ic_mnemonic ic ins \<in> set fault_mnemonics"

definition record_trace :: "bytes \<Rightarrow> ('b, 'n, 's, 'i, 'r) cpu \<Rightarrow> ('b, 'n, 's, 'i, 'r) cpu" where
  "record_trace bs c =
     (let head = bs @ [0];
          trace = (if c_trace_capacity c \<le> length (c_trace c) then tl (c_trace c) else c_trace c);
          g = r_gpr (c_regs c)
      in c\<lparr>c_trace := trace @ [(r_rip (c_regs c),
             map (\<lambda>i. g ! i) [0, 1, 2, 3, 6, 7, 5, 4, 8, 9, 10, 11, 12, 13, 14, 15], head)]\<rparr>)"

definition trace_instruction :: "('b, 'n, 's, 'i) cpu_env \<Rightarrow> (('b, 'n, 's, 'i, 'r) cpu, unit) cpu_op" where
  "trace_instruction env c =
     (if c_trace_capacity c \<noteq> 0
      then bind_op (read_fetch_window env (c_instruction_start c)) (\<lambda>bs c. (Inr (), record_trace bs c)) c
      else (Inr (), c))"

definition page_fault_in_guest ::
  "('b, 'n, 's, 'i) cpu_env \<Rightarrow> u64 \<Rightarrow> u16 \<Rightarrow> (('b, 'n, 's, 'i, 'r) cpu, unit) cpu_op" where
  "page_fault_in_guest env linear error_code c =
     raise_exception env VECTOR_PAGE_FAULT error_code True (map_regs (\<lambda>r. r\<lparr>r_cr2 := linear\<rparr>) c)"

text \<open>
  One round: \<open>Inl r\<close> leaves the loop with \<open>r\<close>, \<open>Inr ()\<close> retries after a page fault was delivered.
\<close>

definition roll_back ::
  "(u64 list \<times> u64) option \<Rightarrow> u64 \<Rightarrow> ('b, 'n, 's, 'i, 'r) cpu \<Rightarrow> ('b, 'n, 's, 'i, 'r) cpu" where
  "roll_back snapshot len =
     map_regs (\<lambda>r. let r = (case snapshot of Some (g, fl) \<Rightarrow> r\<lparr>r_gpr := g, r_rflags := fl\<rparr> | None \<Rightarrow> r)
                   in r\<lparr>r_rip := r_rip r - len\<rparr>)"

definition retry_after ::
  "(cpu_error + unit) \<times> ('b, 'n, 's, 'i, 'r) cpu \<Rightarrow> ((cpu_error + unit) + unit) \<times> ('b, 'n, 's, 'i, 'r) cpu" where
  "retry_after rc = (case rc of (Inl e, c) \<Rightarrow> (Inl (Inl e), c) | (Inr _, c) \<Rightarrow> (Inr (), c))"

definition run_decoded ::
  "('b, 'n, 's, 'i) cpu_env \<Rightarrow> ('i \<Rightarrow> (('b, 'n, 's, 'i, 'r) cpu, unit) cpu_op) \<Rightarrow> 'i \<Rightarrow> ('b, 'n, 's, 'i, 'r) cpu
    \<Rightarrow> ((cpu_error + unit) + unit) \<times> ('b, 'n, 's, 'i, 'r) cpu" where
  "run_decoded env dispatch ins c =
     (let len = of_nat (ic_len (env_iced env) ins);
          snapshot = (if may_fault (env_iced env) ins
                      then Some (r_gpr (c_regs c), r_rflags (c_regs c)) else None);
          c = map_regs (\<lambda>r. r\<lparr>r_rip := r_rip r + len\<rparr>) c
      in case dispatch ins c of
           (Inl (PageFaultError linear error_code), c) \<Rightarrow>
             retry_after (page_fault_in_guest env linear error_code (roll_back snapshot len c))
         | (Inl (UnimplementedInstruction code address _), c) \<Rightarrow>
             (case read_fetch_window env (c_instruction_start c) c of
                (Inr bs, c) \<Rightarrow> (Inl (Inl (UnimplementedInstruction code address bs)), c)
              | (Inl _, c) \<Rightarrow>
                  (Inl (Inl (UnimplementedInstruction code address (replicate MAX_INSTRUCTION_BYTES 0))), c))
         | (r, c) \<Rightarrow> (Inl r, c))"

definition execute_round ::
  "('b, 'n, 's, 'i) cpu_env \<Rightarrow> ('i \<Rightarrow> (('b, 'n, 's, 'i, 'r) cpu, unit) cpu_op) \<Rightarrow> ('b, 'n, 's, 'i, 'r) cpu
    \<Rightarrow> ((cpu_error + unit) + unit) \<times> ('b, 'n, 's, 'i, 'r) cpu" where
  "execute_round env dispatch c =
     (case fetch env (c\<lparr>c_instruction_start := r_rip (c_regs c)\<rparr>) of
        (Inl (PageFaultError linear error_code), c) \<Rightarrow>
          retry_after (page_fault_in_guest env linear error_code c)
      | (Inl e, c) \<Rightarrow> (Inl (Inl e), c)
      | (Inr ins, c) \<Rightarrow>
          (case trace_instruction env c of
             (Inl e, c) \<Rightarrow> (Inl (Inl e), c)
           | (Inr _, c) \<Rightarrow> run_decoded env dispatch ins c))"

partial_function (option) execute_one ::
  "('b, 'n, 's, 'i) cpu_env \<Rightarrow> ('i \<Rightarrow> (('b, 'n, 's, 'i, 'r) cpu, unit) cpu_op) \<Rightarrow> ('b, 'n, 's, 'i, 'r) cpu
    \<Rightarrow> ((cpu_error + unit) \<times> ('b, 'n, 's, 'i, 'r) cpu) option" where
  "execute_one env dispatch c =
     (case execute_round env dispatch c of
        (Inl r, c) \<Rightarrow> Some (r, c)
      | (Inr _, c) \<Rightarrow> execute_one env dispatch c)"

section \<open>The step loop\<close>

definition retire :: "('b, 'n, 's, 'i) cpu_env \<Rightarrow> nat \<Rightarrow> ('b, 'n, 's, 'i, 'r) cpu \<Rightarrow> ('b, 'n, 's, 'i, 'r) cpu" where
  "retire env now c =
     (let c = map_regs (\<lambda>r. r\<lparr>r_instructions_retired := saturating_add (r_instructions_retired r) 1\<rparr>) c;
          c = c\<lparr>c_tsc := saturating_add (c_tsc c) 1, c_device_countdown := c_device_countdown c - 1\<rparr>
      in if c_device_countdown c = 0
         then service_devices env now DEVICE_TICK_INTERVAL (c\<lparr>c_device_countdown := DEVICE_TICK_INTERVAL\<rparr>)
         else c)"

definition step ::
  "('b, 'n, 's, 'i) cpu_env \<Rightarrow> ('i \<Rightarrow> (('b, 'n, 's, 'i, 'r) cpu, unit) cpu_op) \<Rightarrow> nat \<Rightarrow> ('b, 'n, 's, 'i, 'r) cpu
    \<Rightarrow> ((cpu_error + unit) \<times> ('b, 'n, 's, 'i, 'r) cpu) option" where
  "step env dispatch now c =
     (if c_halted c then Some (Inl Halted, c)
      else case (if c_interrupt_shadow c then (Inr (), c\<lparr>c_interrupt_shadow := False\<rparr>)
                 else deliver_pending env c) of
        (Inl e, c) \<Rightarrow> Some (Inl e, c)
      | (Inr _, c) \<Rightarrow>
          if c_waiting_for_interrupt c
          then Some (Inr (), service_devices env now DEVICE_TICK_INTERVAL
                 (c\<lparr>c_tsc := saturating_add (c_tsc c) (ucast DEVICE_TICK_INTERVAL)\<rparr>))
          else (case execute_one env dispatch c of
                  None \<Rightarrow> None
                | Some (Inl e, c) \<Rightarrow> Some (Inl e, c)
                | Some (Inr _, c) \<Rightarrow> Some (Inr (), retire env now c)))"

text \<open>\<open>clock i\<close> is the host clock at the step with index \<open>i\<close>.\<close>

primrec run_from ::
  "('b, 'n, 's, 'i) cpu_env \<Rightarrow> ('i \<Rightarrow> (('b, 'n, 's, 'i, 'r) cpu, unit) cpu_op) \<Rightarrow> (nat \<Rightarrow> nat) \<Rightarrow> nat \<Rightarrow> nat
    \<Rightarrow> ('b, 'n, 's, 'i, 'r) cpu \<Rightarrow> ((cpu_error + nat) \<times> ('b, 'n, 's, 'i, 'r) cpu) option" where
  "run_from env dispatch clock executed 0 c = Some (Inr executed, c)"
| "run_from env dispatch clock executed (Suc n) c =
     (if c_halted c then Some (Inr executed, c)
      else case step env dispatch (clock executed) c of
        None \<Rightarrow> None
      | Some (Inl e, c) \<Rightarrow> Some (Inl e, c)
      | Some (Inr _, c) \<Rightarrow> run_from env dispatch clock (Suc executed) n c)"

definition run_instructions ::
  "('b, 'n, 's, 'i) cpu_env \<Rightarrow> ('i \<Rightarrow> (('b, 'n, 's, 'i, 'r) cpu, unit) cpu_op) \<Rightarrow> (nat \<Rightarrow> nat) \<Rightarrow> nat
    \<Rightarrow> ('b, 'n, 's, 'i, 'r) cpu \<Rightarrow> ((cpu_error + nat) \<times> ('b, 'n, 's, 'i, 'r) cpu) option" where
  "run_instructions env dispatch clock limit = run_from env dispatch clock 0 limit"

end
