(* ===== verification/Translation_Correct.thy ===== *)
theory Translation_Correct
  imports Cpu_Core
begin

text \<open>
  Correctness of address translation: the TLB in front of the table walk changes no result, the
  permissions of a translation are those of every level of the walk, and page-wise linear reads are
  byte-wise reads. The reference is \<open>direct_translate\<close>, which walks the tables on every access.
\<close>

section \<open>The reference translation\<close>

definition cpu_walk :: "('b, 'n, 's, 'i, 'r) cpu \<Rightarrow> u64 \<Rightarrow> page_fault + translation" where
  "cpu_walk c l = walk (c_memory c) (r_cr3 (c_regs c)) (r_cr4 (c_regs c)) (r_efer (c_regs c)) l"

definition cpu_check :: "('b, 'n, 's, 'i, 'r) cpu \<Rightarrow> translation \<Rightarrow> u64 \<Rightarrow> access_kind \<Rightarrow> u8 \<Rightarrow> page_fault + unit" where
  "cpu_check c t l kind ring = check_access t l kind ring (r_cr0 (c_regs c)) (r_cr4 (c_regs c))
     (r_efer (c_regs c)) (contains (r_rflags (c_regs c)) RFLAGS_AC)"

definition direct_translate :: "('b, 'n, 's, 'i, 'r) cpu \<Rightarrow> u64 \<Rightarrow> access_kind \<Rightarrow> u8 \<Rightarrow> cpu_error + u64" where
  "direct_translate c l kind ring =
     (if \<not> contains (r_cr0 (c_regs c)) CR0_PG then Inr l
      else case cpu_walk c l of
        Inl f \<Rightarrow> Inl (page_fault_error (with_access_bits f kind ring))
      | Inr t \<Rightarrow> (case cpu_check c t l kind ring of
          Inl f \<Rightarrow> Inl (page_fault_error f) | Inr _ \<Rightarrow> Inr (physical t l)))"

definition tlb_ok :: "('b, 'n, 's, 'i, 'r) cpu \<Rightarrow> bool" where
  "tlb_ok c \<longleftrightarrow> tlb_coherent (cpu_walk c) (c_tlb c)"

definition same_but_tlb :: "('b, 'n, 's, 'i, 'r) cpu \<Rightarrow> ('b, 'n, 's, 'i, 'r) cpu \<Rightarrow> bool" where
  "same_but_tlb c c' \<longleftrightarrow> c' = c\<lparr>c_tlb := c_tlb c'\<rparr>"

lemma same_but_tlb_refl [simp]: "same_but_tlb c c"
  by (simp add: same_but_tlb_def)

lemma same_but_tlb_update [simp]: "same_but_tlb c (c\<lparr>c_tlb := t\<rparr>)"
  by (simp add: same_but_tlb_def)

lemma same_but_tlbE:
  assumes "same_but_tlb c c'"
  obtains t where "c' = c\<lparr>c_tlb := t\<rparr>"
  using assms unfolding same_but_tlb_def by blast

lemma same_but_tlb_trans: "same_but_tlb c c' \<Longrightarrow> same_but_tlb c' c'' \<Longrightarrow> same_but_tlb c c''"
  by (auto elim!: same_but_tlbE)

lemma same_but_tlb_fields:
  assumes "same_but_tlb c c'"
  shows "c_regs c' = c_regs c" "c_memory c' = c_memory c" "cpu_walk c' = cpu_walk c"
    "direct_translate c' = direct_translate c" "c_decoded c' = c_decoded c"
  using assms
  by (auto elim!: same_but_tlbE simp: cpu_walk_def direct_translate_def cpu_check_def fun_eq_iff split: sum.splits)

lemma cpu_walk_page:
  assumes "cpu_walk c l = Inr t" "drop_bit 12 l' = drop_bit 12 l"
  shows "cpu_walk c l' = Inr t"
  using assms(1) walk_retarget [OF assms(2) [symmetric], of "c_memory c"] by (simp add: cpu_walk_def)

section \<open>The TLB is transparent\<close>

lemma translate_as_direct:
  assumes "tlb_ok c" "translate_as env l kind ring c = (r, c')"
  shows "r = direct_translate c l kind ring" "same_but_tlb c c'" "tlb_ok c'"
proof -
  have co: "tlb_coherent (cpu_walk c) (c_tlb c)" using assms(1) by (simp add: tlb_ok_def)
  obtain cached t where look: "(if env_tlb_disabled env then (None, c_tlb c) else tlb_lookup (c_tlb c) l) = (cached, t)"
    by fastforce
  then have t: "tlb_coherent (cpu_walk c) t"
    using co tlb_coherent_lookup [OF co, of l] by (auto split: if_splits)
  have hit: "cpu_walk c l = Inr tr" if "cached = Some tr" for tr
    using look that co tlb_lookup_map(1) [of "c_tlb c" l] by (auto simp: tlb_coherent_def split: if_splits)
  have ins: "tlb_coherent (cpu_walk c) (tlb_insert l tr t)" if "cpu_walk c l = Inr tr" for tr
    using tlb_coherent_insert [OF t that] cpu_walk_page [OF that] by blast
  have inval: "tlb_coherent (cpu_walk c) (tlb_invalidate l u)" if "tlb_coherent (cpu_walk c) u" for u
    using tlb_coherent_invalidate [OF that] .
  have wk: "cpu_walk (c\<lparr>c_tlb := u\<rparr>) = cpu_walk c" for u by (simp add: cpu_walk_def fun_eq_iff)
  note unf = translate_as_def Let_def look prod.case cpu_walk_def [symmetric] cpu_check_def [symmetric]
  have "r = direct_translate c l kind ring \<and> same_but_tlb c c' \<and> tlb_ok c'"
  proof (cases "contains (r_cr0 (c_regs c)) CR0_PG")
    case False
    with assms show ?thesis by (simp add: unf direct_translate_def)
  next
    case pg: True
    have step: ?thesis if "cpu_walk c l = Inr tr" "tlb_coherent (cpu_walk c) u"
      "(r, c') = (case cpu_check c tr l kind ring of
         Inl fault \<Rightarrow> (Inl (page_fault_error fault), c\<lparr>c_tlb := tlb_invalidate l u\<rparr>)
       | Inr _ \<Rightarrow> (Inr (physical tr l), c\<lparr>c_tlb := u\<rparr>))" for tr u
      using that pg inval [OF that(2)]
      by (cases "cpu_check c tr l kind ring") (simp_all add: direct_translate_def tlb_ok_def wk)
    show ?thesis
    proof (cases cached)
      case (Some tr)
      show ?thesis by (rule step [OF hit [OF Some] t]) (use assms(2) pg Some in \<open>simp add: unf\<close>)
    next
      case None
      show ?thesis
      proof (cases "cpu_walk c l")
        case (Inl f)
        with assms(2) pg None t show ?thesis by (auto simp: unf direct_translate_def tlb_ok_def wk)
      next
        case (Inr tr)
        show ?thesis by (rule step [OF Inr ins [OF Inr]]) (use assms(2) pg None Inr in \<open>simp add: unf\<close>)
      qed
    qed
  qed
  then show "r = direct_translate c l kind ring" "same_but_tlb c c'" "tlb_ok c'" by blast+
qed

lemmas translate_direct = translate_as_direct [where ring = "cpl (c_regs c)" and c = c for c, folded translate_def]

lemma tlb_ok_new: "cpu_new ic mib secs cap rest = Inr c \<Longrightarrow> tlb_ok c"
  by (auto simp: cpu_new_def bind_res_eq_Inr tlb_ok_def intro: wf_intros)

lemma tlb_ok_flush: "tlb_wf (c_tlb c) \<Longrightarrow> tlb_ok (flush_tlb c)"
  by (simp add: tlb_ok_def flush_tlb_def tlb_coherent_flush)

section \<open>Linear reads, page by page and byte by byte\<close>

function direct_read ::
  "(u64 \<Rightarrow> cpu_error + u64) \<Rightarrow> ('b, 'n) memory \<Rightarrow> u64 \<Rightarrow> nat \<Rightarrow> nat \<Rightarrow> cpu_error + bytes" where
  "direct_read tr m linear n d =
     (if d < n then
        bind_res (tr (linear + of_nat d)) (\<lambda>pa.
        let k = min (page_left pa) (n - d) in
        bind_res (mem_read m pa k) (\<lambda>bs.
        bind_res (direct_read tr m linear n (d + k)) (\<lambda>rest. Inr (bs @ rest))))
      else Inr [])"
  by pat_completeness auto
termination
  by (relation "measure (\<lambda>(_, _, _, n, d). n - d)") (auto simp: chunk_progress)

declare direct_read.simps [simp del]

lemma read_linear_loop_direct:
  assumes "tlb_ok c" "read_linear_loop env kind linear n d c = (r, c')"
  shows "r = direct_read (\<lambda>l. direct_translate c l kind (cpl (c_regs c))) (c_memory c) linear n d
    \<and> same_but_tlb c c' \<and> tlb_ok c'"
  using assms
proof (induction env kind linear n d c arbitrary: r c' rule: read_linear_loop.induct)
  case (1 env kind linear n d c)
  show ?case
  proof (cases "d < n")
    case False
    with "1.prems" show ?thesis by (simp add: read_linear_loop.simps [of env kind] direct_read.simps)
  next
    case d: True
    obtain r1 c1 where t: "translate env (linear + of_nat d) kind c = (r1, c1)" by fastforce
    note t1 = translate_direct [OF "1.prems"(1) t]
    note same = same_but_tlb_fields [OF t1(2)] and dt = t1(1) [symmetric]
    show ?thesis
    proof (cases r1)
      case (Inl e)
      with d t dt t1(2,3) "1.prems" show ?thesis
        by (auto simp: read_linear_loop.simps [of env kind] direct_read.simps [of _ _ linear n d])
    next
      case (Inr pa)
      let ?k = "min (page_left pa) (n - d)"
      show ?thesis
      proof (cases "mem_read (c_memory c) pa ?k")
        case (Inl e)
        then have "r = Inl e" "c' = c1"
          using "1.prems"(2) d t Inr same by (simp_all add: read_linear_loop.simps [of env kind linear n d] Let_def)
        with d dt t1(2,3) Inr Inl show ?thesis by (simp add: direct_read.simps [of _ _ linear n d] Let_def)
      next
        case bs: (Inr bs)
        obtain r2 c2 where rec: "read_linear_loop env kind linear n (d + ?k) c1 = (r2, c2)" by fastforce
        have "r2 = direct_read (\<lambda>l. direct_translate c1 l kind (cpl (c_regs c1))) (c_memory c1) linear n (d + ?k)
            \<and> same_but_tlb c1 c2 \<and> tlb_ok c2"
          by (rule "1.IH" [OF d, of r1 c1 pa "?k" bs])
            (use t Inr bs rec t1(3) same in auto)
        then have ih: "direct_read (\<lambda>l. direct_translate c l kind (cpl (c_regs c))) (c_memory c) linear n (d + ?k) = r2"
          "same_but_tlb c c2" "tlb_ok c2"
          using same same_but_tlb_trans [OF t1(2), of c2] by simp_all
        have "r = bind_res r2 (\<lambda>rest. Inr (bs @ rest))" "c' = c2"
          using "1.prems"(2) d t Inr bs rec same
          by (auto simp: read_linear_loop.simps [of env kind linear n d] Let_def split: sum.splits)
        with d dt Inr bs ih show ?thesis by (simp add: direct_read.simps [of _ _ linear n d] Let_def)
      qed
    qed
  qed
qed

lemma page_left_mod: "page_left pa = 4096 - unat pa mod 4096"
proof -
  have "pa AND 0xFFF = take_bit 12 pa" by (simp add: take_bit_eq_mask mask_eq_exp_minus_1)
  then show ?thesis by (simp add: page_left_def take_bit_eq_mod unat_mod)
qed

definition page_local :: "(u64 \<Rightarrow> cpu_error + u64) \<Rightarrow> bool" where
  "page_local tr \<longleftrightarrow> (\<forall>l pa j. tr l = Inr pa \<and> unat l mod 4096 + j < 4096 \<longrightarrow>
     tr (l + of_nat j) = Inr (pa + of_nat j) \<and> unat pa mod 4096 = unat l mod 4096)"

lemma check_access_linear:
  "check_access t l kind ring cr0 cr4 efer ac = Inr () \<Longrightarrow> check_access t l' kind ring cr0 cr4 efer ac = Inr ()"
  by (auto simp: check_access_def Let_def split: if_splits)

lemma direct_translate_page_local: "page_local (\<lambda>l. direct_translate c l kind ring)"
  unfolding page_local_def
proof (intro allI impI, elim conjE)
  fix l pa j
  assume tr: "direct_translate c l kind ring = Inr pa" and j: "unat l mod 4096 + j < 4096"
  note page = same_page_add(2) [OF j]
  show "direct_translate c (l + of_nat j) kind ring = Inr (pa + of_nat j) \<and> unat pa mod 4096 = unat l mod 4096"
  proof (cases "contains (r_cr0 (c_regs c)) CR0_PG")
    case False
    with tr show ?thesis by (simp add: direct_translate_def)
  next
    case True
    with tr obtain t where t: "cpu_walk c l = Inr t" "cpu_check c t l kind ring = Inr ()" "pa = physical t l"
      by (auto simp: direct_translate_def split: sum.splits)
    obtain k where k: "page_shape t k" using walk_shape t(1) unfolding cpu_walk_def by blast
    have "cpu_check c t (l + of_nat j) kind ring = Inr ()"
      using t(2) check_access_linear unfolding cpu_check_def by blast
    then show ?thesis
      using True t cpu_walk_page [OF t(1) page] physical_add [OF k j] by (simp add: direct_translate_def)
  qed
qed

lemma page_left_le: "page_left pa \<le> 4096"
  by (simp add: page_left_def)

lemma page_localD:
  assumes "page_local tr" "tr l = Inr pa" "j < page_left pa"
  shows "tr (l + of_nat j) = Inr (pa + of_nat j)" "unat (pa + of_nat j) = unat pa + j"
proof -
  have "unat pa mod 4096 = unat l mod 4096"
    using assms(1) [unfolded page_local_def, rule_format, of l pa 0] assms(2) by simp
  moreover from this have j: "unat pa mod 4096 + j < 4096" using assms(3) by (simp add: page_left_mod)
  ultimately have "unat l mod 4096 + j < 4096" by simp
  with assms(1,2) show "tr (l + of_nat j) = Inr (pa + of_nat j)" unfolding page_local_def by blast
  show "unat (pa + of_nat j) = unat pa + j" by (rule same_page_add(1) [OF j])
qed

definition byte_ok :: "(u64 \<Rightarrow> cpu_error + u64) \<Rightarrow> ('b, 'n) memory \<Rightarrow> u64 \<Rightarrow> bool" where
  "byte_ok tr m l \<longleftrightarrow> (\<exists>pa. tr l = Inr pa \<and> unat pa < length (mem_ram m))"

definition byte_at :: "(u64 \<Rightarrow> cpu_error + u64) \<Rightarrow> ('b, 'n) memory \<Rightarrow> u64 \<Rightarrow> u8" where
  "byte_at tr m l = (case tr l of Inr pa \<Rightarrow> mem_ram m ! unat pa | Inl _ \<Rightarrow> 0)"

text \<open>The bytes of one chunk, when every one of them is mapped into RAM.\<close>

lemma chunk_read:
  assumes tr: "page_local tr" "tr (linear + of_nat d) = Inr pa" and wf: "mem_wf m"
    and k: "0 < k" "k \<le> page_left pa" and ok: "\<forall>i \<in> {d..<d + k}. byte_ok tr m (linear + of_nat i)"
  shows "mem_read m pa k = Inr (map (\<lambda>i. byte_at tr m (linear + of_nat i)) [d..<d + k])"
proof -
  have at: "tr (linear + of_nat (d + j)) = Inr (pa + of_nat j)" "unat (pa + of_nat j) = unat pa + j" if "j < k" for j
    using page_localD [OF tr, of j] that k by (simp_all add: add.assoc)
  have "d + (k - 1) \<in> {d..<d + k}" using k by simp
  then have "byte_ok tr m (linear + of_nat (d + (k - 1)))" using ok by blast
  then have "unat pa + k \<le> length (mem_ram m)" using at [of "k - 1"] k by (auto simp: byte_ok_def)
  then have "mem_read m pa k = Inr (slice (unat pa) k (mem_ram m))" "length (slice (unat pa) k (mem_ram m)) = k"
    using mem_read_ram [OF wf k(1)] by simp_all
  moreover have "slice (unat pa) k (mem_ram m) = map (\<lambda>i. byte_at tr m (linear + of_nat i)) [d..<d + k]"
    using \<open>unat pa + k \<le> length (mem_ram m)\<close>
    by (intro nth_equalityI) (simp_all add: nth_slice byte_at_def at del: of_nat_add)
  ultimately show ?thesis by simp
qed

lemma direct_read_bytes:
  assumes "page_local tr" "mem_wf m" "\<forall>i \<in> {d..<n}. byte_ok tr m (linear + of_nat i)"
  shows "direct_read tr m linear n d = Inr (map (\<lambda>i. byte_at tr m (linear + of_nat i)) [d..<n])"
  using assms(3)
proof (induction "n - d" arbitrary: d rule: less_induct)
  case less
  show ?case
  proof (cases "d < n")
    case True
    then have "d \<in> {d..<n}" by simp
    with less.prems obtain pa where pa: "tr (linear + of_nat d) = Inr pa" unfolding byte_ok_def by blast
    define k where "k = min (page_left pa) (n - d)"
    have k: "0 < k" "k \<le> page_left pa" "d + k \<le> n" using True page_left_pos [of pa] by (auto simp: k_def)
    have "[d..<n] = [d..<d + k] @ [d + k..<n]" using upt_add_eq_append [of d "d + k" "n - (d + k)"] k by simp
    moreover have "mem_read m pa k = Inr (map (\<lambda>i. byte_at tr m (linear + of_nat i)) [d..<d + k])"
      by (rule chunk_read [OF assms(1) pa assms(2) k(1,2)]) (use less.prems k(3) in auto)
    moreover have "direct_read tr m linear n (d + k) = Inr (map (\<lambda>i. byte_at tr m (linear + of_nat i)) [d + k..<n])"
      using less.hyps [of "d + k"] less.prems k True by simp
    ultimately show ?thesis
      using True pa by (simp add: direct_read.simps [of tr m linear n d] Let_def k_def [symmetric])
  qed (simp add: direct_read.simps)
qed

lemma direct_read_fault:
  assumes "page_local tr" "mem_wf m" "\<forall>i \<in> {d..<b}. byte_ok tr m (linear + of_nat i)"
    "d \<le> b" "b < n" "tr (linear + of_nat b) = Inl e"
  shows "direct_read tr m linear n d = Inl e"
  using assms(3,4)
proof (induction "n - d" arbitrary: d rule: less_induct)
  case less
  show ?case
  proof (cases "d = b")
    case True
    with assms(5,6) show ?thesis by (simp add: direct_read.simps [of tr m linear n b])
  next
    case False
    with less.prems have db: "d < b" by simp
    then have "d \<in> {d..<b}" by simp
    with less.prems(1) obtain pa where pa: "tr (linear + of_nat d) = Inr pa" unfolding byte_ok_def by blast
    have "\<not> b - d < page_left pa"
    proof
      assume "b - d < page_left pa"
      from page_localD(1) [OF assms(1) pa this] db assms(6) show False by (simp add: add.assoc of_nat_diff)
    qed
    define k where "k = min (page_left pa) (n - d)"
    have k: "0 < k" "k \<le> page_left pa" "d + k \<le> b" "k = page_left pa"
      using db assms(5) page_left_pos [of pa] \<open>\<not> b - d < page_left pa\<close> by (auto simp: k_def min_def)
    have "mem_read m pa k = Inr (map (\<lambda>i. byte_at tr m (linear + of_nat i)) [d..<d + k])"
      by (rule chunk_read [OF assms(1) pa assms(2) k(1,2)]) (use less.prems k(3) in auto)
    moreover have "direct_read tr m linear n (d + k) = Inl e"
      using less.hyps [of "d + k"] less.prems k db assms(5) by simp
    ultimately show ?thesis
      using db assms(5) pa by (simp add: direct_read.simps [of tr m linear n d] Let_def k_def [symmetric])
  qed
qed

section \<open>A small machine\<close>

text \<open>
  One page of RAM whose first entry maps page zero onto itself at every level, so the page serves as
  all four tables and as the mapped frame; every other page is not present.
\<close>

definition tiny_ram :: bytes where
  "tiny_ram = to_le 8 (7 :: u64) @ replicate 4088 0"

definition tiny_mem :: "(vec_block_backend, bytes list) memory" where
  "tiny_mem = \<lparr>mem_ram = tiny_ram, mem_lapic = None, mem_ioapic = io_apic_new, mem_virtio_blk = None,
     mem_virtio_blk2 = None, mem_virtio_net = None, mem_generation = 0, mem_code_gen = [0]\<rparr>"

definition tiny_regs :: registers where
  "tiny_regs = registers_default\<lparr>r_cr0 := CR0_PG OR CR0_PE, r_efer := EFER_LMA, r_gpr := (replicate 16 0)[RSP := 0x800],
     r_cs := segment_default\<lparr>seg_selector := 0x33, seg_code := True, seg_long_mode := True\<rparr>\<rparr>"

definition tiny_iced :: "bytes iced_ops" where
  "tiny_iced = \<lparr>ic_default = [], ic_decode = (\<lambda>_ bs _. take 1 bs), ic_len = length, ic_is_invalid = (\<lambda>_. False),
     ic_op_kinds = (\<lambda>_. []), ic_mnemonic = (\<lambda>_. ''Nop''), ic_segment_prefix = (\<lambda>_. OtherRegister),
     ic_is_ip_rel = (\<lambda>_. False), ic_ip_rel_address = (\<lambda>_. 0), ic_memory_base = (\<lambda>_. 0),
     ic_memory_index = (\<lambda>_. 0), ic_memory_scale = (\<lambda>_. 1), ic_displacement = (\<lambda>_. 0)\<rparr>"

definition tiny_cpu :: "(vec_block_backend, bytes list, unit, bytes, unit) cpu" where
  "tiny_cpu = \<lparr>c_regs = tiny_regs, c_memory = tiny_mem, c_ports = bus_default, c_pic = pic8259_new,
     c_pit = pit_new, c_cmos = cmos_new 0, c_acpi_pm = acpi_pm_new, c_uart_console = uart_new 0x3F8 4096 65536,
     c_uart_control = uart_new 0x2F8 65536 65536, c_lines = \<lparr>asserted = 0\<rparr>, c_tsc = 0, c_halted = False,
     c_trace = [], c_trace_capacity = 0, c_io_log = [], c_io_log_capacity = 0, c_interrupts_delivered = 0,
     c_exceptions_raised = 0, c_fault_log = [], c_pending_interrupts = [], c_in_exception = False,
     c_in_double_fault = False, c_tlb = tlb_new, c_decoded = decode_cache_new tiny_iced,
     c_device_countdown = DEVICE_TICK_INTERVAL, c_waiting_for_interrupt = False, c_interrupt_shadow = False,
     c_instruction_start = 0, c_rest = ()\<rparr>"

lemma tiny_cpu_fields [simp]:
  "c_regs tiny_cpu = tiny_regs" "c_memory tiny_cpu = tiny_mem" "c_tlb tiny_cpu = tlb_new"
  "mem_ram tiny_mem = tiny_ram" "length tiny_ram = 4096" "c_decoded tiny_cpu = decode_cache_new tiny_iced"
  by (simp_all add: tiny_cpu_def tiny_mem_def tiny_ram_def)

lemma tiny_mem_wf: "mem_wf tiny_mem"
  by (simp add: mem_wf_def) (simp add: tiny_mem_def PAGE_SIZE_def)

lemma tiny_tlb_ok: "tlb_ok tiny_cpu"
  by (simp add: tlb_ok_def tlb_coherent_new)

lemma tiny_regs_facts [simp]:
  "contains (r_cr0 tiny_regs) CR0_PG" "contains (r_efer tiny_regs) EFER_LMA" "r_cr3 tiny_regs = 0"
  "r_cr4 tiny_regs = 0" "\<not> contains (r_efer tiny_regs) EFER_NXE" "\<not> contains (r_cr0 tiny_regs) CR0_WP"
  "cpl tiny_regs = 3" "mode tiny_regs = LongMode" "r_rip tiny_regs = 0"
  by (simp_all add: tiny_regs_def registers_default_def flag_defs contains_def cpl_def mode_def sel_rpl_def
      shl1_def push_bit_eq_mult)

lemma tiny_entry: "read_entry tiny_mem 0 l 0 = Inr 7"
proof -
  have "mem_read tiny_mem 0 8 = Inr (to_le 8 (7 :: u64))"
    using mem_read_ram [OF tiny_mem_wf, of 8 0] by (simp add: slice_def tiny_ram_def)
  then have "read_u64 tiny_mem 0 = Inr 7" by (simp add: read_u64_def read_u64_at_def)
  moreover have "(7 :: u64) AND PAGE_PRESENT \<noteq> 0" by (simp add: PAGE_PRESENT_def)
  ultimately show ?thesis by (simp add: read_entry_def validate_entry_def)
qed

lemma tiny_path:
  assumes "drop_bit 12 l = 0"
  shows "radix_path (\<lambda>a. read_entry tiny_mem a l 0) l 0 (long_levels False) = Inr (12, [7, 7, 7, 7])"
proof -
  have "drop_bit k l = 0" if "12 \<le> k" for k using drop_bit_page [of l 0 k] assms that by simp
  moreover have "(7 :: u64) AND TABLE_MASK = 0" by (simp add: TABLE_MASK_def)
  moreover have "\<not> bit (7 :: u64) 7" by (simp add: bit_iff_odd)
  ultimately show ?thesis by (simp add: long_levels_def tiny_entry)
qed

lemma not_la57 [simp]: "\<not> contains 0 CR4_LA57"
  by (simp add: contains_def CR4_LA57_def shl1_def push_bit_eq_mult)

lemma tiny_translate:
  assumes "drop_bit 12 l = 0"
  shows "direct_translate tiny_cpu l kind 3 = Inr l"
proof -
  have w: "cpu_walk tiny_cpu l = Inr (path_translation (12, [7, 7, 7, 7]))"
    using tiny_path [OF assms] by (simp add: cpu_walk_def walk_long)
  have b: "bit (7 :: u64) 1" "bit (7 :: u64) 2" "\<not> bit (7 :: u64) 63" by (simp_all add: bit_iff_odd)
  have "l = take_bit 12 l"
    using assms bits_ident [of 12 l] by simp
  then have "l AND 0xFFF = l" by (simp add: take_bit_eq_mask mask_eq_exp_minus_1)
  with w b show ?thesis
    by (cases kind) (simp_all add: direct_translate_def cpu_check_def check_access_def path_translation_def
        physical_def TABLE_MASK_def shl1_def push_bit_eq_mult)
qed

lemma tiny_fault: "direct_translate tiny_cpu 0x1000 ReadAccess 3 = Inl (PageFaultError 0x1000 4)"
proof -
  have "mem_read tiny_mem 8 8 = Inr (replicate 8 0)"
    using mem_read_ram [OF tiny_mem_wf, of 8 8] by (simp add: slice_def tiny_ram_def)
  then have "read_entry tiny_mem 8 l 0 = Inl \<lparr>pf_linear = l, pf_error_code = 0\<rparr>" for l
    by (simp add: read_entry_def read_u64_def read_u64_at_def from_le_zeros [of "[]" 8, simplified] numeral_eq_Suc validate_entry_def)
  moreover have "(7 :: u64) AND TABLE_MASK = 0" "\<not> bit (7 :: u64) 7" by (simp_all add: TABLE_MASK_def bit_iff_odd)
  ultimately have "cpu_walk tiny_cpu 0x1000 = Inl \<lparr>pf_linear = 0x1000, pf_error_code = 0\<rparr>"
    by (simp add: cpu_walk_def walk_long long_levels_def tiny_entry)
  then show ?thesis
    by (simp add: direct_translate_def with_access_bits_def page_fault_error_def FAULT_USER_def shl1_def push_bit_eq_mult)
qed

section \<open>Properties\<close>

text \<open>
  C5: The unrolled long-mode walk is the radix walk of the architecture. It descends the four or five
  levels by nine bits each, follows the entries' table addresses, stops at the first entry allowed to
  map a page, refuses a page-size bit where none is allowed, and the translation it returns is
  writable and user-accessible exactly when every entry on the path is, non-executable exactly when
  some entry is. Every translation of any paging mode has a page size between 4 KiB and 1 GiB and a
  frame aligned to it.
\<close>

theorem page_walk_spec:
  "(contains efer EFER_LMA \<longrightarrow>
     walk m cr3 cr4 efer l =
       bind_res (radix_path (\<lambda>a. read_entry m a l 0) l (cr3 AND TABLE_MASK) (long_levels (contains cr4 CR4_LA57)))
         (\<lambda>p. Inr (path_translation p)))
   \<and> (walk m cr3 cr4 efer l = Inr t \<longrightarrow> (\<exists>k. page_shape t k))"
  using walk_long walk_shape by blast

theorem page_walk_spec_witness:
  "walk tiny_mem 0 0 EFER_LMA 0x123 = Inr (path_translation (12, [7, 7, 7, 7]))
   \<and> (\<exists>k. page_shape (path_translation (12, [7, 7, 7, 7])) k)"
proof -
  have "contains EFER_LMA EFER_LMA" "drop_bit 12 (0x123 :: u64) = 0" by (simp_all add: contains_def)
  then show ?thesis
    using page_walk_spec [of EFER_LMA tiny_mem 0 0 "0x123" "path_translation (12, [7, 7, 7, 7])"] tiny_path [of "0x123"]
    by simp
qed

text \<open>
  C4: The TLB is invisible. On a cache that is coherent with the page tables, every translation, of
  every kind and at every privilege level, gives the result of a fresh table walk and access check,
  errors and error codes included, changes nothing but the cache, and leaves the cache coherent.
\<close>

theorem tlb_transparent:
  assumes "tlb_ok c" "translate_as env l kind ring c = (r, c')"
  shows "r = direct_translate c l kind ring \<and> c' = c\<lparr>c_tlb := c_tlb c'\<rparr> \<and> tlb_ok c'"
  using translate_as_direct [OF assms] by (simp add: same_but_tlb_def)

theorem tlb_transparent_witness:
  "\<forall>env. fst (translate_as env 0x123 ReadAccess 3 tiny_cpu) = Inr 0x123
     \<and> tlb_ok (snd (translate_as env 0x123 ReadAccess 3 tiny_cpu))"
proof
  fix env :: "(vec_block_backend, bytes list, unit, bytes) cpu_env"
  obtain r c' where t: "translate_as env 0x123 ReadAccess 3 tiny_cpu = (r, c')" by fastforce
  show "fst (translate_as env 0x123 ReadAccess 3 tiny_cpu) = Inr 0x123
     \<and> tlb_ok (snd (translate_as env 0x123 ReadAccess 3 tiny_cpu))"
    using tlb_transparent [OF tiny_tlb_ok t] t tiny_translate [of "0x123"] by simp
qed

text \<open>
  C6: Isolation of user code. In long mode an access made at privilege level 3 reaches a physical
  address only through a path of page-table entries that all grant it: every entry has the user bit,
  every entry is writable if the access writes, no entry forbids execution if the access executes and
  the no-execute feature is on; and the address lies in the frame of the last entry.
\<close>

theorem user_isolation:
  assumes "tlb_ok c" "contains (r_cr0 (c_regs c)) CR0_PG" "contains (r_efer (c_regs c)) EFER_LMA"
    "translate_as env l kind 3 c = (Inr pa, c')"
  shows "\<exists>k es. radix_path (\<lambda>a. read_entry (c_memory c) a l 0) l (r_cr3 (c_regs c) AND TABLE_MASK)
        (long_levels (contains (r_cr4 (c_regs c)) CR4_LA57)) = Inr (k, es)
    \<and> (\<forall>e \<in> set es. bit e 2) \<and> (kind = WriteAccess \<longrightarrow> (\<forall>e \<in> set es. bit e 1))
    \<and> (kind = ExecuteAccess \<and> contains (r_efer (c_regs c)) EFER_NXE \<longrightarrow> (\<forall>e \<in> set es. \<not> bit e 63))
    \<and> pa = (last es AND NOT (shl1 k - 1) AND TABLE_MASK) OR (l AND (shl1 k - 1))"
proof -
  have "direct_translate c l kind 3 = Inr pa" using translate_as_direct(1) [OF assms(1,4)] by simp
  then obtain t where t: "cpu_walk c l = Inr t" "cpu_check c t l kind 3 = Inr ()" "pa = physical t l"
    using assms(2) by (auto simp: direct_translate_def split: sum.splits)
  obtain k es where p: "radix_path (\<lambda>a. read_entry (c_memory c) a l 0) l (r_cr3 (c_regs c) AND TABLE_MASK)
      (long_levels (contains (r_cr4 (c_regs c)) CR4_LA57)) = Inr (k, es)" "t = path_translation (k, es)"
    using t(1) assms(3) by (auto simp: cpu_walk_def walk_long bind_res_eq_Inr)
  have "tr_user t" "kind = WriteAccess \<longrightarrow> tr_writable t"
    "kind = ExecuteAccess \<and> contains (r_efer (c_regs c)) EFER_NXE \<longrightarrow> \<not> tr_no_execute t"
    using t(2) by (auto simp: cpu_check_def check_access_def Let_def split: if_splits)
  with p t(3) show ?thesis by (auto simp: path_translation_def physical_def)
qed

theorem user_isolation_witness:
  "\<forall>env. fst (translate_as env 0x123 WriteAccess 3 tiny_cpu) = Inr 0x123
    \<and> (\<exists>k es. radix_path (\<lambda>a. read_entry tiny_mem a 0x123 0) 0x123 0 (long_levels False) = Inr (k, es)
         \<and> list_all (\<lambda>e. bit e 1 \<and> bit e 2) es)"
proof
  fix env :: "(vec_block_backend, bytes list, unit, bytes) cpu_env"
  obtain r c' where t: "translate_as env 0x123 WriteAccess 3 tiny_cpu = (r, c')" by fastforce
  then have "r = Inr 0x123"
    using translate_as_direct(1) [OF tiny_tlb_ok t] tiny_translate [of "0x123"] by simp
  with t user_isolation [OF tiny_tlb_ok, of env "0x123" WriteAccess "0x123" c']
  show "fst (translate_as env 0x123 WriteAccess 3 tiny_cpu) = Inr 0x123
    \<and> (\<exists>k es. radix_path (\<lambda>a. read_entry tiny_mem a 0x123 0) 0x123 0 (long_levels False) = Inr (k, es)
         \<and> list_all (\<lambda>e. bit e 1 \<and> bit e 2) es)"
    by (auto simp: list_all_iff)
qed

text \<open>
  C7: A linear read is byte-wise, whatever pages it spans. If the first \<open>b\<close> bytes of the range are
  mapped into RAM, then a read of all \<open>b\<close> returns exactly the RAM byte of each linear address under
  its own translation, although the code translates once per page; and if byte \<open>b\<close> is the first
  that cannot be translated, the read fails with exactly the fault of that byte.
\<close>

theorem linear_read_bytewise:
  assumes "tlb_ok c" "mem_wf (c_memory c)" "read_linear_bytes env linear n c = (r, c')" "b \<le> n"
    "\<forall>i < b. byte_ok (\<lambda>l. direct_translate c l ReadAccess (cpl (c_regs c))) (c_memory c) (linear + of_nat i)"
  shows "(b = n \<longrightarrow> r = Inr (map (\<lambda>i. byte_at (\<lambda>l. direct_translate c l ReadAccess (cpl (c_regs c)))
            (c_memory c) (linear + of_nat i)) [0..<n]))
    \<and> (b < n \<and> direct_translate c (linear + of_nat b) ReadAccess (cpl (c_regs c)) = Inl e \<longrightarrow> r = Inl e)"
proof -
  let ?tr = "\<lambda>l. direct_translate c l ReadAccess (cpl (c_regs c))"
  have r: "r = direct_read ?tr (c_memory c) linear n 0"
    using read_linear_loop_direct [OF assms(1) assms(3) [unfolded read_linear_bytes_def]] by blast
  have ok: "\<forall>i \<in> {0..<b}. byte_ok ?tr (c_memory c) (linear + of_nat i)" using assms(5) by simp
  show ?thesis
    using direct_read_bytes [OF direct_translate_page_local assms(2) ok]
      direct_read_fault [OF direct_translate_page_local assms(2) ok, of n e] r by auto
qed

theorem linear_read_bytewise_witness:
  "\<forall>env. fst (read_linear_bytes env 0xFFE 4 tiny_cpu) = Inl (PageFaultError 0x1000 4)"
proof
  fix env :: "(vec_block_backend, bytes list, unit, bytes) cpu_env"
  obtain r c' where t: "read_linear_bytes env 0xFFE 4 tiny_cpu = (r, c')" by fastforce
  have "\<forall>i < 2. byte_ok (\<lambda>l. direct_translate tiny_cpu l ReadAccess (cpl (c_regs tiny_cpu)))
      (c_memory tiny_cpu) (0xFFE + of_nat i)"
    by (auto simp: byte_ok_def less_2_cases_iff tiny_translate)
  from linear_read_bytewise [OF tiny_tlb_ok _ t _ this, of "PageFaultError 0x1000 4"] t
  show "fst (read_linear_bytes env 0xFFE 4 tiny_cpu) = Inl (PageFaultError 0x1000 4)"
    by (simp add: tiny_mem_wf tiny_fault)
qed

text \<open>
  C38: An invalidation of one address of a large page leaves the rest of that page cached. When the
  cache holds one 2 MiB translation for two different 4 KiB pages of the same large page, \<open>invlpg\<close> on
  an address of the first drops only that one, and the next access through the second still uses the
  old translation, although the instruction is defined to drop the translation of the whole page.
\<close>

theorem invlpg_leaves_large_page:
  assumes "tlb_wf t" "tlb_map t (drop_bit 12 l) = Some tr" "tlb_map t (drop_bit 12 l') = Some tr"
    "tr_page_size tr = 0x200000" "drop_bit 21 l = drop_bit 21 l'" "drop_bit 12 l \<noteq> drop_bit 12 l'"
  shows "fst (tlb_lookup (tlb_invalidate l t) l) = None \<and> fst (tlb_lookup (tlb_invalidate l t) l') = Some tr"
  using assms by (simp add: tlb_lookup_map tlb_invalidate_map)

theorem invlpg_leaves_large_page_witness:
  "let tr = \<lparr>tr_frame = 0x200000, tr_page_size = 0x200000, tr_writable = True, tr_user = False, tr_no_execute = False\<rparr>;
       t = tlb_insert 0x1000 tr (tlb_insert 0 tr tlb_new)
   in fst (tlb_lookup (tlb_invalidate 0 t) 0x1000) = Some tr"
proof -
  define tr where "tr = \<lparr>tr_frame = 0x200000 :: u64, tr_page_size = 0x200000, tr_writable = True, tr_user = False, tr_no_execute = False\<rparr>"
  define t where "t = tlb_insert 0x1000 tr (tlb_insert 0 tr tlb_new)"
  have "tlb_slot 0 \<noteq> tlb_slot 1" by (simp add: tlb_slot_def TLB_ENTRIES_def)
  then have "tlb_map t (drop_bit 12 0) = Some tr" "tlb_map t (drop_bit 12 0x1000) = Some tr" "tlb_wf t"
    unfolding t_def by (simp_all add: tlb_insert_map tlb_wf_ops)
  then have "fst (tlb_lookup (tlb_invalidate 0 t) 0x1000) = Some tr"
    using invlpg_leaves_large_page [of t 0 tr "0x1000"] by (simp add: tr_def)
  then show ?thesis by (simp add: t_def tr_def Let_def)
qed

end
