(* ===== verification/Ops_Base.thy ===== *)
theory Ops_Base
  imports Cpu_Interrupts
begin

text \<open>
  The shared part of the instruction implementations (\<open>ops/mod.rs\<close>): operands, register widths and
  the flag helpers. What the implementations ask of a decoded instruction is the record \<open>insn_ops\<close> of
  accessors of the third-party decoder, next to those of \<open>iced_ops\<close>. General registers are numbered by
  the decoder's discriminants, as in \<open>register_index\<close>; the other registers the source compares by name
  are the constructors of \<open>special_register\<close>.
\<close>

section \<open>Decoded instructions\<close>

datatype operand_kind = KRegister | KMemory | KImmediate8 | KImmediate8to16 | KImmediate8to32 | KImmediate8to64
  | KImmediate16 | KImmediate32 | KImmediate32to64 | KNearBranch | KFarBranch | KOther

datatype mem_size = MUInt8 | MInt8 | MUInt16 | MInt16 | MUInt32 | MInt32 | MUInt64 | MInt64
  | MUInt128 | MInt128 | MUInt256 | MInt256 | MUInt512 | MInt512 | MFword10 | MOther

datatype special_register = SpSegment seg_name | SpControl nat | SpDebug nat | SpXmm nat | SpNone

record 'i insn_ops =
  in_op_count :: "'i \<Rightarrow> nat"
  in_op_kind :: "'i \<Rightarrow> nat \<Rightarrow> operand_kind"
  in_op_register :: "'i \<Rightarrow> nat \<Rightarrow> nat"
  in_op_special :: "'i \<Rightarrow> nat \<Rightarrow> special_register"
  in_memory_size :: "'i \<Rightarrow> mem_size"
  in_immediate :: "'i \<Rightarrow> nat \<Rightarrow> u64"
  in_immediate8 :: "'i \<Rightarrow> u8"
  in_immediate8to16 :: "'i \<Rightarrow> u16"
  in_immediate8to32 :: "'i \<Rightarrow> u32"
  in_immediate16 :: "'i \<Rightarrow> u16"
  in_immediate32 :: "'i \<Rightarrow> u32"
  in_near_branch_target :: "'i \<Rightarrow> u64"
  in_far_branch32 :: "'i \<Rightarrow> u32"
  in_far_branch_selector :: "'i \<Rightarrow> u16"
  in_rep :: "'i \<Rightarrow> bool"
  in_repe :: "'i \<Rightarrow> bool"
  in_repne :: "'i \<Rightarrow> bool"
  in_code :: "'i \<Rightarrow> string"

type_synonym ('b, 'n, 's, 'i, 'r) insn_sem = "'i \<Rightarrow> (('b, 'n, 's, 'i, 'r) cpu, unit) cpu_op"

text \<open>Discriminants of the registers the source names.\<close>

abbreviation (input) REG_AL :: nat where "REG_AL \<equiv> 1"
abbreviation (input) REG_CL :: nat where "REG_CL \<equiv> 2"
abbreviation (input) REG_AH :: nat where "REG_AH \<equiv> 5"
abbreviation (input) REG_AX :: nat where "REG_AX \<equiv> 21"
abbreviation (input) REG_CX :: nat where "REG_CX \<equiv> 22"
abbreviation (input) REG_DX :: nat where "REG_DX \<equiv> 23"
abbreviation (input) REG_EAX :: nat where "REG_EAX \<equiv> 37"
abbreviation (input) REG_ECX :: nat where "REG_ECX \<equiv> 38"
abbreviation (input) REG_EDX :: nat where "REG_EDX \<equiv> 39"
abbreviation (input) REG_EBX :: nat where "REG_EBX \<equiv> 40"
abbreviation (input) REG_RAX :: nat where "REG_RAX \<equiv> 53"
abbreviation (input) REG_RCX :: nat where "REG_RCX \<equiv> 54"
abbreviation (input) REG_RDX :: nat where "REG_RDX \<equiv> 55"
abbreviation (input) REG_RBX :: nat where "REG_RBX \<equiv> 56"

definition high_byte :: "nat \<Rightarrow> bool" where
  "high_byte v \<longleftrightarrow> 5 \<le> v \<and> v \<le> 8"

section \<open>Register operands\<close>

definition read_reg :: "registers \<Rightarrow> nat \<Rightarrow> u8 \<Rightarrow> u64" where
  "read_reg regs r sz =
     (let value = r_gpr regs ! register_index r in
      if high_byte r then drop_bit 8 value AND 0xFF
      else if sz = 1 then value AND 0xFF
      else if sz = 2 then value AND 0xFFFF
      else if sz = 4 then value AND 0xFFFFFFFF
      else value)"

definition write_reg :: "nat \<Rightarrow> u8 \<Rightarrow> u64 \<Rightarrow> registers \<Rightarrow> registers" where
  "write_reg r sz v regs =
     (let i = register_index r;
          old = r_gpr regs ! i;
          new = (if high_byte r then (old AND NOT 0xFF00) OR push_bit 8 (v AND 0xFF)
                 else if sz = 1 then (old AND NOT 0xFF) OR (v AND 0xFF)
                 else if sz = 2 then (old AND NOT 0xFFFF) OR (v AND 0xFFFF)
                 else if sz = 4 then v AND 0xFFFFFFFF
                 else v)
      in regs\<lparr>r_gpr := (r_gpr regs)[i := new]\<rparr>)"

definition register_size :: "nat \<Rightarrow> u8" where
  "register_size r =
     (if 1 \<le> r \<and> r \<le> 20 then 1 else if 21 \<le> r \<and> r \<le> 36 then 2 else if 37 \<le> r \<and> r \<le> 52 then 4 else 8)"

definition memory_size :: "'i insn_ops \<Rightarrow> 'i \<Rightarrow> u8" where
  "memory_size io ins =
     (case in_memory_size io ins of
        MUInt8 \<Rightarrow> 1 | MInt8 \<Rightarrow> 1 | MUInt16 \<Rightarrow> 2 | MInt16 \<Rightarrow> 2 | MUInt32 \<Rightarrow> 4 | MInt32 \<Rightarrow> 4
      | MUInt64 \<Rightarrow> 8 | MInt64 \<Rightarrow> 8 | MUInt128 \<Rightarrow> 16 | MInt128 \<Rightarrow> 16 | MUInt256 \<Rightarrow> 32 | MInt256 \<Rightarrow> 32
      | MUInt512 \<Rightarrow> 64 | MInt512 \<Rightarrow> 64 | _ \<Rightarrow> 8)"

definition operand_size :: "'i insn_ops \<Rightarrow> 'i \<Rightarrow> nat \<Rightarrow> u8" where
  "operand_size io ins k =
     (case in_op_kind io ins k of
        KRegister \<Rightarrow> register_size (in_op_register io ins k)
      | KMemory \<Rightarrow> memory_size io ins
      | _ \<Rightarrow> 8)"

definition regs_op :: "(registers \<Rightarrow> registers) \<Rightarrow> (('b, 'n, 's, 'i, 'r) cpu, unit) cpu_op" where
  "regs_op f c = (Inr (), map_regs f c)"

definition read_operand0 :: "('b, 'n, 's, 'i) cpu_env \<Rightarrow> 'i insn_ops \<Rightarrow> 'i \<Rightarrow> (('b, 'n, 's, 'i, 'r) cpu, u64) cpu_op" where
  "read_operand0 env io ins c =
     (if in_op_kind io ins 0 = KMemory then read_operand env ins (memory_size io ins) c
      else (Inr (read_reg (c_regs c) (in_op_register io ins 0) (operand_size io ins 0)), c))"

definition read_operand1 :: "('b, 'n, 's, 'i) cpu_env \<Rightarrow> 'i insn_ops \<Rightarrow> 'i \<Rightarrow> (('b, 'n, 's, 'i, 'r) cpu, u64) cpu_op" where
  "read_operand1 env io ins c =
     (case in_op_kind io ins 1 of
        KMemory \<Rightarrow> read_operand env ins (memory_size io ins) c
      | KRegister \<Rightarrow> (Inr (read_reg (c_regs c) (in_op_register io ins 1) (operand_size io ins 1)), c)
      | _ \<Rightarrow> (Inr (in_immediate io ins 1), c))"

definition write_operand0 ::
  "('b, 'n, 's, 'i) cpu_env \<Rightarrow> 'i insn_ops \<Rightarrow> 'i \<Rightarrow> u64 \<Rightarrow> (('b, 'n, 's, 'i, 'r) cpu, unit) cpu_op" where
  "write_operand0 env io ins v =
     (if in_op_kind io ins 0 = KMemory then write_operand env ins (memory_size io ins) v
      else regs_op (write_reg (in_op_register io ins 0) (operand_size io ins 0) v))"

section \<open>Flags\<close>

definition RFLAGS_CF :: u64 where "RFLAGS_CF = shl1 0"
definition RFLAGS_PF :: u64 where "RFLAGS_PF = shl1 2"
definition RFLAGS_AF :: u64 where "RFLAGS_AF = shl1 4"
definition RFLAGS_ZF :: u64 where "RFLAGS_ZF = shl1 6"
definition RFLAGS_SF :: u64 where "RFLAGS_SF = shl1 7"
definition RFLAGS_DF :: u64 where "RFLAGS_DF = shl1 10"
definition RFLAGS_OF :: u64 where "RFLAGS_OF = shl1 11"

lemmas alu_flag_defs = RFLAGS_CF_def RFLAGS_PF_def RFLAGS_AF_def RFLAGS_ZF_def RFLAGS_SF_def RFLAGS_DF_def RFLAGS_OF_def

definition flag_set :: "u64 \<Rightarrow> bool \<Rightarrow> registers \<Rightarrow> registers" where
  "flag_set f b r = r\<lparr>r_rflags := (if b then r_rflags r OR f else r_rflags r AND NOT f)\<rparr>"

definition carry :: "registers \<Rightarrow> bool" where
  "carry r = contains (r_rflags r) RFLAGS_CF"

definition bits_mask :: "nat \<Rightarrow> u64" where
  "bits_mask bits = (if 64 \<le> bits then - 1 else shl1 bits - 1)"

definition sign_bit :: "nat \<Rightarrow> u64" where
  "sign_bit bits = shl1 (bits - 1)"

record add_result =
  ar_result :: u64
  ar_carry :: bool
  ar_overflow :: bool
  ar_adjust :: bool

definition add_with_flags :: "u64 \<Rightarrow> u64 \<Rightarrow> bool \<Rightarrow> nat \<Rightarrow> add_result" where
  "add_with_flags left right cin bits =
     (let carry_in = of_bool cin;
          result = left + right + carry_in;
          mask = bits_mask bits;
          truncated = result AND mask;
          left_t = left AND mask;
          right_t = right AND mask;
          wide = (ucast left_t :: 128 word) + ucast right_t + ucast (carry_in :: u64)
      in \<lparr>ar_result = result, ar_carry = (ucast mask < wide),
          ar_overflow = (NOT (left_t XOR right_t) AND (left_t XOR truncated) AND sign_bit bits \<noteq> 0),
          ar_adjust = ((left_t XOR right_t XOR truncated) AND 0x10 \<noteq> 0)\<rparr>)"

definition sub_with_flags :: "u64 \<Rightarrow> u64 \<Rightarrow> bool \<Rightarrow> nat \<Rightarrow> add_result" where
  "sub_with_flags left right cin bits =
     (let borrow = of_bool cin;
          result = left - right - borrow;
          mask = bits_mask bits;
          truncated = result AND mask;
          left_t = left AND mask;
          right_t = right AND mask
      in \<lparr>ar_result = result, ar_carry = (left_t < right_t \<or> (cin \<and> left_t = right_t)),
          ar_overflow = ((left_t XOR right_t) AND (left_t XOR truncated) AND sign_bit bits \<noteq> 0),
          ar_adjust = ((left_t XOR right_t XOR truncated) AND 0x10 \<noteq> 0)\<rparr>)"

definition count_ones8 :: "u8 \<Rightarrow> nat" where
  "count_ones8 w = length (filter (bit w) [0..<8])"

definition set_szp :: "u64 \<Rightarrow> nat \<Rightarrow> registers \<Rightarrow> registers" where
  "set_szp result bits r =
     (let truncated = result AND bits_mask bits;
          r = flag_set RFLAGS_SF (truncated AND sign_bit bits \<noteq> 0) r;
          r = flag_set RFLAGS_ZF (truncated = 0) r
      in flag_set RFLAGS_PF (even (count_ones8 (ucast truncated))) r)"

definition set_carry :: "bool \<Rightarrow> registers \<Rightarrow> registers" where
  "set_carry = flag_set RFLAGS_CF"

definition set_overflow :: "bool \<Rightarrow> registers \<Rightarrow> registers" where
  "set_overflow = flag_set RFLAGS_OF"

definition set_adjust :: "bool \<Rightarrow> registers \<Rightarrow> registers" where
  "set_adjust = flag_set RFLAGS_AF"

end
