(* ===== verification/Ops_Arithmetic.thy ===== *)
theory Ops_Arithmetic
  imports Ops_Base "HOL-Library.Signed_Division"
begin

text \<open>
  Integer arithmetic (\<open>ops/arithmetic.rs\<close>). A signed machine integer is its value as an \<open>int\<close>; the
  128-bit intermediate products and dividends keep their width. Rust's signed division truncates and
  panics when the quotient does not fit, which is the branch \<open>HostPanic\<close> of \<open>op_div\<close>.
\<close>

definition mnemonic_is :: "('b, 'n, 's, 'i) cpu_env \<Rightarrow> 'i \<Rightarrow> string \<Rightarrow> bool" where
  "mnemonic_is env ins m \<longleftrightarrow> ic_mnemonic (env_iced env) ins = m"

definition alu_flags :: "add_result \<Rightarrow> nat \<Rightarrow> registers \<Rightarrow> registers" where
  "alu_flags fl bits r =
     set_adjust (ar_adjust fl) (set_overflow (ar_overflow fl) (set_carry (ar_carry fl) (set_szp (ar_result fl) bits r)))"

definition arith_binary ::
  "('b, 'n, 's, 'i) cpu_env \<Rightarrow> 'i insn_ops \<Rightarrow> bool \<Rightarrow> bool \<Rightarrow> ('b, 'n, 's, 'i, 'r) insn_sem" where
  "arith_binary env io sub with_carry ins =
     (let bits = 8 * unat (operand_size io ins 0) in
      bind_op (read_operand0 env io ins) (\<lambda>left.
      bind_op (read_operand1 env io ins) (\<lambda>right c.
      let carry_in = (with_carry \<and> carry (c_regs c));
          fl = (if sub then sub_with_flags left right carry_in bits else add_with_flags left right carry_in bits)
      in write_operand0 env io ins (ar_result fl) (map_regs (alu_flags fl bits) c))))"

definition op_add :: "('b, 'n, 's, 'i) cpu_env \<Rightarrow> 'i insn_ops \<Rightarrow> ('b, 'n, 's, 'i, 'r) insn_sem" where
  "op_add env io = arith_binary env io False False"

definition op_sub :: "('b, 'n, 's, 'i) cpu_env \<Rightarrow> 'i insn_ops \<Rightarrow> ('b, 'n, 's, 'i, 'r) insn_sem" where
  "op_sub env io = arith_binary env io True False"

definition op_cmp :: "('b, 'n, 's, 'i) cpu_env \<Rightarrow> 'i insn_ops \<Rightarrow> ('b, 'n, 's, 'i, 'r) insn_sem" where
  "op_cmp env io ins =
     (let bits = 8 * unat (operand_size io ins 0) in
      bind_op (read_operand0 env io ins) (\<lambda>left.
      bind_op (read_operand1 env io ins) (\<lambda>right.
      regs_op (alu_flags (sub_with_flags left right False bits) bits))))"

definition adc_sbb :: "('b, 'n, 's, 'i) cpu_env \<Rightarrow> 'i insn_ops \<Rightarrow> ('b, 'n, 's, 'i, 'r) insn_sem" where
  "adc_sbb env io ins = arith_binary env io (mnemonic_is env ins ''Sbb'') True ins"

definition inc_dec :: "('b, 'n, 's, 'i) cpu_env \<Rightarrow> 'i insn_ops \<Rightarrow> ('b, 'n, 's, 'i, 'r) insn_sem" where
  "inc_dec env io ins =
     (let bits = 8 * unat (operand_size io ins 0) in
      bind_op (read_operand0 env io ins) (\<lambda>left c.
      let fl = (if mnemonic_is env ins ''Inc'' then add_with_flags left 1 False bits else sub_with_flags left 1 False bits)
      in write_operand0 env io ins (ar_result fl)
           (map_regs (\<lambda>r. set_adjust (ar_adjust fl) (set_overflow (ar_overflow fl) (set_szp (ar_result fl) bits r))) c)))"

definition op_neg :: "('b, 'n, 's, 'i) cpu_env \<Rightarrow> 'i insn_ops \<Rightarrow> ('b, 'n, 's, 'i, 'r) insn_sem" where
  "op_neg env io ins =
     (let bits = 8 * unat (operand_size io ins 0) in
      bind_op (read_operand0 env io ins) (\<lambda>value c.
      let result = 0 - value
      in write_operand0 env io ins result
           (map_regs (\<lambda>r. set_overflow (result AND bits_mask bits = sign_bit bits)
              (set_carry (value \<noteq> 0) (set_szp result bits r))) c)))"

section \<open>Sign extension\<close>

definition sign_extend :: "u64 \<Rightarrow> u8 \<Rightarrow> int" where
  "sign_extend v sz = (let bits = 8 * unat sz in sint (signed_drop_bit (64 - bits) (push_bit (64 - bits) v)))"

definition sign_extend128 :: "128 word \<Rightarrow> nat \<Rightarrow> int" where
  "sign_extend128 v bits = sint (signed_drop_bit (128 - bits) (push_bit (128 - bits) v))"

section \<open>Multiplication\<close>

text \<open>The accumulator at a width, and the register pair that takes a double-width result.\<close>

definition read_accumulator :: "registers \<Rightarrow> u8 \<Rightarrow> u64" where
  "read_accumulator r sz =
     (if sz = 1 then read_reg r REG_AL 1 else if sz = 2 then read_reg r REG_AX 2
      else if sz = 4 then read_reg r REG_EAX 4 else read_reg r REG_RAX 8)"

definition write_accumulator :: "u8 \<Rightarrow> u64 \<Rightarrow> registers \<Rightarrow> registers" where
  "write_accumulator sz v =
     (if sz = 1 then write_reg REG_AL 1 v else if sz = 2 then write_reg REG_AX 2 v
      else if sz = 4 then write_reg REG_EAX 4 v else write_reg REG_RAX 8 v)"

definition write_pair :: "u8 \<Rightarrow> u64 \<Rightarrow> u64 \<Rightarrow> registers \<Rightarrow> registers" where
  "write_pair sz low high r =
     (if sz = 2 then write_reg REG_DX 2 high (write_reg REG_AX 2 low r)
      else if sz = 4 then write_reg REG_EDX 4 high (write_reg REG_EAX 4 low r)
      else write_reg REG_RDX 8 high (write_reg REG_RAX 8 low r))"

text \<open>The masked double-width product, its upper half, its low 64 bits, and the overflow condition.\<close>

definition mul_product :: "u64 \<Rightarrow> u64 \<Rightarrow> u8 \<Rightarrow> bool \<Rightarrow> 128 word" where
  "mul_product accumulator multiplicand sz signed_op =
     (if signed_op then word_of_int (sign_extend accumulator sz * sign_extend multiplicand sz)
      else ucast accumulator * ucast multiplicand) AND drop_bit (128 - 2 * (8 * unat sz)) (- 1)"

definition mul_high :: "128 word \<Rightarrow> u8 \<Rightarrow> u64" where
  "mul_high product sz = ucast (drop_bit (8 * unat sz) product)"

definition mul_overflow :: "128 word \<Rightarrow> u8 \<Rightarrow> bool \<Rightarrow> bool" where
  "mul_overflow product sz signed_op =
     (let bits = 8 * unat sz; low = ucast product :: u64 in
      if signed_op
      then mul_high product sz AND bits_mask bits \<noteq> signed_drop_bit (bits - 1) low AND bits_mask bits
      else mul_high product sz \<noteq> 0)"

definition op_mul :: "('b, 'n, 's, 'i) cpu_env \<Rightarrow> 'i insn_ops \<Rightarrow> bool \<Rightarrow> ('b, 'n, 's, 'i, 'r) insn_sem" where
  "op_mul env io signed_op ins =
     (let sz = operand_size io ins 0 in
      bind_op (read_operand0 env io ins) (\<lambda>multiplicand c.
      let product = mul_product (read_accumulator (c_regs c) sz) multiplicand sz signed_op;
          overflow = mul_overflow product sz signed_op;
          low = ucast product
      in regs_op (\<lambda>r. let r = flag_set RFLAGS_OF overflow (flag_set RFLAGS_CF overflow r)
                      in if sz = 1 then write_reg REG_AX 2 low r
                         else write_pair sz low (mul_high product sz) r) c))"

definition imul_operands ::
  "('b, 'n, 's, 'i) cpu_env \<Rightarrow> 'i insn_ops \<Rightarrow> 'i \<Rightarrow> (('b, 'n, 's, 'i, 'r) cpu, u64 \<times> u64) cpu_op" where
  "imul_operands env io ins =
     (let repeats_dest = (3 \<le> in_op_count io ins \<and> in_op_kind io ins 1 = KRegister
                          \<and> in_op_register io ins 1 = in_op_register io ins 0) in
      if in_op_count io ins = 2
      then bind_op (read_operand0 env io ins) (\<lambda>l. bind_op (read_operand1 env io ins) (\<lambda>r. ret_op (l, r)))
      else if repeats_dest then bind_op (read_operand0 env io ins) (\<lambda>l. ret_op (l, in_immediate io ins 2))
      else bind_op (read_operand1 env io ins) (\<lambda>l. ret_op (l, in_immediate io ins 2)))"

definition imul_two_three :: "('b, 'n, 's, 'i) cpu_env \<Rightarrow> 'i insn_ops \<Rightarrow> ('b, 'n, 's, 'i, 'r) insn_sem" where
  "imul_two_three env io ins =
     (let sz = operand_size io ins 0; mask = bits_mask (8 * unat sz) in
      bind_op (imul_operands env io ins) (\<lambda>(left, right) c.
      let product = sign_extend left sz * sign_extend right sz;
          truncated = word_of_int product AND mask;
          overflow = (sign_extend truncated sz \<noteq> product)
      in write_operand0 env io ins truncated (map_regs (\<lambda>r. set_overflow overflow (set_carry overflow r)) c)))"

section \<open>Division\<close>

definition dividend_full :: "registers \<Rightarrow> u8 \<Rightarrow> 128 word" where
  "dividend_full r sz =
     (if sz = 1 then ucast (read_reg r REG_AX 2)
      else if sz = 2 then ucast (push_bit 16 (read_reg r REG_DX 2) OR read_reg r REG_AX 2)
      else if sz = 4 then ucast (push_bit 32 (read_reg r REG_EDX 4) OR read_reg r REG_EAX 4)
      else push_bit 64 (ucast (read_reg r REG_RDX 8)) OR ucast (read_reg r REG_RAX 8))"

datatype div_outcome = DivideError | DividePanic | Divided u64 u64

definition signed_divide :: "128 word \<Rightarrow> u64 \<Rightarrow> u8 \<Rightarrow> div_outcome" where
  "signed_divide full dv sz =
     (let dividend = sign_extend128 full (if sz = 1 then 16 else if sz = 2 then 32 else if sz = 4 then 64 else 128);
          d = sign_extend dv sz;
          quotient = dividend sdiv d;
          remainder = dividend smod d;
          limit = 2 ^ (8 * unat sz - 1)
      in if dividend = - (2 ^ 127) \<and> d = - 1 then DividePanic
         else if limit - 1 < quotient \<or> quotient < - limit then DivideError
         else Divided (word_of_int quotient) (word_of_int remainder))"

definition unsigned_divide :: "128 word \<Rightarrow> u64 \<Rightarrow> u8 \<Rightarrow> div_outcome" where
  "unsigned_divide full dv sz =
     (let quotient = full div ucast dv;
          remainder = full mod ucast dv
      in if ucast (bits_mask (8 * unat sz)) < quotient then DivideError
         else Divided (ucast quotient) (ucast remainder))"

definition op_div :: "('b, 'n, 's, 'i) cpu_env \<Rightarrow> 'i insn_ops \<Rightarrow> bool \<Rightarrow> ('b, 'n, 's, 'i, 'r) insn_sem" where
  "op_div env io signed_op ins =
     (let sz = operand_size io ins 0 in
      bind_op (read_operand0 env io ins) (\<lambda>dv c.
      let full = dividend_full (c_regs c) sz in
      if dv = 0 then raise_exception env 0 0 False c
      else case (if signed_op then signed_divide full dv sz else unsigned_divide full dv sz) of
        DivideError \<Rightarrow> raise_exception env 0 0 False c
      | DividePanic \<Rightarrow> (Inl (HostPanic ''attempt to divide with overflow''), c)
      | Divided q rm \<Rightarrow>
          regs_op (\<lambda>r. if sz = 1 then write_reg REG_AH 1 rm (write_reg REG_AL 1 q r)
                       else write_pair sz q rm r) c))"

definition mul_div :: "('b, 'n, 's, 'i) cpu_env \<Rightarrow> 'i insn_ops \<Rightarrow> ('b, 'n, 's, 'i, 'r) insn_sem" where
  "mul_div env io ins =
     (if mnemonic_is env ins ''Mul'' then op_mul env io False ins
      else if mnemonic_is env ins ''Imul'' then
        if in_op_count io ins = 1 then op_mul env io True ins else imul_two_three env io ins
      else if mnemonic_is env ins ''Div'' then op_div env io False ins
      else if mnemonic_is env ins ''Idiv'' then op_div env io True ins
      else ret_op ())"

definition op_convert :: "('b, 'n, 's, 'i) cpu_env \<Rightarrow> ('b, 'n, 's, 'i, 'r) insn_sem" where
  "op_convert env ins = regs_op (\<lambda>r.
     if mnemonic_is env ins ''Cbw'' then write_reg REG_AX 2 (word_of_int (sign_extend (read_reg r REG_AL 1) 1)) r
     else if mnemonic_is env ins ''Cwde'' then write_reg REG_EAX 4 (word_of_int (sign_extend (read_reg r REG_AX 2) 2)) r
     else if mnemonic_is env ins ''Cdqe'' then write_reg REG_RAX 8 (word_of_int (sign_extend (read_reg r REG_EAX 4) 4)) r
     else if mnemonic_is env ins ''Cwd'' then
       write_reg REG_DX 2 (ucast (signed_drop_bit 15 (ucast (read_reg r REG_AX 2) :: u16))) r
     else if mnemonic_is env ins ''Cdq'' then
       write_reg REG_EDX 4 (ucast (signed_drop_bit 31 (ucast (read_reg r REG_EAX 4) :: u32))) r
     else if mnemonic_is env ins ''Cqo'' then
       write_reg REG_RDX 8 (signed_drop_bit 63 (read_reg r REG_RAX 8)) r
     else r)"

end
