(* ===== verification/Ops_Logic.thy ===== *)
theory Ops_Logic
  imports Ops_Arithmetic
begin

text \<open>
  Bitwise logic, shifts, rotates, bit scans and bit tests (\<open>ops/logic.rs\<close>). Shift counts and widths
  are natural numbers; the source reduces a count below the width of a word before it shifts.
\<close>

definition logic_flags :: "u64 \<Rightarrow> u8 \<Rightarrow> registers \<Rightarrow> registers" where
  "logic_flags result sz r = set_adjust False (set_overflow False (set_carry False (set_szp result (8 * unat sz) r)))"

definition and_or_xor :: "('b, 'n, 's, 'i) cpu_env \<Rightarrow> 'i insn_ops \<Rightarrow> ('b, 'n, 's, 'i, 'r) insn_sem" where
  "and_or_xor env io ins =
     bind_op (read_operand0 env io ins) (\<lambda>left.
     bind_op (read_operand1 env io ins) (\<lambda>right c.
     let result = (if mnemonic_is env ins ''Or'' then left OR right
                   else if mnemonic_is env ins ''Xor'' then left XOR right else left AND right)
     in write_operand0 env io ins result (map_regs (logic_flags result (operand_size io ins 0)) c)))"

definition op_test :: "('b, 'n, 's, 'i) cpu_env \<Rightarrow> 'i insn_ops \<Rightarrow> ('b, 'n, 's, 'i, 'r) insn_sem" where
  "op_test env io ins =
     bind_op (read_operand0 env io ins) (\<lambda>left.
     bind_op (read_operand1 env io ins) (\<lambda>right.
     regs_op (logic_flags (left AND right) (operand_size io ins 0))))"

section \<open>Shifts and rotates\<close>

record shift_outcome =
  so_result :: u64
  so_carry :: bool
  so_overflow :: bool
  so_szp :: bool

definition top_bit :: "u64 \<Rightarrow> nat \<Rightarrow> bool" where
  "top_bit w k \<longleftrightarrow> drop_bit k w AND 1 \<noteq> 0"

definition op_rotate :: "u64 \<Rightarrow> nat \<Rightarrow> nat \<Rightarrow> bool \<Rightarrow> shift_outcome option" where
  "op_rotate value n bits rol =
     (if n = 0 then None
      else let mask = bits_mask bits;
               steps = n mod bits;
               result = (if steps = 0 then value
                         else if rol then (push_bit steps value OR drop_bit (bits - steps) value) AND mask
                         else (drop_bit steps value OR push_bit (bits - steps) value) AND mask);
               top = top_bit result (bits - 1);
               cy = (if rol then result AND 1 \<noteq> 0 else top);
               overflow = (n = 1 \<and> (if rol then top \<noteq> cy else top \<noteq> top_bit result (bits - 2)))
           in Some \<lparr>so_result = result, so_carry = cy, so_overflow = overflow, so_szp = False\<rparr>)"

definition rcl_step :: "nat \<Rightarrow> u64 \<times> bool \<Rightarrow> u64 \<times> bool" where
  "rcl_step bits = (\<lambda>(result, cy). ((push_bit 1 result AND bits_mask bits) OR of_bool cy, top_bit result (bits - 1)))"

definition rcr_step :: "nat \<Rightarrow> u64 \<times> bool \<Rightarrow> u64 \<times> bool" where
  "rcr_step bits = (\<lambda>(result, cy). (drop_bit 1 result OR push_bit (bits - 1) (of_bool cy), result AND 1 \<noteq> 0))"

definition rotate_through_carry :: "u64 \<Rightarrow> nat \<Rightarrow> nat \<Rightarrow> bool \<Rightarrow> bool \<Rightarrow> shift_outcome option" where
  "rotate_through_carry value n bits carry_in rcl =
     (let steps = n mod (bits + 1) in
      if steps = 0 then None
      else let (result, cy) = ((if rcl then rcl_step bits else rcr_step bits) ^^ steps) (value, carry_in);
               top = top_bit result (bits - 1);
               overflow = (n = 1 \<and> (if rcl then top \<noteq> cy else top \<noteq> top_bit result (bits - 2)))
           in Some \<lparr>so_result = result AND bits_mask bits, so_carry = cy, so_overflow = overflow, so_szp = False\<rparr>)"

definition shift_left :: "u64 \<Rightarrow> nat \<Rightarrow> nat \<Rightarrow> u64 \<times> bool" where
  "shift_left value steps bits =
     (if bits \<le> steps then (0, steps = bits \<and> value AND 1 \<noteq> 0)
      else (push_bit steps value AND bits_mask bits, value AND shl1 (bits - steps) \<noteq> 0))"

definition shift_arithmetic :: "u64 \<Rightarrow> nat \<Rightarrow> nat \<Rightarrow> u64 \<times> bool" where
  "shift_arithmetic value steps bits =
     (let negative = (value AND shl1 (bits - 1) \<noteq> 0);
          filled = (if bits \<le> steps then (if negative then bits_mask bits else 0)
                    else if negative then (push_bit (bits - steps) (- 1) OR drop_bit steps value) AND bits_mask bits
                    else drop_bit steps value);
          last_out = (if bits \<le> steps then negative else value AND shl1 (steps - 1) \<noteq> 0)
      in (filled, last_out))"

definition shift_right :: "u64 \<Rightarrow> nat \<Rightarrow> nat \<Rightarrow> u64 \<times> bool" where
  "shift_right value steps bits =
     (if bits \<le> steps then (0, steps = bits \<and> value AND shl1 (bits - 1) \<noteq> 0)
      else (drop_bit steps value, value AND shl1 (steps - 1) \<noteq> 0))"

datatype shift_kind = ShiftLeft | ShiftArithmetic | ShiftRight

definition op_shift :: "u64 \<Rightarrow> nat \<Rightarrow> nat \<Rightarrow> shift_kind \<Rightarrow> shift_outcome option" where
  "op_shift value n bits kind =
     (if n = 0 then None
      else let (result, cy) = (case kind of ShiftLeft \<Rightarrow> shift_left value n bits
                               | ShiftArithmetic \<Rightarrow> shift_arithmetic value n bits
                               | ShiftRight \<Rightarrow> shift_right value n bits);
               overflow = (n = 1 \<and> (case kind of ShiftLeft \<Rightarrow> top_bit result (bits - 1) \<noteq> cy
                                    | ShiftArithmetic \<Rightarrow> False
                                    | ShiftRight \<Rightarrow> value AND shl1 (bits - 1) \<noteq> 0))
           in Some \<lparr>so_result = result, so_carry = cy, so_overflow = overflow, so_szp = True\<rparr>)"

definition shift_kind_of :: "string \<Rightarrow> shift_kind" where
  "shift_kind_of m = (if m = ''Shl'' then ShiftLeft else if m = ''Sar'' then ShiftArithmetic else ShiftRight)"

definition shift_by :: "string \<Rightarrow> u64 \<Rightarrow> nat \<Rightarrow> nat \<Rightarrow> bool \<Rightarrow> shift_outcome option" where
  "shift_by m value n bits carry_in =
     (if m = ''Rol'' \<or> m = ''Ror'' then op_rotate value n bits (m = ''Rol'')
      else if m = ''Rcl'' \<or> m = ''Rcr'' then rotate_through_carry value n bits carry_in (m = ''Rcl'')
      else op_shift value n bits (shift_kind_of m))"

definition shift_rotate :: "('b, 'n, 's, 'i) cpu_env \<Rightarrow> 'i insn_ops \<Rightarrow> ('b, 'n, 's, 'i, 'r) insn_sem" where
  "shift_rotate env io ins =
     (if mnemonic_is env ins ''Not''
      then bind_op (read_operand0 env io ins) (\<lambda>value. write_operand0 env io ins (NOT value))
      else let sz = operand_size io ins 0; bits = 8 * unat sz in
      bind_op (read_operand0 env io ins) (\<lambda>value c.
      let raw_count = (case in_op_kind io ins 1 of KImmediate8 \<Rightarrow> in_immediate io ins 1
                       | KRegister \<Rightarrow> read_reg (c_regs c) REG_CL 1 | _ \<Rightarrow> 1);
          n = unat (raw_count AND (if sz = 8 then 0x3F else 0x1F))
      in case shift_by (ic_mnemonic (env_iced env) ins) (value AND bits_mask bits) n bits (carry (c_regs c)) of
           None \<Rightarrow> (Inr (), c)
         | Some outcome \<Rightarrow>
             write_operand0 env io ins (so_result outcome)
               (map_regs (\<lambda>r. let r = set_overflow (so_overflow outcome) (set_carry (so_carry outcome) r)
                              in if so_szp outcome then set_szp (so_result outcome) bits r else r) c)))"

section \<open>Bit scans\<close>

definition trailing_zeros64 :: "u64 \<Rightarrow> nat" where
  "trailing_zeros64 w = (case filter (bit w) [0..<64] of [] \<Rightarrow> 64 | i # _ \<Rightarrow> i)"

definition leading_zeros64 :: "u64 \<Rightarrow> nat" where
  "leading_zeros64 w = length (takeWhile (\<lambda>i. \<not> bit w i) (rev [0..<64]))"

definition count_scan :: "nat \<Rightarrow> u8 \<Rightarrow> u64 \<Rightarrow> nat \<Rightarrow> registers \<Rightarrow> registers" where
  "count_scan reg sz source index r =
     write_reg reg sz (of_nat index) (flag_set RFLAGS_ZF (index = 0) (flag_set RFLAGS_CF (source = 0) r))"

definition bit_scan :: "string \<Rightarrow> nat \<Rightarrow> u8 \<Rightarrow> u64 \<Rightarrow> registers \<Rightarrow> registers" where
  "bit_scan m reg sz source r =
     (let bits = 8 * unat sz; masked = source AND bits_mask bits in
      if m = ''Bsf'' then
        if source = 0 then flag_set RFLAGS_ZF True r
        else write_reg reg sz (of_nat (trailing_zeros64 source)) (flag_set RFLAGS_ZF False r)
      else if m = ''Bsr'' then
        if source = 0 then flag_set RFLAGS_ZF True r
        else write_reg reg sz (of_nat (63 - leading_zeros64 source)) (flag_set RFLAGS_ZF False r)
      else if m = ''Tzcnt'' then count_scan reg sz source (if masked = 0 then bits else trailing_zeros64 masked) r
      else count_scan reg sz source (if masked = 0 then bits else leading_zeros64 masked - (64 - bits)) r)"

section \<open>Bit tests\<close>

text \<open>A physical access of an operand width; any other width is eight bytes.\<close>

definition phys_read :: "u8 \<Rightarrow> u64 \<Rightarrow> (('b, 'n, 's, 'i, 'r) cpu, u64) cpu_op" where
  "phys_read sz pa = mem_read_op (\<lambda>m.
     if sz = 1 then bind_res (read_u8 m pa) (\<lambda>v. Inr (ucast v))
     else if sz = 2 then bind_res (read_u16 m pa) (\<lambda>v. Inr (ucast v))
     else if sz = 4 then bind_res (read_u32 m pa) (\<lambda>v. Inr (ucast v))
     else read_u64 m pa)"

definition phys_write :: "('b, 'n, 's, 'i) cpu_env \<Rightarrow> u8 \<Rightarrow> u64 \<Rightarrow> u64 \<Rightarrow> (('b, 'n, 's, 'i, 'r) cpu, unit) cpu_op" where
  "phys_write env sz pa v = mem_write_op (\<lambda>m.
     if sz = 1 then write_u8 (env_net env) m pa (ucast v)
     else if sz = 2 then write_u16 (env_net env) m pa (ucast v)
     else if sz = 4 then write_u32 (env_net env) m pa (ucast v)
     else write_u64 (env_net env) m pa v)"

definition bit_updated :: "string \<Rightarrow> u64 \<Rightarrow> u64 \<Rightarrow> u64" where
  "bit_updated m value one =
     (if m = ''Bts'' then value OR one else if m = ''Btr'' then value AND NOT one else value XOR one)"

text \<open>A register offset into a bit string in memory: a signed displacement in units, and the bit.\<close>

definition bit_unit :: "u64 \<Rightarrow> u64 \<Rightarrow> u8 \<Rightarrow> u64 \<times> nat" where
  "bit_unit base raw sz =
     (let width = 8 * int (unat sz); offset = sign_extend raw sz
      in (base + word_of_int ((offset div width) * int (unat sz)), nat (offset mod width)))"

definition bit_test :: "('b, 'n, 's, 'i) cpu_env \<Rightarrow> 'i insn_ops \<Rightarrow> ('b, 'n, 's, 'i, 'r) insn_sem" where
  "bit_test env io ins c =
     (let m = ic_mnemonic (env_iced env) ins;
          sz = operand_size io ins 0;
          width_bits = 8 * unat sz;
          writes = (m \<noteq> ''Bt'') in
      if in_op_kind io ins 0 = KMemory then
        let base = effective_address env c ins;
            (address, k) = (if in_op_kind io ins 1 = KRegister
                            then bit_unit base (read_reg (c_regs c) (in_op_register io ins 1) sz) sz
                            else (base, unat (in_immediate io ins 1) mod width_bits)) in
        bind_op (translate env address (if writes then WriteAccess else ReadAccess)) (\<lambda>pa.
        bind_op (phys_read sz pa) (\<lambda>value.
        bind_op (regs_op (set_carry (value AND shl1 k \<noteq> 0))) (\<lambda>_.
        if writes then phys_write env sz pa (bit_updated m value (shl1 k)) else ret_op ()))) c
      else
        let k = unat (case in_op_kind io ins 1 of KImmediate8 \<Rightarrow> in_immediate io ins 1
                      | KRegister \<Rightarrow> read_reg (c_regs c) (in_op_register io ins 1) sz | _ \<Rightarrow> 0) mod width_bits;
            value = read_reg (c_regs c) (in_op_register io ins 0) sz
        in regs_op (\<lambda>r. let r = set_carry (value AND shl1 k \<noteq> 0) r
                        in if writes then write_reg (in_op_register io ins 0) sz (bit_updated m value (shl1 k)) r
                           else r) c)"

definition bit_scan_test :: "('b, 'n, 's, 'i) cpu_env \<Rightarrow> 'i insn_ops \<Rightarrow> ('b, 'n, 's, 'i, 'r) insn_sem" where
  "bit_scan_test env io ins =
     (let m = ic_mnemonic (env_iced env) ins in
      if m \<notin> {''Bsf'', ''Bsr'', ''Tzcnt'', ''Lzcnt''} then bit_test env io ins
      else bind_op (read_operand1 env io ins) (\<lambda>source.
             regs_op (bit_scan m (in_op_register io ins 0) (operand_size io ins 0) source)))"

end
