(* ===== verification/Ops_Branch.thy ===== *)
theory Ops_Branch
  imports Ops_Logic
begin

text \<open>
  Control flow, conditional moves and flag operations (\<open>ops/branch.rs\<close>), and the stack instructions
  (\<open>ops/stack.rs\<close>). The \<open>expect\<close> of the source on a mnemonic without a condition is \<open>HostPanic\<close>.
\<close>

section \<open>Conditions\<close>

datatype condition = CondO | CondNo | CondB | CondAe | CondE | CondNe | CondBe | CondA
  | CondS | CondNs | CondP | CondNp | CondL | CondGe | CondLe | CondG

definition condition_of :: "string \<Rightarrow> condition option" where
  "condition_of m = map_of (concat (map (\<lambda>(x, y, z, cond). [(x, cond), (y, cond), (z, cond)])
     [(''Jo'', ''Seto'', ''Cmovo'', CondO), (''Jno'', ''Setno'', ''Cmovno'', CondNo),
      (''Jb'', ''Setb'', ''Cmovb'', CondB), (''Jae'', ''Setae'', ''Cmovae'', CondAe),
      (''Je'', ''Sete'', ''Cmove'', CondE), (''Jne'', ''Setne'', ''Cmovne'', CondNe),
      (''Jbe'', ''Setbe'', ''Cmovbe'', CondBe), (''Ja'', ''Seta'', ''Cmova'', CondA),
      (''Js'', ''Sets'', ''Cmovs'', CondS), (''Jns'', ''Setns'', ''Cmovns'', CondNs),
      (''Jp'', ''Setp'', ''Cmovp'', CondP), (''Jnp'', ''Setnp'', ''Cmovnp'', CondNp),
      (''Jl'', ''Setl'', ''Cmovl'', CondL), (''Jge'', ''Setge'', ''Cmovge'', CondGe),
      (''Jle'', ''Setle'', ''Cmovle'', CondLe), (''Jg'', ''Setg'', ''Cmovg'', CondG)])) m"

definition condition_holds :: "condition \<Rightarrow> u64 \<Rightarrow> bool" where
  "condition_holds cond flags =
     (let cf = contains flags RFLAGS_CF; zf = contains flags RFLAGS_ZF; sf = contains flags RFLAGS_SF;
          ovf = contains flags RFLAGS_OF; pf = contains flags RFLAGS_PF in
      case cond of
        CondO \<Rightarrow> ovf | CondNo \<Rightarrow> \<not> ovf | CondB \<Rightarrow> cf | CondAe \<Rightarrow> \<not> cf | CondE \<Rightarrow> zf | CondNe \<Rightarrow> \<not> zf
      | CondBe \<Rightarrow> cf \<or> zf | CondA \<Rightarrow> \<not> cf \<and> \<not> zf | CondS \<Rightarrow> sf | CondNs \<Rightarrow> \<not> sf | CondP \<Rightarrow> pf | CondNp \<Rightarrow> \<not> pf
      | CondL \<Rightarrow> sf \<noteq> ovf | CondGe \<Rightarrow> sf = ovf | CondLe \<Rightarrow> zf \<or> sf \<noteq> ovf | CondG \<Rightarrow> \<not> zf \<and> sf = ovf)"

definition with_condition ::
  "('b, 'n, 's, 'i) cpu_env \<Rightarrow> 'i \<Rightarrow> (condition \<Rightarrow> ('c, 'a) cpu_op) \<Rightarrow> ('c, 'a) cpu_op" where
  "with_condition env ins f =
     (case condition_of (ic_mnemonic (env_iced env) ins) of
        Some cond \<Rightarrow> f cond
      | None \<Rightarrow> fail_op (HostPanic ''dispatch only routes condition codes here''))"

section \<open>Jumps\<close>

definition set_rip :: "u64 \<Rightarrow> (('b, 'n, 's, 'i, 'r) cpu, unit) cpu_op" where
  "set_rip target = regs_op (\<lambda>r. r\<lparr>r_rip := (case mode r of LongMode \<Rightarrow> target
      | Protected32 \<Rightarrow> target AND 0xFFFFFFFF | _ \<Rightarrow> target AND 0xFFFF)\<rparr>)"

definition unimplemented :: "string \<Rightarrow> (('b, 'n, 's, 'i, 'r) cpu, 'a) cpu_op" where
  "unimplemented code c = (Inl (UnimplementedInstruction code (r_rip (c_regs c)) []), c)"

text \<open>A far transfer loads CS by the current mode, then sets RIP.\<close>

definition far_transfer :: "('b, 'n, 's, 'i) cpu_env \<Rightarrow> u16 \<Rightarrow> u64 \<Rightarrow> (('b, 'n, 's, 'i, 'r) cpu, unit) cpu_op" where
  "far_transfer env selector offset =
     bind_op (load_code_segment env selector) (\<lambda>cs.
     bind_op (regs_op (\<lambda>r. r\<lparr>r_cs := cs\<rparr>)) (\<lambda>_. set_rip offset))"

definition counter_register :: "registers \<Rightarrow> nat" where
  "counter_register r = (case mode r of LongMode \<Rightarrow> REG_RCX | Protected32 \<Rightarrow> REG_ECX | _ \<Rightarrow> REG_CX)"

definition loop_counter :: "string \<Rightarrow> registers \<Rightarrow> bool \<times> registers" where
  "loop_counter m r =
     (let reg = counter_register r;
          r = write_reg reg 8 (read_reg r reg 8 - 1) r;
          nonzero = (read_reg r reg 8 \<noteq> 0);
          zf = contains (r_rflags r) RFLAGS_ZF
      in (if m = ''Loope'' then nonzero \<and> zf else if m = ''Loopne'' then nonzero \<and> \<not> zf else nonzero, r))"

definition op_jump :: "('b, 'n, 's, 'i) cpu_env \<Rightarrow> 'i insn_ops \<Rightarrow> ('b, 'n, 's, 'i, 'r) insn_sem" where
  "op_jump env io ins c =
     (let m = ic_mnemonic (env_iced env) ins; r = c_regs c; target = in_near_branch_target io ins in
      if m = ''Jmp'' then
        (case in_op_kind io ins 0 of
           KFarBranch \<Rightarrow> far_transfer env (in_far_branch_selector io ins) (ucast (in_far_branch32 io ins)) c
         | KNearBranch \<Rightarrow> set_rip target c
         | KMemory \<Rightarrow> bind_op (read_operand env ins (memory_size io ins)) set_rip c
         | KRegister \<Rightarrow> set_rip (read_reg r (in_op_register io ins 0) (operand_size io ins 0)) c
         | _ \<Rightarrow> unimplemented ''jmp'' c)
      else
        let branch = (\<lambda>taken c. if taken then set_rip target c else (Inr (), c)) in
        if m = ''Jcxz'' then branch (read_reg r REG_CX 2 = 0) c
        else if m = ''Jecxz'' then branch (read_reg r REG_ECX 4 = 0) c
        else if m = ''Jrcxz'' then branch (read_reg r REG_RCX 8 = 0) c
        else if m \<in> {''Loop'', ''Loope'', ''Loopne''} then
          (case loop_counter m r of (taken, r) \<Rightarrow> branch taken (c\<lparr>c_regs := r\<rparr>))
        else (Inr (), c))"

definition cmovcc :: "('b, 'n, 's, 'i) cpu_env \<Rightarrow> 'i insn_ops \<Rightarrow> ('b, 'n, 's, 'i, 'r) insn_sem" where
  "cmovcc env io ins = with_condition env ins (\<lambda>cond.
     bind_op (\<lambda>c. if in_op_kind io ins 1 = KMemory then read_operand env ins (memory_size io ins) c
                  else (Inr (read_reg (c_regs c) (in_op_register io ins 1) (operand_size io ins 1)), c))
       (\<lambda>value. regs_op (\<lambda>r.
          let dst = in_op_register io ins 0; sz = operand_size io ins 0 in
          if condition_holds cond (r_rflags r) then write_reg dst sz value r
          else if sz = 4 \<and> contains (r_efer r) EFER_LMA then write_reg dst 4 (read_reg r dst 4) r
          else r)))"

definition jcc :: "('b, 'n, 's, 'i) cpu_env \<Rightarrow> 'i insn_ops \<Rightarrow> ('b, 'n, 's, 'i, 'r) insn_sem" where
  "jcc env io ins = with_condition env ins (\<lambda>cond c.
     if condition_holds cond (r_rflags (c_regs c)) then set_rip (in_near_branch_target io ins) c else (Inr (), c))"

definition setcc :: "('b, 'n, 's, 'i) cpu_env \<Rightarrow> 'i insn_ops \<Rightarrow> ('b, 'n, 's, 'i, 'r) insn_sem" where
  "setcc env io ins = with_condition env ins (\<lambda>cond c.
     let value = of_bool (condition_holds cond (r_rflags (c_regs c))) in
     if in_op_kind io ins 0 = KMemory then write_operand env ins 1 value c
     else regs_op (write_reg (in_op_register io ins 0) 1 value) c)"

section \<open>Calls and returns\<close>

definition push_rip :: "('b, 'n, 's, 'i) cpu_env \<Rightarrow> (('b, 'n, 's, 'i, 'r) cpu, unit) cpu_op" where
  "push_rip env c = push_native env (r_rip (c_regs c)) c"

definition op_call :: "('b, 'n, 's, 'i) cpu_env \<Rightarrow> 'i insn_ops \<Rightarrow> ('b, 'n, 's, 'i, 'r) insn_sem" where
  "op_call env io ins c =
     (case in_op_kind io ins 0 of
        KFarBranch \<Rightarrow>
          bind_op (push_native env (ucast (seg_selector (r_cs (c_regs c))))) (\<lambda>_.
          bind_op (push_rip env) (\<lambda>_.
          far_transfer env (in_far_branch_selector io ins) (ucast (in_far_branch32 io ins)))) c
      | KNearBranch \<Rightarrow> bind_op (push_rip env) (\<lambda>_. set_rip (in_near_branch_target io ins)) c
      | KMemory \<Rightarrow>
          bind_op (read_operand env ins (memory_size io ins)) (\<lambda>target.
          bind_op (push_rip env) (\<lambda>_. set_rip target)) c
      | KRegister \<Rightarrow>
          bind_op (push_rip env)
            (\<lambda>_. set_rip (read_reg (c_regs c) (in_op_register io ins 0) (operand_size io ins 0))) c
      | _ \<Rightarrow> unimplemented ''call'' c)"

definition op_ret :: "('b, 'n, 's, 'i) cpu_env \<Rightarrow> 'i insn_ops \<Rightarrow> ('b, 'n, 's, 'i, 'r) insn_sem" where
  "op_ret env io ins =
     (let far = (in_op_kind io ins 0 = KFarBranch \<or> mnemonic_is env ins ''Retf'');
          extra = (if in_op_kind io ins 0 \<in> {KImmediate16, KImmediate8to16} then ucast (in_immediate16 io ins) else 0) in
      bind_op (pop_native env) (\<lambda>target.
      bind_op (if far then bind_op (pop_native env) (\<lambda>selector.
                 bind_op (load_code_segment env (ucast selector)) (\<lambda>cs. regs_op (\<lambda>r. r\<lparr>r_cs := cs\<rparr>)))
               else ret_op ()) (\<lambda>_.
      bind_op (regs_op (\<lambda>r. set_rsp (rsp r + extra) r)) (\<lambda>_. set_rip target))))"

section \<open>Flag operations\<close>

definition RFLAGS_ALL :: u64 where "RFLAGS_ALL = 0x3F7FD5"

definition sahf_mask :: u64 where
  "sahf_mask = RFLAGS_SF OR RFLAGS_ZF OR RFLAGS_AF OR RFLAGS_PF OR RFLAGS_CF"

definition flag_ops :: "('b, 'n, 's, 'i) cpu_env \<Rightarrow> ('b, 'n, 's, 'i, 'r) insn_sem" where
  "flag_ops env ins c =
     (let m = ic_mnemonic (env_iced env) ins in
      if m = ''Stc'' then regs_op (flag_set RFLAGS_CF True) c
      else if m = ''Clc'' then regs_op (flag_set RFLAGS_CF False) c
      else if m = ''Cmc'' then regs_op (\<lambda>r. r\<lparr>r_rflags := r_rflags r XOR RFLAGS_CF\<rparr>) c
      else if m = ''Cld'' then regs_op (flag_set RFLAGS_DF False) c
      else if m = ''Std'' then regs_op (flag_set RFLAGS_DF True) c
      else if m = ''Cli'' then regs_op (flag_set RFLAGS_IF False) c
      else if m = ''Sti'' then
        let c = (if contains (r_rflags (c_regs c)) RFLAGS_IF then c else c\<lparr>c_interrupt_shadow := True\<rparr>)
        in regs_op (flag_set RFLAGS_IF True) c
      else if m = ''Sahf'' then
        regs_op (\<lambda>r. r\<lparr>r_rflags := (r_rflags r AND NOT sahf_mask) OR (read_reg r REG_AH 1 AND RFLAGS_ALL)\<rparr>) c
      else if m = ''Lahf'' then
        regs_op (\<lambda>r. write_reg REG_AH 1 (ucast (ucast (r_rflags r AND sahf_mask) :: u8)) r) c
      else (Inr (), c))"

section \<open>Stack instructions\<close>

definition RBP :: nat where "RBP = 5"

definition set_segment :: "seg_name \<Rightarrow> segment_register \<Rightarrow> registers \<Rightarrow> registers" where
  "set_segment s v r = (case s of SegES \<Rightarrow> r\<lparr>r_es := v\<rparr> | SegCS \<Rightarrow> r\<lparr>r_cs := v\<rparr> | SegSS \<Rightarrow> r\<lparr>r_ss := v\<rparr>
     | SegDS \<Rightarrow> r\<lparr>r_ds := v\<rparr> | SegFS \<Rightarrow> r\<lparr>r_fs := v\<rparr> | SegGS \<Rightarrow> r\<lparr>r_gs := v\<rparr> | OtherRegister \<Rightarrow> r)"

definition push_value :: "'i insn_ops \<Rightarrow> ('b, 'n, 's, 'i) cpu_env \<Rightarrow> 'i \<Rightarrow> (('b, 'n, 's, 'i, 'r) cpu, u64) cpu_op" where
  "push_value io env ins c =
     (case in_op_kind io ins 0 of
        KImmediate8 \<Rightarrow> (Inr (scast (in_immediate8 io ins)), c)
      | KImmediate8to64 \<Rightarrow> (Inr (scast (in_immediate8 io ins)), c)
      | KImmediate8to16 \<Rightarrow> (Inr (scast (in_immediate8to16 io ins)), c)
      | KImmediate8to32 \<Rightarrow> (Inr (scast (in_immediate8to32 io ins)), c)
      | KImmediate16 \<Rightarrow> (Inr (ucast (in_immediate16 io ins)), c)
      | KImmediate32 \<Rightarrow> (Inr (scast (in_immediate32 io ins)), c)
      | KImmediate32to64 \<Rightarrow> (Inr (scast (in_immediate32 io ins)), c)
      | KMemory \<Rightarrow> read_operand env ins (memory_size io ins) c
      | _ \<Rightarrow> (Inr (read_reg (c_regs c) (in_op_register io ins 0) (operand_size io ins 0)), c))"

text \<open>\<open>enter_levels env frame level k\<close> copies the frame pointers of \<open>k\<close> levels from \<open>level\<close> on.\<close>

fun enter_levels :: "('b, 'n, 's, 'i) cpu_env \<Rightarrow> u64 \<Rightarrow> nat \<Rightarrow> nat \<Rightarrow> (('b, 'n, 's, 'i, 'r) cpu, unit) cpu_op" where
  "enter_levels env frame level 0 c = (Inr (), c)"
| "enter_levels env frame level (Suc k) c =
     (let width = (case mode (c_regs c) of LongMode \<Rightarrow> 8 | Protected32 \<Rightarrow> 4 | _ \<Rightarrow> 2) in
      bind_op (translate env (frame - of_nat level * width) ReadAccess) (\<lambda>pa.
      bind_op (mem_read_op (\<lambda>m. read_u64 m pa)) (\<lambda>v.
      bind_op (push_native env v) (\<lambda>_. enter_levels env frame (Suc level) k))) c)"

definition op_enter :: "('b, 'n, 's, 'i) cpu_env \<Rightarrow> 'i insn_ops \<Rightarrow> ('b, 'n, 's, 'i, 'r) insn_sem" where
  "op_enter env io ins c =
     (let frame_size = ucast (in_immediate io ins 0) :: u16;
          nesting = unat (ucast (in_immediate io ins 1) AND 0x1F :: u8);
          frame = r_gpr (c_regs c) ! RBP in
      bind_op (push_native env frame) (\<lambda>_ c.
      let frame_pointer = rsp (c_regs c) in
      bind_op (if nesting \<noteq> 0
               then bind_op (enter_levels env frame 1 (nesting - 1)) (\<lambda>_. push_native env frame_pointer)
               else ret_op ()) (\<lambda>_.
      regs_op (\<lambda>r. let r = r\<lparr>r_gpr := (r_gpr r)[RBP := frame_pointer]\<rparr> in set_rsp (rsp r - ucast frame_size) r)) c) c)"

definition pop_flags :: "u64 \<Rightarrow> registers \<Rightarrow> registers" where
  "pop_flags value r =
     (let b = (case mode r of LongMode \<Rightarrow> value | Protected32 \<Rightarrow> value AND 0xFFFFFFFF | _ \<Rightarrow> value AND 0xFFFF)
      in r\<lparr>r_rflags := (b AND RFLAGS_ALL) OR (r_rflags r AND RFLAGS_TF)\<rparr>)"

definition push_pop :: "('b, 'n, 's, 'i) cpu_env \<Rightarrow> 'i insn_ops \<Rightarrow> ('b, 'n, 's, 'i, 'r) insn_sem" where
  "push_pop env io ins c =
     (let m = ic_mnemonic (env_iced env) ins in
      if m \<in> {''Pushf'', ''Pushfq'', ''Pushfd''} then push_native env (r_rflags (c_regs c)) c
      else if m \<in> {''Popf'', ''Popfq'', ''Popfd''} then bind_op (pop_native env) (\<lambda>v. regs_op (pop_flags v)) c
      else if m = ''Enter'' then op_enter env io ins c
      else if m = ''Leave'' then
        bind_op (pop_native env) (\<lambda>v. regs_op (\<lambda>r. r\<lparr>r_gpr := (r_gpr r)[RBP := v]\<rparr>))
          (map_regs (\<lambda>r. set_rsp (r_gpr r ! RBP) r) c)
      else if m = ''Pop'' then
        (case in_op_special io ins 0 of
           SpSegment s \<Rightarrow>
             bind_op (pop_native env) (\<lambda>selector.
             bind_op (load_code_segment env (ucast selector)) (\<lambda>v. regs_op (set_segment s v))) c
         | _ \<Rightarrow>
             bind_op (pop_native env) (\<lambda>v.
             if in_op_kind io ins 0 = KMemory then write_operand env ins (memory_size io ins) v
             else regs_op (write_reg (in_op_register io ins 0) (operand_size io ins 0) v)) c)
      else if m = ''Push'' then
        (case in_op_special io ins 0 of
           SpSegment s \<Rightarrow> push_native env (ucast (segment_selector (c_regs c) s)) c
         | _ \<Rightarrow> bind_op (push_value io env ins) (push_native env) c)
      else (Inr (), c))"

end
