(* ===== verification/Net_Packet.thy ===== *)
theory Net_Packet
  imports Rish_Prelude
begin

text \<open>
  The wire formats of the user-mode network backend: Ethernet and ARP (\<open>net/ether.rs\<close>), IPv4, the
  internet checksum and ICMP echo (\<open>net/ipv4.rs\<close>), and TCP segments (\<open>net/tcp_segment.rs\<close>). MAC
  addresses are byte lists (\<open>[u8; 6]\<close>); a borrowed slice of a packet is the list of its bytes.
\<close>

section \<open>Network byte order\<close>

definition to_be :: "nat \<Rightarrow> 'a::len word \<Rightarrow> bytes" where
  "to_be n w = rev (to_le n w)"

definition from_be :: "bytes \<Rightarrow> 'a::len word" where
  "from_be bs = from_le (rev bs)"

datatype ipv4_addr = Ipv4Addr u8 u8 u8 u8

fun octets :: "ipv4_addr \<Rightarrow> bytes" where
  "octets (Ipv4Addr a b c d) = [a, b, c, d]"

section \<open>Ethernet and ARP\<close>

definition BROADCAST_MAC :: bytes where "BROADCAST_MAC = replicate 6 0xFF"

definition ether_parse :: "bytes \<Rightarrow> (bytes \<times> u16 \<times> bytes) option" where
  "ether_parse fr =
     (if length fr < 14 then None
      else Some (slice 0 6 fr, from_be [fr ! 12, fr ! 13], drop 14 fr))"

definition for_us :: "bytes \<Rightarrow> bytes \<Rightarrow> bytes \<Rightarrow> bool" where
  "for_us dst mac gateway_mac \<longleftrightarrow> dst = mac \<or> dst = gateway_mac \<or> dst = BROADCAST_MAC"

definition ether_frame :: "bytes \<Rightarrow> bytes \<Rightarrow> u16 \<Rightarrow> bytes \<Rightarrow> bytes" where
  "ether_frame dst src ethertype payload = dst @ src @ to_be 2 ethertype @ payload"

definition parse_arp_request :: "bytes \<Rightarrow> (bytes \<times> ipv4_addr \<times> ipv4_addr) option" where
  "parse_arp_request p =
     (if length p < 28 then None
      else if (from_be [p ! 0, p ! 1] :: u16) \<noteq> 1 then None
      else if (from_be [p ! 2, p ! 3] :: u16) \<noteq> 0x0800 then None
      else if p ! 4 \<noteq> 6 \<or> p ! 5 \<noteq> 4 then None
      else if (from_be [p ! 6, p ! 7] :: u16) \<noteq> 1 then None
      else Some (slice 8 6 p, Ipv4Addr (p ! 14) (p ! 15) (p ! 16) (p ! 17),
                 Ipv4Addr (p ! 24) (p ! 25) (p ! 26) (p ! 27)))"

definition build_arp_reply :: "bytes \<Rightarrow> ipv4_addr \<Rightarrow> bytes \<Rightarrow> ipv4_addr \<Rightarrow> bytes option" where
  "build_arp_reply mac gateway_ip sender_mac sender_ip =
     (let arp = [0x00, 0x01] @ [0x08, 0x00] @ [6] @ [4] @ [0x00, 0x02] @ mac @ octets gateway_ip
                @ sender_mac @ octets sender_ip
      in Some (ether_frame sender_mac mac 0x0806 arp))"

section \<open>IPv4\<close>

definition PROTOCOL_ICMP :: u8 where "PROTOCOL_ICMP = 1"
definition PROTOCOL_TCP :: u8 where "PROTOCOL_TCP = 6"
definition PROTOCOL_UDP :: u8 where "PROTOCOL_UDP = 17"
definition DEFAULT_TTL :: u8 where "DEFAULT_TTL = 64"

record ipv4_packet =
  ip_header :: bytes
  ip_src :: ipv4_addr
  ip_dst :: ipv4_addr
  ip_protocol :: u8
  ip_more_fragments :: bool
  ip_fragment_offset :: u16
  ip_payload :: bytes

definition ipv4_parse :: "bytes \<Rightarrow> ipv4_packet option" where
  "ipv4_parse d =
     (if length d < 20 \<or> drop_bit 4 (d ! 0) \<noteq> 4 then None
      else let ihl = unat (d ! 0 AND 0x0F) * 4 in
           if ihl < 20 \<or> length d < ihl then None
           else let total = unat (from_be [d ! 2, d ! 3] :: u16) in
                if total < ihl \<or> length d < total then None
                else let flags_fragment = (from_be [d ! 6, d ! 7] :: u16)
                     in Some \<lparr>ip_header = take ihl d,
                          ip_src = Ipv4Addr (d ! 12) (d ! 13) (d ! 14) (d ! 15),
                          ip_dst = Ipv4Addr (d ! 16) (d ! 17) (d ! 18) (d ! 19),
                          ip_protocol = d ! 9,
                          ip_more_fragments = (flags_fragment AND 0x2000 \<noteq> 0),
                          ip_fragment_offset = flags_fragment AND 0x1FFF,
                          ip_payload = slice ihl (total - ihl) d\<rparr>)"

text \<open>The loop over \<open>data.chunks(2)\<close> both checksums run, from the sum \<open>s\<close>.\<close>

definition fold_carry :: "u32 \<Rightarrow> u32" where
  "fold_carry s = (s AND 0xFFFF) + drop_bit 16 s"

fun checksum_chunks :: "u32 \<Rightarrow> bytes \<Rightarrow> u32" where
  "checksum_chunks s [] = s"
| "checksum_chunks s [b] = fold_carry (s + push_bit 8 (ucast b))"
| "checksum_chunks s (a # b # bs) = checksum_chunks (fold_carry (s + ucast (from_be [a, b] :: u16))) bs"

definition checksum :: "bytes \<Rightarrow> u16" where
  "checksum d = NOT (ucast (checksum_chunks 0 d))"

definition header_checksum_ok :: "bytes \<Rightarrow> bool" where
  "header_checksum_ok header \<longleftrightarrow> checksum header = 0"

definition build_header :: "nat \<Rightarrow> u8 \<Rightarrow> ipv4_addr \<Rightarrow> ipv4_addr \<Rightarrow> u16 \<Rightarrow> bytes" where
  "build_header total_length protocol src dst identification =
     (let header = replicate 20 0;
          header = header[0 := 0x45];
          header = splice 2 (to_be 2 (of_nat total_length :: u16)) header;
          header = splice 4 (to_be 2 identification) header;
          header = header[8 := DEFAULT_TTL];
          header = header[9 := protocol];
          header = splice 12 (octets src) header;
          header = splice 16 (octets dst) header
      in splice 10 (to_be 2 (checksum header)) header)"

definition addr_words :: "ipv4_addr \<Rightarrow> u32" where
  "addr_words a = ucast (from_be (take 2 (octets a)) :: u16) + ucast (from_be (drop 2 (octets a)) :: u16)"

definition transport_checksum :: "ipv4_addr \<Rightarrow> ipv4_addr \<Rightarrow> u8 \<Rightarrow> bytes \<Rightarrow> u16" where
  "transport_checksum src dst protocol segment =
     (let sum = addr_words src + addr_words dst + ucast protocol + of_nat (length segment);
          sum = checksum_chunks sum segment
      in NOT (ucast (fold_carry sum)))"

definition wrap_udp :: "ipv4_addr \<Rightarrow> ipv4_addr \<Rightarrow> u16 \<Rightarrow> u16 \<Rightarrow> bytes \<Rightarrow> u16 \<Rightarrow> bytes" where
  "wrap_udp src dst src_port dst_port payload identification =
     (let udp = to_be 2 src_port @ to_be 2 dst_port @ to_be 2 (of_nat (8 + length payload) :: u16)
                @ [0, 0] @ payload;
          udp = splice 6 (to_be 2 (transport_checksum src dst PROTOCOL_UDP udp)) udp
      in build_header (20 + length udp) PROTOCOL_UDP src dst identification @ udp)"

definition wrap_tcp :: "ipv4_addr \<Rightarrow> ipv4_addr \<Rightarrow> bytes \<Rightarrow> u16 \<Rightarrow> bytes" where
  "wrap_tcp src dst segment identification =
     (let tcp = splice 16 (to_be 2 (transport_checksum src dst PROTOCOL_TCP segment)) segment
      in build_header (20 + length tcp) PROTOCOL_TCP src dst identification @ tcp)"

definition next_identification :: "u16 \<Rightarrow> u16 \<times> u16" where
  "next_identification identification = (identification, identification + 1)"

text \<open>The reply and the advanced identification counter.\<close>

definition icmp_echo_reply :: "ipv4_packet \<Rightarrow> u16 \<Rightarrow> bytes option \<times> u16" where
  "icmp_echo_reply packet identification =
     (let payload = ip_payload packet in
      if length payload < 8 \<or> payload ! 0 \<noteq> 8 \<or> payload ! 1 \<noteq> 0 then (None, identification)
      else if checksum payload \<noteq> 0 then (None, identification)
      else let icmp = [0] @ [0] @ [0, 0] @ drop 4 payload;
               icmp = splice 2 (to_be 2 (checksum icmp)) icmp;
               (i, identification) = next_identification identification;
               header = build_header (20 + length icmp) PROTOCOL_ICMP (ip_dst packet) (ip_src packet) i
           in (Some (header @ icmp), identification))"

section \<open>TCP segments\<close>

definition FLAG_FIN :: u8 where "FLAG_FIN = 0x01"
definition FLAG_SYN :: u8 where "FLAG_SYN = 0x02"
definition FLAG_RST :: u8 where "FLAG_RST = 0x04"
definition FLAG_ACK :: u8 where "FLAG_ACK = 0x10"
definition OUR_MSS :: u16 where "OUR_MSS = 1460"

record segment =
  sg_sport :: u16
  sg_dport :: u16
  sg_seq :: u32
  sg_ack :: u32
  sg_flags :: u8
  sg_window :: u16
  sg_options :: bytes
  sg_payload :: bytes

definition parse_segment :: "bytes \<Rightarrow> segment option" where
  "parse_segment d =
     (if length d < 20 then None
      else let data_offset = unat (drop_bit 4 (d ! 12)) * 4 in
           if data_offset < 20 \<or> length d < data_offset then None
           else Some \<lparr>sg_sport = from_be [d ! 0, d ! 1], sg_dport = from_be [d ! 2, d ! 3],
                  sg_seq = from_be (slice 4 4 d), sg_ack = from_be (slice 8 4 d), sg_flags = d ! 13,
                  sg_window = from_be [d ! 14, d ! 15], sg_options = slice 20 (data_offset - 20) d,
                  sg_payload = drop data_offset d\<rparr>)"

definition segment_checksum_ok :: "ipv4_packet \<Rightarrow> bytes \<Rightarrow> bool" where
  "segment_checksum_ok packet d \<longleftrightarrow>
     transport_checksum (ip_src packet) (ip_dst packet) PROTOCOL_TCP (splice 16 [0, 0] d)
       = from_be [d ! 16, d ! 17]"

definition build_segment ::
  "u16 \<Rightarrow> u16 \<Rightarrow> u32 \<Rightarrow> u32 \<Rightarrow> u8 \<Rightarrow> u16 \<Rightarrow> bytes \<Rightarrow> bytes \<Rightarrow> bytes" where
  "build_segment sport dport sq ack flags window options payload =
     (let data_offset = (of_nat (5 + length options div 4) :: u8)
      in to_be 2 sport @ to_be 2 dport @ to_be 4 sq @ to_be 4 ack @ [push_bit 4 data_offset] @ [flags]
         @ to_be 2 window @ [0, 0] @ [0, 0] @ options @ payload)"

function parse_mss_from :: "bytes \<Rightarrow> nat \<Rightarrow> u16 option" where
  "parse_mss_from options index =
     (if length options \<le> index then None
      else let kind = options ! index in
           if kind = 0 then None
           else if kind = 1 then parse_mss_from options (index + 1)
           else if kind = 2 then
             (if index + 4 \<le> length options \<and> options ! (index + 1) = 4
              then Some (from_be [options ! (index + 2), options ! (index + 3)]) else None)
           else let len = (if index + 1 < length options then unat (options ! (index + 1)) else 0) in
                if len < 2 \<or> length options < index + len then None
                else parse_mss_from options (index + len))"
  by pat_completeness auto
termination
  by (relation "measure (\<lambda>(options, index). length options - index)") (auto split: if_splits)

definition parse_mss :: "bytes \<Rightarrow> u16 option" where
  "parse_mss options = parse_mss_from options 0"

declare parse_mss_from.simps [simp del]

end
