(* ===== verification/Net_Packet_Correct.thy ===== *)
theory Net_Packet_Correct
  imports Net_Packet
begin

text \<open>
  Correctness of the wire formats: the internet checksum loop computes the one's complement sum of
  RFC 1071, packets built by the backend verify under it, and the parsers invert the builders.
\<close>

section \<open>Byte order\<close>

lemma to_be_2: "to_be 2 (w :: 'a::len word) = [ucast (drop_bit 8 w), ucast w]"
  by (simp add: to_be_def to_le_def numeral_eq_Suc)

lemma to_be_4:
  "to_be 4 (w :: 'a::len word) = [ucast (drop_bit 24 w), ucast (drop_bit 16 w), ucast (drop_bit 8 w), ucast w]"
  by (simp add: to_be_def to_le_def numeral_eq_Suc)

lemma length_to_be [simp]: "length (to_be n w) = n"
  by (simp add: to_be_def)

lemma length_octets [simp]: "length (octets a) = 4"
  by (cases a) simp

lemma from_be_to_be: "8 * n = LENGTH('a::len) \<Longrightarrow> from_be (to_be n (w :: 'a word)) = w"
  by (simp add: from_be_def to_be_def from_le_to_le)

lemma from_be_2 [simp]: "from_be [ucast (drop_bit 8 w), ucast w] = (w :: u16)"
  using from_be_to_be [of 2 w] by (simp add: to_be_2)

lemma from_be_4 [simp]:
  "from_be [ucast (drop_bit 24 w), ucast (drop_bit 16 w), ucast (drop_bit 8 w), ucast w] = (w :: u32)"
  using from_be_to_be [of 4 w] by (simp add: to_be_4)

lemma unat_from_be_2: "unat (from_be [a, b] :: u16) = 256 * unat a + unat b"
proof -
  have "(from_be [a, b] :: u16) = of_nat (256 * unat a + unat b)"
  proof -
    have "(from_be [a, b] :: u16) = ucast b OR push_bit 8 (ucast a)"
      by (simp add: from_be_def)
    also have "\<dots> = ucast b + push_bit 8 (ucast a)"
    proof (rule disjunctive_add [symmetric])
      fix n
      show "\<not> bit (ucast b :: u16) n \<or> \<not> bit (push_bit 8 (ucast a) :: u16) n"
        by (auto simp: bit_unsigned_iff bit_push_bit_iff dest: bit_imp_le_length)
    qed
    finally show ?thesis by (simp add: push_bit_eq_mult mult.commute)
  qed
  moreover have "256 * unat a + unat b < 2 ^ LENGTH(16)"
    using unat_bound [of a] unat_bound [of b] by simp
  ultimately show ?thesis by (simp only: unat_of_nat_small)
qed

section \<open>The one's complement sum\<close>

fun word_sum :: "bytes \<Rightarrow> nat" where
  "word_sum [] = 0"
| "word_sum [b] = 256 * unat b"
| "word_sum (a # b # bs) = 256 * unat a + unat b + word_sum bs"

text \<open>The value of RFC 1071 for the sum \<open>n\<close> of the words: 16 bits with end-around carry.\<close>

definition onesum :: "nat \<Rightarrow> nat" where
  "onesum n = (if n = 0 then 0 else if n mod 65535 = 0 then 65535 else n mod 65535)"

lemma onesum_unique:
  "r \<le> 65535 \<Longrightarrow> r mod 65535 = n mod 65535 \<Longrightarrow> (r = 0 \<longleftrightarrow> n = 0) \<Longrightarrow> r = onesum n"
  by (cases "r = 65535") (auto simp: onesum_def)

lemma onesum_le: "onesum n \<le> 65535"
proof -
  have "n mod 65535 < 65535" by simp
  then show ?thesis unfolding onesum_def by (auto intro: less_imp_le)
qed

lemma onesum_cong: "onesum n mod 65535 = n mod 65535"
  by (simp add: onesum_def)

lemma word_sum_append: "even (length xs) \<Longrightarrow> word_sum (xs @ ys) = word_sum xs + word_sum ys"
  by (induction xs rule: word_sum.induct) auto

lemma unat_fold_carry: "unat (fold_carry s) = unat s mod 65536 + unat s div 65536"
proof -
  have m: "unat (s AND 0xFFFF) = unat s mod 65536"
  proof -
    have "s AND 0xFFFF = take_bit 16 s" by (simp only: take_bit_eq_mask mask_eq_exp_minus_1) simp
    then show ?thesis by (simp add: take_bit_eq_mod unat_mod)
  qed
  have d: "unat (drop_bit 16 s) = unat s div 65536"
    by (simp add: drop_bit_eq_div unat_div)
  have "unat s div 65536 < 65536" using unat_bound [of s] by (simp add: less_mult_imp_div_less)
  moreover have "unat s mod 65536 < 65536" by simp
  ultimately show ?thesis unfolding fold_carry_def by (subst unat_add_no_wrap) (simp_all add: m d)
qed

lemma fold_carry_props:
  "unat (fold_carry s) mod 65535 = unat s mod 65535"
  "unat (fold_carry s) = 0 \<longleftrightarrow> unat s = 0"
  "unat s \<le> 0x1FFFE \<Longrightarrow> unat (fold_carry s) \<le> 0xFFFF"
  "unat s \<le> 0x2000E \<Longrightarrow> unat (fold_carry s) \<le> 0x10000"
  "unat s \<le> 0x10FFFF \<Longrightarrow> unat (fold_carry s) \<le> 0x1000F"
proof -
  let ?n = "unat s"
  have split: "?n = 65535 * (?n div 65536) + (?n mod 65536 + ?n div 65536)"
    using div_mult_mod_eq [of ?n 65536] by simp
  have "(65535 * (?n div 65536) + (?n mod 65536 + ?n div 65536)) mod 65535 = (?n mod 65536 + ?n div 65536) mod 65535"
    by (rule mod_mult_self4)
  with split show "unat (fold_carry s) mod 65535 = ?n mod 65535"
    unfolding unat_fold_carry by simp
  show "unat (fold_carry s) = 0 \<longleftrightarrow> ?n = 0"
    unfolding unat_fold_carry using split by auto
  define q r where "q = ?n div 65536" and "r = ?n mod 65536"
  then have "?n = 65536 * q + r" "r < 65536" by simp_all
  then show "?n \<le> 0x1FFFE \<Longrightarrow> unat (fold_carry s) \<le> 0xFFFF"
    "?n \<le> 0x2000E \<Longrightarrow> unat (fold_carry s) \<le> 0x10000"
    "?n \<le> 0x10FFFF \<Longrightarrow> unat (fold_carry s) \<le> 0x1000F"
    unfolding unat_fold_carry q_def [symmetric] r_def [symmetric] by arith+
qed

lemma word_value_bound: "256 * unat (a :: u8) + unat (b :: u8) \<le> 65535"
  using unat_bound [of a] unat_bound [of b] by simp

lemma chunk_values:
  fixes s :: u32
  assumes "unat s \<le> 0xFFFFF"
  shows "unat (s + ucast (from_be [a, b] :: u16)) = unat s + (256 * unat a + unat b)"
    "unat (s + push_bit 8 (ucast b)) = unat s + 256 * unat b"
proof -
  have "unat (ucast (from_be [a, b] :: u16) :: u32) = 256 * unat a + unat b"
    by (simp add: unat_ucast_up unat_from_be_2)
  then show "unat (s + ucast (from_be [a, b] :: u16)) = unat s + (256 * unat a + unat b)"
    using assms word_value_bound [of a b] by (subst unat_add_no_wrap) simp_all
  have "unat (push_bit 8 (ucast b) :: u32) = 256 * unat b"
    using unat_bound [of b] by (simp add: push_bit_eq_mult unat_mult_no_wrap unat_ucast_up)
  then show "unat (s + push_bit 8 (ucast b)) = unat s + 256 * unat b"
    using assms unat_bound [of b] by (subst unat_add_no_wrap) simp_all
qed

lemma chunks_congruent:
  assumes "unat s \<le> 0xFFFFF"
  shows "unat (checksum_chunks s bs) mod 65535 = (unat s + word_sum bs) mod 65535
    \<and> (unat (checksum_chunks s bs) = 0 \<longleftrightarrow> unat s + word_sum bs = 0)
    \<and> (bs \<noteq> [] \<longrightarrow> unat (checksum_chunks s bs) \<le> 0x1000F)
    \<and> (unat s \<le> 0xFFFF \<longrightarrow> unat (checksum_chunks s bs) \<le> 0xFFFF)"
  using assms
proof (induction s bs rule: checksum_chunks.induct)
  case (1 s)
  then show ?case by simp
next
  case (2 s b)
  have v: "unat (s + push_bit 8 (ucast b)) = unat s + 256 * unat b"
    using 2 by (rule chunk_values)
  note p = fold_carry_props [of "s + push_bit 8 (ucast b)", unfolded v]
  have "unat s + 256 * unat b \<le> 0x10FFFF" "unat s \<le> 0xFFFF \<Longrightarrow> unat s + 256 * unat b \<le> 0x1FFFE"
    using 2 unat_bound [of b] by simp_all
  with p show ?case by (simp del: add_eq_0_iff_both_eq_0)
next
  case (3 s a b bs)
  let ?w = "256 * unat a + unat b"
  define t where "t = fold_carry (s + ucast (from_be [a, b] :: u16))"
  have v: "unat (s + ucast (from_be [a, b] :: u16)) = unat s + ?w"
    using 3(2) by (rule chunk_values)
  note p = fold_carry_props [of "s + ucast (from_be [a, b] :: u16)", unfolded v, folded t_def]
  have le: "unat t \<le> 0x1000F" "unat s \<le> 0xFFFF \<Longrightarrow> unat t \<le> 0xFFFF"
    using p(3,5) 3(2) word_value_bound [of a b] by simp_all
  have m: "(unat t + word_sum bs) mod 65535 = (unat s + ?w + word_sum bs) mod 65535"
    using p(1) by (rule mod_add_cong) (rule refl)
  have z: "unat t + word_sum bs = 0 \<longleftrightarrow> unat s + ?w + word_sum bs = 0"
    using p(2) by linarith
  have "unat t \<le> 0xFFFFF" using le(1) by simp
  note IH = 3(1) [folded t_def, OF this]
  have e: "checksum_chunks s (a # b # bs) = checksum_chunks t bs" "unat s + word_sum (a # b # bs) = unat s + ?w + word_sum bs"
    by (simp_all add: t_def)
  have "bs = [] \<Longrightarrow> checksum_chunks t bs = t" by simp
  with IH le(1) have c: "unat (checksum_chunks t bs) \<le> 0x1000F" by metis
  show ?case unfolding e m [symmetric] z [symmetric] using IH le(2) c by metis
qed

lemma unat_not: "unat (NOT w) = 2 ^ LENGTH('a) - 1 - unat w" for w :: "'a::len word"
proof -
  have "NOT w = - 1 - w" by (simp add: not_eq_complement)
  moreover have "unat (- 1 - w) = unat (- 1 :: 'a word) - unat w"
    by (rule unat_sub) simp
  ultimately show ?thesis by (simp add: unsigned_minus_1_eq_mask mask_eq_exp_minus_1)
qed

lemma unat_checksum: "unat (checksum bs) = 65535 - onesum (word_sum bs)"
proof -
  let ?r = "checksum_chunks 0 bs"
  have "unat ?r \<le> 65535" "unat ?r = onesum (word_sum bs)"
    using chunks_congruent [of 0 bs] by (auto intro!: onesum_unique)
  then have "unat (ucast ?r :: u16) = onesum (word_sum bs)" by (simp add: unat_ucast_mod)
  then show ?thesis unfolding checksum_def by (simp add: unat_not)
qed

lemma checksum_zero_iff: "checksum bs = 0 \<longleftrightarrow> 0 < word_sum bs \<and> word_sum bs mod 65535 = 0"
proof -
  have "checksum bs = 0 \<longleftrightarrow> unat (checksum bs) = 0" by (simp add: unat_eq_0)
  also have "\<dots> \<longleftrightarrow> 65535 \<le> onesum (word_sum bs)" unfolding unat_checksum by simp
  also have "\<dots> \<longleftrightarrow> 0 < word_sum bs \<and> word_sum bs mod 65535 = 0"
  proof -
    have "word_sum bs mod 65535 < 65535" by simp
    then show ?thesis unfolding onesum_def by (auto simp del: mod_less_divisor)
  qed
  finally show ?thesis .
qed

text \<open>The words of the pseudo header that a transport checksum covers.\<close>

definition pseudo_sum :: "ipv4_addr \<Rightarrow> ipv4_addr \<Rightarrow> u8 \<Rightarrow> nat \<Rightarrow> nat" where
  "pseudo_sum src dst protocol n = word_sum (octets src) + word_sum (octets dst) + unat protocol + n"

lemma unat_addr_words: "unat (addr_words x) = word_sum (octets x) \<and> word_sum (octets x) \<le> 131070"
proof (cases x)
  case (Ipv4Addr a b c d)
  have "unat (ucast (from_be [a, b] :: u16) :: u32) = 256 * unat a + unat b"
    "unat (ucast (from_be [c, d] :: u16) :: u32) = 256 * unat c + unat d"
    by (simp_all add: unat_ucast_up unat_from_be_2)
  with word_value_bound [of a b] word_value_bound [of c d] show ?thesis
    by (simp add: Ipv4Addr addr_words_def unat_add_no_wrap)
qed

lemma unat_transport_checksum:
  assumes "length seg < 65536" "seg \<noteq> []"
  shows "unat (transport_checksum src dst protocol seg) = 65535 - onesum (pseudo_sum src dst protocol (length seg) + word_sum seg)"
proof -
  define s where "s = addr_words src + addr_words dst + ucast protocol + (of_nat (length seg) :: u32)"
  have s: "unat s = pseudo_sum src dst protocol (length seg)" "unat s \<le> 0xFFFFF"
    using unat_addr_words [of src] unat_addr_words [of dst] unat_bound [of protocol] assms(1)
    by (simp_all add: s_def pseudo_sum_def unat_add_no_wrap unat_ucast_up unat_of_nat_small)
  let ?r = "fold_carry (checksum_chunks s seg)"
  have c: "unat (checksum_chunks s seg) \<le> 0x1000F" using chunks_congruent [OF s(2)] assms(2) by blast
  then have "unat ?r \<le> 65535" using fold_carry_props(3) by simp
  moreover have "unat ?r = onesum (pseudo_sum src dst protocol (length seg) + word_sum seg)"
    using fold_carry_props(1,2) [of "checksum_chunks s seg"] chunks_congruent [OF s(2), of seg] s(1) calculation
    by (intro onesum_unique) metis+
  ultimately show ?thesis
    unfolding transport_checksum_def Let_def s_def [symmetric] by (simp add: unat_not unat_ucast_mod)
qed

section \<open>Inserted checksums verify\<close>

lemma word_sum_be [simp]: "word_sum (to_be 2 (c :: u16)) = unat c"
  using unat_from_be_2 [of "ucast (drop_bit 8 c)" "ucast c"] by (simp add: to_be_2)

lemma word_sum_insert:
  assumes "even k" "k + 2 \<le> length xs" "slice k 2 xs = [0, 0]"
  shows "word_sum (splice k (to_be 2 (c :: u16)) xs) = word_sum xs + unat c"
proof -
  have "xs = take k xs @ [0, 0] @ drop (k + 2) xs"
    using assms(3) by (metis append_take_drop_id slice_def drop_drop add.commute)
  then have "word_sum xs = word_sum (take k xs) + word_sum (drop (k + 2) xs)"
    using assms(1,2) by (metis (no_types, lifting) add_0 length_take min.absorb2 add_leD1 word_sum_append
        word_sum.simps(3) append_Cons append_Nil mult_0_right unsigned_0)
  moreover have "word_sum (splice k (to_be 2 c) xs) = word_sum (take k xs) + (unat c + word_sum (drop (k + 2) xs))"
    using assms(1,2) by (simp add: splice_def word_sum_append)
  ultimately show ?thesis by simp
qed

lemma checksum_inserted:
  assumes "even k" "k + 2 \<le> length xs" "slice k 2 xs = [0, 0]"
  shows "checksum (splice k (to_be 2 (checksum xs)) xs) = 0"
proof -
  let ?n = "word_sum xs"
  have "word_sum (splice k (to_be 2 (checksum xs)) xs) = ?n + (65535 - onesum ?n)"
    using word_sum_insert [OF assms] unat_checksum by simp
  moreover have "(?n + (65535 - onesum ?n)) mod 65535 = (onesum ?n + (65535 - onesum ?n)) mod 65535"
    using onesum_cong [symmetric] by (rule mod_add_cong) (rule refl)
  moreover have "onesum ?n + (65535 - onesum ?n) = 65535" using onesum_le [of ?n] by simp
  moreover have "0 < ?n + (65535 - onesum ?n)" by (cases "?n = 0") (simp add: onesum_def, simp)
  ultimately show ?thesis unfolding checksum_zero_iff by simp
qed

lemma build_header_shape:
  "build_header n protocol src dst i =
     [0x45, 0] @ to_be 2 (of_nat n :: u16) @ to_be 2 i @ [0, 0, 64, protocol]
      @ to_be 2 (checksum ([0x45, 0] @ to_be 2 (of_nat n :: u16) @ to_be 2 i @ [0, 0, 64, protocol, 0, 0] @ octets src @ octets dst))
      @ octets src @ octets dst"
  unfolding build_header_def Let_def to_be_2 DEFAULT_TTL_def
  by (cases src; cases dst) (simp add: splice_def numeral_eq_Suc)

lemma build_header_ok: "header_checksum_ok (build_header n protocol src dst i)"
proof -
  let ?h = "[0x45, 0] @ to_be 2 (of_nat n :: u16) @ to_be 2 i @ [0, 0, 64, protocol, 0, 0] @ octets src @ octets dst"
  have "build_header n protocol src dst i = splice 10 (to_be 2 (checksum ?h)) ?h"
    unfolding build_header_shape to_be_2 by (cases src; cases dst) (simp add: splice_def numeral_eq_Suc)
  moreover have "slice 10 2 ?h = [0, 0]"
    unfolding to_be_2 by (cases src; cases dst) (simp add: slice_def numeral_eq_Suc)
  ultimately show ?thesis using checksum_inserted [of 10 ?h] by (simp add: header_checksum_ok_def)
qed

lemma length_build_header [simp]: "length (build_header n protocol src dst i) = 20"
  by (simp add: build_header_shape)

text \<open>A packet of the backend parses back into its addresses, protocol and payload.\<close>

lemma ipv4_parse_built:
  assumes "n = 20 + length payload" "n < 65536"
  shows "ipv4_parse (build_header n protocol src dst i @ payload) =
    Some \<lparr>ip_header = build_header n protocol src dst i, ip_src = src, ip_dst = dst, ip_protocol = protocol,
      ip_more_fragments = False, ip_fragment_offset = 0, ip_payload = payload\<rparr>"
proof -
  define h where "h = build_header n protocol src dst i"
  have len: "length h = 20" by (simp add: h_def)
  have nth: "h ! 0 = 0x45" "h ! 2 = ucast (drop_bit 8 (of_nat n :: u16))" "h ! 3 = ucast (of_nat n :: u16)"
    "h ! 6 = 0" "h ! 7 = 0" "h ! 9 = protocol"
    "Ipv4Addr (h ! 12) (h ! 13) (h ! 14) (h ! 15) = src" "Ipv4Addr (h ! 16) (h ! 17) (h ! 18) (h ! 19) = dst"
    unfolding h_def build_header_shape by (cases src; cases dst; simp add: to_be_2)+
  have "unat (of_nat n :: u16) = n" using assms(2) by (simp add: unat_of_nat_small)
  moreover have "(from_be [0, 0] :: u16) = 0" by (simp add: from_be_def)
  moreover have "drop_bit 4 (0x45 :: u8) = 4" "unat ((0x45 :: u8) AND 0x0F) = 5" by simp_all
  ultimately show ?thesis
    unfolding ipv4_parse_def h_def [symmetric]
    by (simp add: nth_append len nth assms(1) [symmetric] Let_def slice_def) (simp add: assms(1) len)
qed

section \<open>TCP segments\<close>

lemma length_build_segment [simp]:
  "length (build_segment sport dport sq ack flags window options payload) = 20 + length options + length payload"
  by (simp add: build_segment_def Let_def)

lemma splice_splice_same:
  assumes "length ys = length zs" "a + length ys \<le> length xs"
  shows "splice a ys (splice a zs xs) = splice a ys xs"
  using assms by (simp add: splice_def)

text \<open>Inserting a checksum at offset 16 keeps every field of a built segment.\<close>

lemma parse_built_segment:
  fixes c :: u16
  assumes "length options mod 4 = 0" "length options \<le> 40"
    and seg_def: "seg = build_segment sport dport sq ack flags window options payload"
  shows "parse_segment (splice 16 (to_be 2 c) seg) =
     Some \<lparr>sg_sport = sport, sg_dport = dport, sg_seq = sq, sg_ack = ack, sg_flags = flags,
       sg_window = window, sg_options = options, sg_payload = payload\<rparr>"
    "splice 16 [0, 0] (splice 16 (to_be 2 c) seg) = seg"
    "slice 16 2 seg = [0, 0]"
    "from_be [splice 16 (to_be 2 c) seg ! 16, splice 16 (to_be 2 c) seg ! 17] = c"
proof -
  have len: "20 \<le> length seg" by (simp add: seg_def)
  define k where "k = 5 + length options div 4"
  have k: "k < 16" "\<not> k < 5" "k * 4 = 20 + length options" using assms(1,2) by (auto simp: k_def)
  have off: "unat (drop_bit 4 (push_bit 4 (of_nat k :: u8))) = k"
  proof -
    have "push_bit 4 (of_nat k :: u8) = of_nat (16 * k)" by (simp add: push_bit_eq_mult mult.commute)
    moreover have "16 * k < 2 ^ LENGTH(8)" using k(1) by simp
    ultimately have "unat (push_bit 4 (of_nat k :: u8)) = 16 * k" by (simp only: unat_of_nat_small)
    then show ?thesis by (simp add: drop_bit_eq_div unat_div)
  qed
  have sp: "splice 16 (to_be 2 c) seg = to_be 2 sport @ to_be 2 dport @ to_be 4 sq @ to_be 4 ack
      @ [push_bit 4 (of_nat k)] @ [flags] @ to_be 2 window @ to_be 2 c @ [0, 0] @ options @ payload"
    unfolding seg_def build_segment_def Let_def k_def [symmetric] to_be_2 to_be_4
    by (simp add: splice_def numeral_eq_Suc)
  define x where "x = splice 16 (to_be 2 c) seg"
  note xs = sp [folded x_def]
  have nth: "x ! 0 = ucast (drop_bit 8 sport)" "x ! Suc 0 = ucast sport" "x ! 2 = ucast (drop_bit 8 dport)"
    "x ! 3 = ucast dport" "x ! 12 = push_bit 4 (of_nat k)" "x ! 13 = flags"
    "x ! 14 = ucast (drop_bit 8 window)" "x ! 15 = ucast window"
    unfolding xs to_be_2 to_be_4 by simp_all
  have sl: "slice 4 4 x = to_be 4 sq" "slice 8 4 x = to_be 4 ack"
    unfolding xs to_be_2 to_be_4 by (simp_all add: slice_def numeral_eq_Suc)
  define h where "h = to_be 2 sport @ to_be 2 dport @ to_be 4 sq @ to_be 4 ack @ [push_bit 4 (of_nat k)]
      @ [flags] @ to_be 2 window @ to_be 2 c @ [0, 0]"
  have h: "x = h @ options @ payload" "length h = 20" by (simp_all add: h_def xs)
  then have f: "drop (20 + length options) x = payload" "slice 20 (20 + length options - 20) x = options"
    "\<not> length x < 20 + length options" by (simp_all add: slice_def)
  show "parse_segment (splice 16 (to_be 2 c) seg) =
     Some \<lparr>sg_sport = sport, sg_dport = dport, sg_seq = sq, sg_ack = ack, sg_flags = flags,
       sg_window = window, sg_options = options, sg_payload = payload\<rparr>"
    unfolding x_def [symmetric] parse_segment_def Let_def nth(5) off k(3) using f
    by (simp add: nth sl from_be_to_be)
  define g where "g = to_be 2 sport @ to_be 2 dport @ to_be 4 sq @ to_be 4 ack @ [push_bit 4 (of_nat k :: u8)] @ [flags] @ to_be 2 window"
  have "seg = g @ [0, 0] @ [0, 0] @ options @ payload" "length g = 16"
    by (simp_all add: seg_def g_def build_segment_def Let_def k_def)
  then show z: "slice 16 2 seg = [0, 0]" by (simp add: slice_def)
  have "splice 16 [0, 0] (splice 16 (to_be 2 c) seg) = splice 16 [0, 0] seg"
    by (rule splice_splice_same) (use len in simp_all)
  also have "\<dots> = seg" unfolding z [symmetric] by (rule splice_slice_id) (use len in simp)
  finally show "splice 16 [0, 0] (splice 16 (to_be 2 c) seg) = seg" .
  have "x ! 16 = ucast (drop_bit 8 c)" "x ! 17 = ucast c" unfolding xs to_be_2 to_be_4 by simp_all
  then show "from_be [splice 16 (to_be 2 c) seg ! 16, splice 16 (to_be 2 c) seg ! 17] = c"
    unfolding x_def [symmetric] by simp
qed

lemma wrap_tcp_parse:
  fixes src dst i
  assumes "length options mod 4 = 0" "length options \<le> 40" "40 + length options + length payload < 65536"
  shows "\<exists>p. ipv4_parse (wrap_tcp src dst (build_segment sport dport sq ack flags window options payload) i) = Some p
    \<and> header_checksum_ok (ip_header p) \<and> ip_src p = src \<and> ip_dst p = dst \<and> ip_protocol p = PROTOCOL_TCP
    \<and> \<not> ip_more_fragments p \<and> ip_fragment_offset p = 0
    \<and> parse_segment (ip_payload p) = Some \<lparr>sg_sport = sport, sg_dport = dport, sg_seq = sq, sg_ack = ack,
         sg_flags = flags, sg_window = window, sg_options = options, sg_payload = payload\<rparr>
    \<and> segment_checksum_ok p (ip_payload p)
    \<and> (pseudo_sum src dst PROTOCOL_TCP (length (ip_payload p)) + word_sum (ip_payload p)) mod 65535 = 0"
proof -
  define seg where "seg = build_segment sport dport sq ack flags window options payload"
  let ?c = "transport_checksum src dst PROTOCOL_TCP seg"
  let ?tcp = "splice 16 (to_be 2 ?c) seg"
  note b = parse_built_segment(1,2,4) [OF assms(1,2) seg_def, of ?c] and b3 = parse_built_segment(3) [OF assms(1,2) seg_def]
  have len: "length seg = 20 + length options + length payload" "length ?tcp = length seg"
    by (simp_all add: seg_def)
  let ?s = "pseudo_sum src dst PROTOCOL_TCP (length seg)"
  have "unat ?c = 65535 - onesum (?s + word_sum seg)"
    using assms(3) len(1) by (intro unat_transport_checksum) auto
  then have "?s + word_sum ?tcp = ?s + word_sum seg + (65535 - onesum (?s + word_sum seg))"
    using word_sum_insert [of 16 seg ?c] b3 len(1) by simp
  also have "\<dots> mod 65535 = (onesum (?s + word_sum seg) + (65535 - onesum (?s + word_sum seg))) mod 65535"
    using onesum_cong [symmetric] by (rule mod_add_cong) (rule refl)
  also have "onesum (?s + word_sum seg) + (65535 - onesum (?s + word_sum seg)) = 65535"
    using onesum_le by simp
  finally have "(?s + word_sum ?tcp) mod 65535 = 0" by simp
  moreover have "20 + length ?tcp < 65536" using assms(3) len by simp
  ultimately show ?thesis
    using ipv4_parse_built [of "20 + length ?tcp" ?tcp PROTOCOL_TCP src dst i] b len(2)
    by (simp add: wrap_tcp_def seg_def [symmetric] Let_def build_header_ok segment_checksum_ok_def)
qed

end
