(* ===== verification/Net_Tcp.thy ===== *)
theory Net_Tcp
  imports Net_Packet "HOL-Library.AList"
begin

text \<open>
  TCP termination of the network backend (\<open>net/tcp.rs\<close>, \<open>net/tcp_fin.rs\<close>), with the shared
  configuration and counters of \<open>net/mod.rs\<close> and the events of \<open>net/host.rs\<close>.

  The two bounded channels to the host thread (\<open>std::sync::mpsc::sync_channel\<close>) are part of the
  connection: their queued items, and whether the other half was dropped. \<open>Instant\<close> is a natural
  number of nanoseconds. The closure \<open>emit\<close>, the identification counter and the counters are one
  record that every operation threads through, with the packets emitted so far in order. A \<open>HashMap\<close>
  is an association list with distinct keys; its order stands for the unspecified iteration order.
\<close>

section \<open>Configuration, counters and output\<close>

record net_config =
  cf_mac :: bytes
  cf_gateway_mac :: bytes
  cf_guest_ip :: ipv4_addr
  cf_gateway_ip :: ipv4_addr
  cf_mtu :: nat

definition slirp_defaults :: net_config where
  "slirp_defaults = \<lparr>cf_mac = [0x52, 0x54, 0x00, 0x12, 0x34, 0x56], cf_gateway_mac = [0x52, 0x55, 0x0A, 0x00, 0x02, 0x02],
     cf_guest_ip = Ipv4Addr 10 0 2 15, cf_gateway_ip = Ipv4Addr 10 0 2 2, cf_mtu = 1500\<rparr>"

record net_counters =
  arp_replies :: u64
  icmp_echo_replies :: u64
  dns_queries :: u64
  dns_answers :: u64
  dns_drops :: u64
  tcp_opened :: u64
  tcp_closed :: u64
  tcp_resets :: u64
  tcp_retransmits :: u64
  dropped_unknown_ethertype :: u64
  dropped_not_for_us :: u64
  dropped_not_ipv4 :: u64
  dropped_fragmented :: u64
  dropped_bad_checksum :: u64
  dropped_other_icmp :: u64
  dropped_other_udp :: u64
  dropped_bad_packet :: u64

definition net_counters_default :: net_counters where
  "net_counters_default = \<lparr>arp_replies = 0, icmp_echo_replies = 0, dns_queries = 0, dns_answers = 0, dns_drops = 0,
     tcp_opened = 0, tcp_closed = 0, tcp_resets = 0, tcp_retransmits = 0, dropped_unknown_ethertype = 0,
     dropped_not_for_us = 0, dropped_not_ipv4 = 0, dropped_fragmented = 0, dropped_bad_checksum = 0,
     dropped_other_icmp = 0, dropped_other_udp = 0, dropped_bad_packet = 0\<rparr>"

abbreviation bump :: "u64 \<Rightarrow> u64" where
  "bump n \<equiv> saturating_add n 1"

record net_out =
  no_ip_id :: u16
  no_counters :: net_counters
  no_packets :: "bytes list"

definition emit :: "bytes \<Rightarrow> net_out \<Rightarrow> net_out" where
  "emit packet out = out\<lparr>no_packets := no_packets out @ [packet]\<rparr>"

definition count :: "(net_counters \<Rightarrow> net_counters) \<Rightarrow> net_out \<Rightarrow> net_out" where
  "count f out = out\<lparr>no_counters := f (no_counters out)\<rparr>"

section \<open>Connections\<close>

definition OUR_WINDOW :: u16 where "OUR_WINDOW = 0xFFFF"
definition RETRANSMIT_TIMEOUT :: nat where "RETRANSMIT_TIMEOUT = 750000000"
definition MAX_RETRANSMITS :: u32 where "MAX_RETRANSMITS = 8"
definition LINGER_TIMEOUT :: nat where "LINGER_TIMEOUT = 30000000000"
definition MAX_CONNECTIONS :: nat where "MAX_CONNECTIONS = 64"
definition TCP_PENDING_CAP :: nat where "TCP_PENDING_CAP = 256 * 1024"
definition CHANNEL_CAPACITY :: nat where "CHANNEL_CAPACITY = 32"
definition MAX_UNACKED_SEGMENTS :: nat where "MAX_UNACKED_SEGMENTS = 64"

datatype host_event = Connected | ConnectFailed string | HostData bytes | HostEof

record conn_key =
  k_local_port :: u16
  k_remote_addr :: ipv4_addr
  k_remote_port :: u16

record out_seg =
  os_seq :: u32
  os_bytes :: bytes
  os_syn :: bool
  os_last_sent :: nat

text \<open>A channel with its queued items and whether its other half is gone.\<close>

record 'a channel =
  ch_items :: "'a list"
  ch_disconnected :: bool

record tcp_conn =
  tc_key :: conn_key
  tc_established :: bool
  tc_guest_next :: u32
  tc_guest_window :: u32
  tc_guest_mss :: u16
  tc_our_isn :: u32
  tc_our_next :: u32
  tc_our_una :: u32
  tc_pending :: bytes
  tc_unacked :: "out_seg list"
  tc_retransmit_deadline :: "nat option"
  tc_retransmits :: u32
  tc_held_guest :: "bytes option"
  tc_guest_tx :: "bytes channel"
  tc_host_rx :: "host_event channel"
  tc_fin_sent :: bool
  tc_fin_acked :: bool
  tc_fin_seq :: u32
  tc_fin_pending :: bool
  tc_guest_fin :: bool
  tc_guest_fin_acked :: bool
  tc_host_eof :: bool
  tc_linger_deadline :: "nat option"
  tc_closed :: bool

definition seq_gt :: "u32 \<Rightarrow> u32 \<Rightarrow> bool" where "seq_gt a b \<longleftrightarrow> 0 < sint (a - b)"
definition seq_ge :: "u32 \<Rightarrow> u32 \<Rightarrow> bool" where "seq_ge a b \<longleftrightarrow> 0 \<le> sint (a - b)"
definition seq_lt :: "u32 \<Rightarrow> u32 \<Rightarrow> bool" where "seq_lt a b \<longleftrightarrow> sint (a - b) < 0"
definition seq_le :: "u32 \<Rightarrow> u32 \<Rightarrow> bool" where "seq_le a b \<longleftrightarrow> sint (a - b) \<le> 0"

text \<open>\<open>try_send\<close> of a \<open>SyncSender\<close>; \<open>None\<close> is success.\<close>

datatype try_send_error = SendFull | SendDisconnected

definition try_send :: "'a \<Rightarrow> 'a channel \<Rightarrow> try_send_error option \<times> 'a channel" where
  "try_send x ch =
     (if ch_disconnected ch then (Some SendDisconnected, ch)
      else if CHANNEL_CAPACITY \<le> length (ch_items ch) then (Some SendFull, ch)
      else (None, ch\<lparr>ch_items := ch_items ch @ [x]\<rparr>))"

section \<open>Sending\<close>

definition emit_segment ::
  "net_config \<Rightarrow> tcp_conn \<Rightarrow> u32 \<Rightarrow> u8 \<Rightarrow> u16 \<Rightarrow> bytes \<Rightarrow> bytes \<Rightarrow> net_out \<Rightarrow> net_out" where
  "emit_segment config c sq flags window options payload out =
     (let seg = build_segment (k_remote_port (tc_key c)) (k_local_port (tc_key c)) sq (tc_guest_next c) flags
                  window options payload;
          (i, ip_id) = next_identification (no_ip_id out)
      in emit (wrap_tcp (k_remote_addr (tc_key c)) (cf_guest_ip config) seg i) (out\<lparr>no_ip_id := ip_id\<rparr>))"

definition send_ack :: "net_config \<Rightarrow> tcp_conn \<Rightarrow> net_out \<Rightarrow> net_out" where
  "send_ack config c out = emit_segment config c (tc_our_next c) FLAG_ACK OUR_WINDOW [] [] out"

definition mss_option :: bytes where
  "mss_option = [2, 4, ucast (drop_bit 8 OUR_MSS), ucast OUR_MSS]"

definition send_syn_ack :: "net_config \<Rightarrow> nat \<Rightarrow> tcp_conn \<Rightarrow> net_out \<Rightarrow> tcp_conn \<times> net_out" where
  "send_syn_ack config now c out =
     (let out = emit_segment config c (tc_our_isn c) (FLAG_SYN OR FLAG_ACK) OUR_WINDOW mss_option [] out
      in (c\<lparr>tc_unacked := tc_unacked c @ [\<lparr>os_seq = tc_our_isn c, os_bytes = [], os_syn = True, os_last_sent = now\<rparr>],
            tc_retransmit_deadline := Some (now + RETRANSMIT_TIMEOUT)\<rparr>, out))"

text \<open>One turn of the loop over host events, for the event taken from the channel.\<close>

definition host_event_step ::
  "net_config \<Rightarrow> nat \<Rightarrow> host_event \<Rightarrow> tcp_conn \<Rightarrow> net_out \<Rightarrow> tcp_conn \<times> net_out" where
  "host_event_step config now ev c out =
     (case ev of
        Connected \<Rightarrow>
          if \<not> tc_established c \<and> tc_unacked c = [] then send_syn_ack config now c out else (c, out)
      | ConnectFailed _ \<Rightarrow>
          let sq = (if tc_established c then tc_our_next c else tc_our_isn c);
              out = emit_segment config c sq (FLAG_RST OR FLAG_ACK) 0 [] [] out
          in (c\<lparr>tc_closed := True\<rparr>, count (\<lambda>n. n\<lparr>tcp_resets := bump (tcp_resets n)\<rparr>) out)
      | HostData bs \<Rightarrow> (c\<lparr>tc_pending := tc_pending c @ bs\<rparr>, out)
      | HostEof \<Rightarrow> (c\<lparr>tc_host_eof := True, tc_fin_pending := True\<rparr>, out))"

text \<open>\<open>drain_host_events\<close>: the loop over the items the channel holds.\<close>

fun drain_items ::
  "net_config \<Rightarrow> nat \<Rightarrow> host_event list \<Rightarrow> tcp_conn \<Rightarrow> net_out \<Rightarrow> tcp_conn \<times> net_out" where
  "drain_items config now items c out =
     (if TCP_PENDING_CAP \<le> length (tc_pending c) then (c, out)
      else case items of
        [] \<Rightarrow> (if ch_disconnected (tc_host_rx c) then c\<lparr>tc_host_eof := True, tc_fin_pending := True\<rparr> else c, out)
      | ev # rest \<Rightarrow>
          let c = c\<lparr>tc_host_rx := (tc_host_rx c)\<lparr>ch_items := rest\<rparr>\<rparr>;
              (c, out) = host_event_step config now ev c out
          in drain_items config now rest c out)"

declare drain_items.simps [simp del]

definition drain_host_events :: "net_config \<Rightarrow> nat \<Rightarrow> tcp_conn \<Rightarrow> net_out \<Rightarrow> tcp_conn \<times> net_out" where
  "drain_host_events config now c out = drain_items config now (ch_items (tc_host_rx c)) c out"

definition retry_held :: "net_config \<Rightarrow> tcp_conn \<Rightarrow> net_out \<Rightarrow> tcp_conn \<times> net_out" where
  "retry_held config c out =
     (case tc_held_guest c of
        None \<Rightarrow> (c, out)
      | Some held \<Rightarrow>
          let c = c\<lparr>tc_held_guest := None\<rparr> in
          case try_send held (tc_guest_tx c) of
            (None, ch) \<Rightarrow>
              let c = c\<lparr>tc_guest_tx := ch, tc_guest_next := tc_guest_next c + of_nat (length held)\<rparr>
              in (c, send_ack config c out)
          | (Some SendFull, _) \<Rightarrow> (c\<lparr>tc_held_guest := Some held\<rparr>, out)
          | (Some SendDisconnected, _) \<Rightarrow> (c\<lparr>tc_closed := True\<rparr>, out))"

text \<open>The size of the next segment of \<open>send_pending\<close>; zero where the loop breaks.\<close>

definition send_take :: "tcp_conn \<Rightarrow> nat" where
  "send_take c =
     (let in_flight = unat (tc_our_next c - tc_our_una c);
          window = unat (tc_guest_window c)
      in if window \<le> in_flight then 0
         else min (min (length (tc_pending c)) (unat (tc_guest_mss c))) (window - in_flight))"

definition send_one :: "net_config \<Rightarrow> nat \<Rightarrow> nat \<Rightarrow> tcp_conn \<Rightarrow> net_out \<Rightarrow> tcp_conn \<times> net_out" where
  "send_one config now k c out =
     (let bs = take k (tc_pending c);
          c = c\<lparr>tc_pending := drop k (tc_pending c)\<rparr>;
          out = emit_segment config c (tc_our_next c) FLAG_ACK OUR_WINDOW [] bs out
      in (c\<lparr>tc_unacked := tc_unacked c @ [\<lparr>os_seq = tc_our_next c, os_bytes = bs, os_syn = False, os_last_sent = now\<rparr>],
            tc_our_next := tc_our_next c + of_nat (length bs),
            tc_retransmit_deadline := Some (now + RETRANSMIT_TIMEOUT)\<rparr>, out))"

function send_pending :: "net_config \<Rightarrow> nat \<Rightarrow> tcp_conn \<Rightarrow> net_out \<Rightarrow> tcp_conn \<times> net_out" where
  "send_pending config now c out =
     (if tc_pending c \<noteq> [] \<and> length (tc_unacked c) < MAX_UNACKED_SEGMENTS \<and> send_take c \<noteq> 0
      then let (c, out) = send_one config now (send_take c) c out in send_pending config now c out
      else (c, out))"
  by pat_completeness auto
termination
  by (relation "measure (\<lambda>(_, _, c, _). length (tc_pending c))") (auto simp: send_one_def Let_def)

declare send_pending.simps [simp del]

text \<open>The loop of \<open>retransmit\<close> over the unacknowledged segments.\<close>

definition resend ::
  "net_config \<Rightarrow> tcp_conn \<Rightarrow> out_seg \<Rightarrow> net_out \<Rightarrow> net_out" where
  "resend config c s out =
     emit_segment config c (os_seq s) (if os_syn s then FLAG_SYN OR FLAG_ACK else FLAG_ACK) OUR_WINDOW
       (if os_syn s then mss_option else []) (os_bytes s) out"

definition retransmit :: "net_config \<Rightarrow> nat \<Rightarrow> tcp_conn \<Rightarrow> net_out \<Rightarrow> tcp_conn \<times> net_out" where
  "retransmit config now c out =
     (case tc_retransmit_deadline c of
        None \<Rightarrow> (c, out)
      | Some deadline \<Rightarrow>
          if now < deadline then (c, out)
          else let c = c\<lparr>tc_retransmits := saturating_add (tc_retransmits c) 1\<rparr> in
               if MAX_RETRANSMITS < tc_retransmits c
               then let out = emit_segment config c (tc_our_next c) (FLAG_RST OR FLAG_ACK) 0 [] [] out
                    in (c\<lparr>tc_closed := True\<rparr>, count (\<lambda>n. n\<lparr>tcp_resets := bump (tcp_resets n)\<rparr>) out)
               else if tc_unacked c \<noteq> [] \<or> (tc_fin_sent c \<and> \<not> tc_fin_acked c)
               then let out = (if tc_unacked c \<noteq> [] then fold (resend config c) (tc_unacked c) out
                               else emit_segment config c (tc_fin_seq c) (FLAG_FIN OR FLAG_ACK) OUR_WINDOW [] [] out);
                        c = (if tc_unacked c \<noteq> []
                             then c\<lparr>tc_unacked := map (\<lambda>s. s\<lparr>os_last_sent := now\<rparr>) (tc_unacked c)\<rparr> else c)
                    in (c\<lparr>tc_retransmit_deadline := Some (now + RETRANSMIT_TIMEOUT)\<rparr>,
                        count (\<lambda>n. n\<lparr>tcp_retransmits := bump (tcp_retransmits n)\<rparr>) out)
               else (c\<lparr>tc_retransmit_deadline := None\<rparr>, out))"

definition maybe_send_fin :: "net_config \<Rightarrow> nat \<Rightarrow> tcp_conn \<Rightarrow> net_out \<Rightarrow> tcp_conn \<times> net_out" where
  "maybe_send_fin config now c out =
     (if tc_fin_sent c \<or> \<not> tc_fin_pending c then (c, out)
      else if tc_pending c \<noteq> [] \<or> tc_unacked c \<noteq> [] then (c, out)
      else let out = emit_segment config c (tc_our_next c) (FLAG_FIN OR FLAG_ACK) OUR_WINDOW [] [] out
           in (c\<lparr>tc_fin_seq := tc_our_next c, tc_our_next := tc_our_next c + 1, tc_fin_sent := True,
                 tc_retransmit_deadline := Some (now + RETRANSMIT_TIMEOUT)\<rparr>, out))"

section \<open>Receiving\<close>

text \<open>The acknowledged segments leave the front of the queue.\<close>

fun pop_acked :: "u32 \<Rightarrow> out_seg list \<Rightarrow> out_seg list" where
  "pop_acked ack [] = []"
| "pop_acked ack (s # ss) =
     (if seq_ge ack (os_seq s + of_nat (length (os_bytes s))) then pop_acked ack ss else s # ss)"

definition process_ack :: "segment \<Rightarrow> tcp_conn \<Rightarrow> tcp_conn" where
  "process_ack seg c =
     (let c = c\<lparr>tc_guest_window := ucast (sg_window seg)\<rparr>;
          ack = sg_ack seg
      in if seq_ge ack (tc_our_una c) \<and> seq_le ack (tc_our_next c)
         then let c = (if seq_gt ack (tc_our_una c)
                       then let c = c\<lparr>tc_unacked := pop_acked ack (tc_unacked c), tc_our_una := ack, tc_retransmits := 0\<rparr>
                            in if tc_unacked c = [] then c\<lparr>tc_retransmit_deadline := None\<rparr> else c
                       else c);
                  c = (if \<not> tc_established c \<and> ack = tc_our_isn c + 1 then c\<lparr>tc_established := True\<rparr> else c)
              in if tc_fin_sent c \<and> seq_ge ack (tc_our_next c) then c\<lparr>tc_fin_acked := True\<rparr> else c
         else c)"

text \<open>
  The payload of a segment: the connection, whether an acknowledgement is due, and whether the
  handler returns early because the host thread is gone.
\<close>

definition process_payload :: "segment \<Rightarrow> tcp_conn \<Rightarrow> tcp_conn \<times> bool \<times> bool" where
  "process_payload seg c =
     (if sg_payload seg = [] then (c, False, False)
      else if sg_seq seg = tc_guest_next c \<and> tc_established c \<and> \<not> tc_guest_fin c
      then (case try_send (sg_payload seg) (tc_guest_tx c) of
              (None, ch) \<Rightarrow>
                (c\<lparr>tc_guest_tx := ch, tc_guest_next := tc_guest_next c + of_nat (length (sg_payload seg))\<rparr>, True, False)
            | (Some SendFull, _) \<Rightarrow> (c\<lparr>tc_held_guest := Some (sg_payload seg)\<rparr>, False, False)
            | (Some SendDisconnected, _) \<Rightarrow> (c\<lparr>tc_closed := True\<rparr>, False, True))
      else (c, seq_lt (sg_seq seg) (tc_guest_next c), False))"

definition process_fin :: "segment \<Rightarrow> tcp_conn \<times> bool \<Rightarrow> tcp_conn \<times> bool" where
  "process_fin seg = (\<lambda>(c, ack_needed).
     if sg_flags seg AND FLAG_FIN = 0 then (c, ack_needed)
     else let fin_seq = sg_seq seg + of_nat (length (sg_payload seg)) in
          if fin_seq = tc_guest_next c
          then (c\<lparr>tc_guest_next := tc_guest_next c + 1, tc_guest_fin := True\<rparr>, True)
          else (c, ack_needed \<or> seq_lt fin_seq (tc_guest_next c)))"

definition process_segment :: "net_config \<Rightarrow> segment \<Rightarrow> tcp_conn \<Rightarrow> net_out \<Rightarrow> tcp_conn \<times> net_out" where
  "process_segment config seg c out =
     (if sg_flags seg AND FLAG_RST \<noteq> 0
      then (if sg_seq seg = tc_guest_next c \<or> sg_seq seg = tc_guest_next c - 1
            then (c\<lparr>tc_closed := True\<rparr>, count (\<lambda>n. n\<lparr>tcp_resets := bump (tcp_resets n)\<rparr>) out)
            else (c, out))
      else let c = (if sg_flags seg AND FLAG_ACK \<noteq> 0 then process_ack seg c else c);
               (c, ack_needed, stop) = process_payload seg c
           in if stop then (c, count (\<lambda>n. n\<lparr>tcp_resets := bump (tcp_resets n)\<rparr>) out)
              else let (c, ack_needed) = process_fin seg (c, ack_needed);
                       c = (if ack_needed \<and> tc_guest_fin c \<and> \<not> tc_guest_fin_acked c
                            then c\<lparr>tc_guest_fin_acked := True\<rparr> else c);
                       out = (if ack_needed then send_ack config c out else out);
                       c = (if tc_guest_fin c \<and> tc_guest_fin_acked c \<and> \<not> tc_fin_sent c
                            then c\<lparr>tc_fin_pending := True\<rparr> else c)
                   in (c, out))"

section \<open>The connection table\<close>

record tcp_state =
  ts_connections :: "(conn_key \<times> tcp_conn) list"
  ts_next_isn :: u32

text \<open>The seed \<open>isn_seed\<close> mixes the clock, a process-wide counter and hasher entropy: an argument.\<close>

definition tcp_new :: "u32 \<Rightarrow> tcp_state" where
  "tcp_new isn_seed = \<lparr>ts_connections = [], ts_next_isn = isn_seed\<rparr>"

definition tcp_reset :: "tcp_state \<Rightarrow> tcp_state" where
  "tcp_reset t = t\<lparr>ts_connections := []\<rparr>"

definition fresh_channel :: "'a channel" where
  "fresh_channel = \<lparr>ch_items = [], ch_disconnected = False\<rparr>"

definition new_conn :: "conn_key \<Rightarrow> segment \<Rightarrow> u32 \<Rightarrow> tcp_conn" where
  "new_conn key seg isn =
     (let mss = (case parse_mss (sg_options seg) of None \<Rightarrow> 536 | Some m \<Rightarrow> m)
      in \<lparr>tc_key = key, tc_established = False, tc_guest_next = sg_seq seg + 1,
          tc_guest_window = ucast (sg_window seg), tc_guest_mss = min (max mss 1) OUR_MSS,
          tc_our_isn = isn, tc_our_next = isn + 1, tc_our_una = isn, tc_pending = [], tc_unacked = [],
          tc_retransmit_deadline = None, tc_retransmits = 0, tc_held_guest = None,
          tc_guest_tx = fresh_channel, tc_host_rx = fresh_channel, tc_fin_sent = False, tc_fin_acked = False,
          tc_fin_seq = 0, tc_fin_pending = False, tc_guest_fin = False, tc_guest_fin_acked = False,
          tc_host_eof = False, tc_linger_deadline = None, tc_closed = False\<rparr>)"

definition tcp_open :: "conn_key \<Rightarrow> segment \<Rightarrow> tcp_state \<Rightarrow> net_out \<Rightarrow> tcp_state \<times> net_out" where
  "tcp_open key seg t out =
     (if map_of (ts_connections t) key \<noteq> None then (t, out)
      else (t\<lparr>ts_connections := AList.update key (new_conn key seg (ts_next_isn t)) (ts_connections t),
              ts_next_isn := ts_next_isn t + 0x2F6B35C5\<rparr>,
            count (\<lambda>n. n\<lparr>tcp_opened := bump (tcp_opened n)\<rparr>) out))"

definition refuse :: "net_config \<Rightarrow> conn_key \<Rightarrow> segment \<Rightarrow> net_out \<Rightarrow> net_out" where
  "refuse config key seg out =
     (let rst = build_segment (sg_dport seg) (sg_sport seg) (sg_ack seg) 0 (FLAG_RST OR FLAG_ACK) 0 [] [];
          (i, ip_id) = next_identification (no_ip_id out);
          out = emit (wrap_tcp (k_remote_addr key) (cf_guest_ip config) rst i) (out\<lparr>no_ip_id := ip_id\<rparr>)
      in count (\<lambda>n. n\<lparr>tcp_resets := bump (tcp_resets n)\<rparr>) out)"

definition tcp_handle :: "net_config \<Rightarrow> ipv4_packet \<Rightarrow> tcp_state \<Rightarrow> net_out \<Rightarrow> tcp_state \<times> net_out" where
  "tcp_handle config packet t out =
     (case parse_segment (ip_payload packet) of
        None \<Rightarrow> (t, count (\<lambda>n. n\<lparr>dropped_bad_packet := bump (dropped_bad_packet n)\<rparr>) out)
      | Some seg \<Rightarrow>
          if \<not> segment_checksum_ok packet (ip_payload packet)
          then (t, count (\<lambda>n. n\<lparr>dropped_bad_checksum := bump (dropped_bad_checksum n)\<rparr>) out)
          else if ip_src packet \<noteq> cf_guest_ip config
          then (t, count (\<lambda>n. n\<lparr>dropped_not_for_us := bump (dropped_not_for_us n)\<rparr>) out)
          else let key = \<lparr>k_local_port = sg_sport seg, k_remote_addr = ip_dst packet, k_remote_port = sg_dport seg\<rparr> in
               if sg_flags seg AND FLAG_SYN \<noteq> 0 \<and> sg_flags seg AND FLAG_ACK = 0
               then (if map_of (ts_connections t) key = None \<and> MAX_CONNECTIONS \<le> length (ts_connections t)
                     then (t, refuse config key seg out)
                     else tcp_open key seg t out)
               else (case map_of (ts_connections t) key of
                       None \<Rightarrow> (t, if sg_flags seg AND FLAG_RST = 0 then refuse config key seg out else out)
                     | Some c \<Rightarrow>
                         let (c, out) = process_segment config seg c out
                         in (t\<lparr>ts_connections := AList.update key c (ts_connections t)\<rparr>, out)))"

text \<open>The body of the loop of \<open>poll\<close> over one connection.\<close>

definition conn_teardown :: "nat \<Rightarrow> tcp_conn \<Rightarrow> tcp_conn" where
  "conn_teardown now c =
     (if tc_closed c then c
      else if tc_fin_sent c \<and> tc_fin_acked c \<and> tc_guest_fin c \<and> tc_guest_fin_acked c then c\<lparr>tc_closed := True\<rparr>
      else if tc_fin_acked c \<and> \<not> tc_guest_fin c
      then let deadline = (case tc_linger_deadline c of None \<Rightarrow> now + LINGER_TIMEOUT | Some d \<Rightarrow> d);
               c = c\<lparr>tc_linger_deadline := Some deadline\<rparr>
           in if deadline \<le> now then c\<lparr>tc_closed := True\<rparr> else c
      else c)"

definition unless_closed ::
  "(tcp_conn \<Rightarrow> net_out \<Rightarrow> tcp_conn \<times> net_out) \<Rightarrow> tcp_conn \<times> net_out \<Rightarrow> tcp_conn \<times> net_out" where
  "unless_closed f = (\<lambda>(c, out). if tc_closed c then (c, out) else f c out)"

definition poll_conn :: "net_config \<Rightarrow> nat \<Rightarrow> tcp_conn \<Rightarrow> net_out \<Rightarrow> tcp_conn \<times> net_out" where
  "poll_conn config now c out =
     (let r = drain_host_events config now c out;
          r = unless_closed (retry_held config) r;
          r = unless_closed (send_pending config now) r;
          r = unless_closed (retransmit config now) r;
          (c, out) = unless_closed (maybe_send_fin config now) r
      in (conn_teardown now c, out))"

fun poll_conns ::
  "net_config \<Rightarrow> nat \<Rightarrow> (conn_key \<times> tcp_conn) list \<Rightarrow> net_out \<Rightarrow> (conn_key \<times> tcp_conn) list \<times> net_out" where
  "poll_conns config now [] out = ([], out)"
| "poll_conns config now ((k, c) # rest) out =
     (let (c, out) = poll_conn config now c out;
          (rest, out) = poll_conns config now rest out
      in ((k, c) # rest, out))"

definition tcp_poll :: "net_config \<Rightarrow> nat \<Rightarrow> tcp_state \<Rightarrow> net_out \<Rightarrow> tcp_state \<times> net_out" where
  "tcp_poll config now t out =
     (let (conns, out) = poll_conns config now (ts_connections t) out;
          closed = map (tc_key \<circ> snd) (filter (\<lambda>(_, c). tc_closed c) conns)
      in (t\<lparr>ts_connections := fold AList.delete closed conns\<rparr>,
          fold (\<lambda>_. count (\<lambda>n. n\<lparr>tcp_closed := bump (tcp_closed n)\<rparr>)) closed out))"

end
