(* ===== verification/Net_Tcp_Correct.thy ===== *)
theory Net_Tcp_Correct
  imports Net_Tcp Net_Packet_Correct
begin

text \<open>
  The byte streams of a terminated connection. A connection is driven by the segments of the guest,
  the polls of the device, and the host thread at the other end of its channels; the theorems hold
  for every interleaving of them.
\<close>

section \<open>Runs of one connection\<close>

datatype conn_event =
    GuestSegment segment
  | PollAt nat
  | HostSends host_event
  | HostReceives
  | HostExits

fun event_bytes :: "host_event \<Rightarrow> bytes" where
  "event_bytes (HostData bs) = bs"
| "event_bytes _ = []"

definition chan_bytes :: "tcp_conn \<Rightarrow> bytes" where
  "chan_bytes c = concat (map event_bytes (ch_items (tc_host_rx c)))"

text \<open>
  The state of a run: the connection, the output, and the bytes the host thread has handed over so
  far. A send on the full channel blocks the thread, so it has no effect.
\<close>

fun conn_step :: "net_config \<Rightarrow> conn_event \<Rightarrow> tcp_conn \<times> net_out \<times> bytes \<Rightarrow> tcp_conn \<times> net_out \<times> bytes" where
  "conn_step config (GuestSegment seg) (c, out, S) = (let (c, out) = process_segment config seg c out in (c, out, S))"
| "conn_step config (PollAt now) (c, out, S) = (let (c, out) = poll_conn config now c out in (c, out, S))"
| "conn_step config (HostSends ev) (c, out, S) =
     (if length (ch_items (tc_host_rx c)) < CHANNEL_CAPACITY
      then (c\<lparr>tc_host_rx := (tc_host_rx c)\<lparr>ch_items := ch_items (tc_host_rx c) @ [ev]\<rparr>\<rparr>, out, S @ event_bytes ev)
      else (c, out, S))"
| "conn_step config HostReceives (c, out, S) =
     (c\<lparr>tc_guest_tx := (tc_guest_tx c)\<lparr>ch_items := tl (ch_items (tc_guest_tx c))\<rparr>\<rparr>, out, S)"
| "conn_step config HostExits (c, out, S) =
     (c\<lparr>tc_guest_tx := (tc_guest_tx c)\<lparr>ch_disconnected := True\<rparr>,
        tc_host_rx := (tc_host_rx c)\<lparr>ch_disconnected := True\<rparr>\<rparr>, out, S)"

definition conn_run :: "net_config \<Rightarrow> conn_event list \<Rightarrow> tcp_conn \<times> net_out \<times> bytes \<Rightarrow> tcp_conn \<times> net_out \<times> bytes" where
  "conn_run config es st = fold (conn_step config) es st"

section \<open>Emitted packets\<close>

text \<open>
  A packet the guest may get: it parses, both checksums verify, it comes from the remote host of the
  connection, and a payload in it is the part of the host's stream that its sequence number names.
\<close>

definition packet_ok :: "net_config \<Rightarrow> conn_key \<Rightarrow> u32 \<Rightarrow> bytes \<Rightarrow> bytes \<Rightarrow> bool" where
  "packet_ok config key isn S f \<longleftrightarrow> (\<exists>p seg. ipv4_parse f = Some p \<and> header_checksum_ok (ip_header p)
     \<and> ip_src p = k_remote_addr key \<and> ip_dst p = cf_guest_ip config \<and> segment_checksum_ok p (ip_payload p)
     \<and> parse_segment (ip_payload p) = Some seg
     \<and> sg_sport seg = k_remote_port key \<and> sg_dport seg = k_local_port key
     \<and> (sg_payload seg \<noteq> [] \<longrightarrow> (\<exists>k. k + length (sg_payload seg) \<le> length S
           \<and> sg_seq seg = isn + 1 + of_nat k \<and> sg_payload seg = slice k (length (sg_payload seg)) S)))"

definition emits :: "net_config \<Rightarrow> conn_key \<Rightarrow> u32 \<Rightarrow> bytes \<Rightarrow> net_out \<Rightarrow> net_out \<Rightarrow> bool" where
  "emits config key isn S out out' \<longleftrightarrow>
     (\<exists>fs. no_packets out' = no_packets out @ fs \<and> (\<forall>f \<in> set fs. packet_ok config key isn S f))"

lemma emits_refl [intro, simp]: "emits config key isn S out out"
  by (simp add: emits_def)

lemma emits_trans: "emits config key isn S a b \<Longrightarrow> emits config key isn S b c \<Longrightarrow> emits config key isn S a c"
  by (force simp: emits_def)

lemma emits_count [simp]: "emits config key isn S out (count f out') \<longleftrightarrow> emits config key isn S out out'"
  by (simp add: emits_def count_def)

lemma packet_ok_append: "packet_ok config key isn S f \<Longrightarrow> packet_ok config key isn (S @ bs) f"
proof -
  assume "packet_ok config key isn S f"
  moreover have "slice k n (S @ bs) = slice k n S" if "k + n \<le> length S" for k n
    using that by (simp add: slice_def)
  ultimately show ?thesis unfolding packet_ok_def by (metis length_append trans_le_add1)
qed

text \<open>The payload \<open>bs\<close> is the stream from offset \<open>k\<close>, and fits a segment.\<close>

definition stream_part :: "bytes \<Rightarrow> nat \<Rightarrow> bytes \<Rightarrow> bool" where
  "stream_part S k bs \<longleftrightarrow> k + length bs \<le> length S \<and> bs = slice k (length bs) S \<and> length bs \<le> 1460"

lemma emit_segment_emits:
  assumes "length options mod 4 = 0" "length options \<le> 40" "tc_key c = key"
    "bs = [] \<or> (\<exists>k. sq = isn + 1 + of_nat k \<and> stream_part S k bs)"
  shows "emits config key isn S out (emit_segment config c sq flags window options bs out)"
proof -
  let ?seg = "build_segment (k_remote_port key) (k_local_port key) sq (tc_guest_next c) flags window options bs"
  let ?f = "wrap_tcp (k_remote_addr key) (cf_guest_ip config) ?seg (no_ip_id out)"
  have "40 + length options + length bs < 65536" using assms(2,4) by (auto simp: stream_part_def)
  from wrap_tcp_parse [OF assms(1,2) this, of "k_remote_addr key" "cf_guest_ip config" "k_remote_port key"
      "k_local_port key" sq "tc_guest_next c" flags window "no_ip_id out"]
  have "packet_ok config key isn S ?f"
    using assms(4) unfolding packet_ok_def stream_part_def by force
  then show ?thesis
    using assms(3) by (simp add: emits_def emit_segment_def next_identification_def emit_def Let_def)
qed

lemma length_mss_option [simp]: "length mss_option = 4"
  by (simp add: mss_option_def)

section \<open>The stream invariant\<close>

text \<open>The queue of sent segments tiles the stream from offset \<open>k\<close> to offset \<open>n\<close>.\<close>

fun tiles :: "bytes \<Rightarrow> u32 \<Rightarrow> nat \<Rightarrow> out_seg list \<Rightarrow> nat \<Rightarrow> bool" where
  "tiles S isn k [] n \<longleftrightarrow> k = n"
| "tiles S isn k (s # ss) n \<longleftrightarrow>
     (if os_syn s then os_bytes s = [] \<and> os_seq s = isn \<and> tiles S isn k ss n
      else os_seq s = isn + 1 + of_nat k \<and> stream_part S k (os_bytes s) \<and> tiles S isn (k + length (os_bytes s)) ss n)"

lemma tiles_le: "tiles S isn k ss n \<Longrightarrow> k \<le> n"
  by (induction ss arbitrary: k) (auto split: if_splits dest: add_leD1)

lemma tiles_append: "tiles S isn k (ss @ ts) n \<longleftrightarrow> (\<exists>m. tiles S isn k ss m \<and> tiles S isn m ts n)"
  by (induction ss arbitrary: k) auto

lemma stream_part_append: "stream_part S k bs \<Longrightarrow> stream_part (S @ x) k bs"
  by (auto simp: stream_part_def slice_def)

lemma tiles_stream_append: "tiles S isn k ss n \<Longrightarrow> tiles (S @ x) isn k ss n"
  by (induction ss arbitrary: k) (auto intro: stream_part_append)

lemma tiles_last_sent [simp]: "tiles S isn k (map (\<lambda>s. s\<lparr>os_last_sent := now\<rparr>) ss) n \<longleftrightarrow> tiles S isn k ss n"
  by (induction ss arbitrary: k) auto

lemma tiles_concat:
  assumes "tiles S isn k ss n" "n \<le> length S"
  shows "concat (map os_bytes ss) = slice k (n - k) S"
  using assms(1)
proof (induction ss arbitrary: k)
  case Nil
  then show ?case by simp
next
  case (Cons s ss)
  show ?case
  proof (cases "os_syn s")
    case True
    with Cons show ?thesis by simp
  next
    case False
    let ?m = "length (os_bytes s)"
    have t: "stream_part S k (os_bytes s)" "tiles S isn (k + ?m) ss n" using Cons.prems False by simp_all
    then have "n - k = ?m + (n - (k + ?m))" using tiles_le by fastforce
    then have "slice k (n - k) S = slice k ?m S @ slice (k + ?m) (n - (k + ?m)) S" by (metis slice_append)
    with Cons.IH [OF t(2)] t(1) show ?thesis by (simp add: stream_part_def)
  qed
qed

text \<open>
  Of the stream \<open>S\<close>, \<open>n\<close> bytes have been sent and the rest is pending or in the channel. The queue
  holds the bytes from some offset that the guest has acknowledged: \<open>n - u\<close> bytes are acknowledged
  when \<open>u\<close> sequence numbers are in flight.
\<close>

definition conn_inv :: "conn_key \<Rightarrow> u32 \<Rightarrow> bytes \<Rightarrow> tcp_conn \<Rightarrow> bool" where
  "conn_inv key isn S c \<longleftrightarrow> tc_key c = key \<and> tc_our_isn c = isn \<and> \<not> tc_fin_sent c
     \<and> unat (tc_guest_mss c) \<le> 1460 \<and> unat (tc_guest_window c) \<le> 65535
     \<and> unat (tc_our_next c - tc_our_una c) \<le> 65535
     \<and> (\<exists>n k. n \<le> length S \<and> drop n S = tc_pending c @ chan_bytes c \<and> tc_our_next c = isn + 1 + of_nat n
          \<and> tiles S isn k (tc_unacked c) n \<and> k \<le> n - unat (tc_our_next c - tc_our_una c)
          \<and> unat (tc_our_next c - tc_our_una c) \<le> n + 1)"

lemma conn_invE:
  assumes "conn_inv key isn S c"
  obtains n k where "tc_key c = key" "tc_our_isn c = isn" "\<not> tc_fin_sent c" "unat (tc_guest_mss c) \<le> 1460"
    "unat (tc_guest_window c) \<le> 65535" "unat (tc_our_next c - tc_our_una c) \<le> 65535"
    "n \<le> length S" "drop n S = tc_pending c @ chan_bytes c" "tc_our_next c = isn + 1 + of_nat n"
    "tiles S isn k (tc_unacked c) n" "k \<le> n - unat (tc_our_next c - tc_our_una c)"
    "unat (tc_our_next c - tc_our_una c) \<le> n + 1"
  using assms unfolding conn_inv_def by blast

lemma conn_invI:
  assumes "tc_key c = key" "tc_our_isn c = isn" "\<not> tc_fin_sent c" "unat (tc_guest_mss c) \<le> 1460"
    "unat (tc_guest_window c) \<le> 65535" "unat (tc_our_next c - tc_our_una c) \<le> 65535"
    "n \<le> length S" "drop n S = tc_pending c @ chan_bytes c" "tc_our_next c = isn + 1 + of_nat n"
    "tiles S isn k (tc_unacked c) n" "k \<le> n - unat (tc_our_next c - tc_our_una c)"
    "unat (tc_our_next c - tc_our_una c) \<le> n + 1"
  shows "conn_inv key isn S c"
  using assms unfolding conn_inv_def by blast

text \<open>Fields the invariant does not mention may change freely.\<close>

lemma conn_inv_cong:
  assumes "tc_key c' = tc_key c" "tc_our_isn c' = tc_our_isn c" "tc_fin_sent c' = tc_fin_sent c"
    "tc_guest_mss c' = tc_guest_mss c" "tc_guest_window c' = tc_guest_window c" "tc_our_next c' = tc_our_next c"
    "tc_our_una c' = tc_our_una c" "tc_pending c' @ chan_bytes c' = tc_pending c @ chan_bytes c"
    "tc_unacked c' = tc_unacked c"
  shows "conn_inv key isn S c' \<longleftrightarrow> conn_inv key isn S c"
  unfolding conn_inv_def assms ..

lemma conn_inv_updates [simp]:
  "conn_inv key isn S (c\<lparr>tc_established := b\<rparr>) \<longleftrightarrow> conn_inv key isn S c"
  "conn_inv key isn S (c\<lparr>tc_guest_next := w\<rparr>) \<longleftrightarrow> conn_inv key isn S c"
  "conn_inv key isn S (c\<lparr>tc_retransmit_deadline := d\<rparr>) \<longleftrightarrow> conn_inv key isn S c"
  "conn_inv key isn S (c\<lparr>tc_retransmits := w\<rparr>) \<longleftrightarrow> conn_inv key isn S c"
  "conn_inv key isn S (c\<lparr>tc_held_guest := h\<rparr>) \<longleftrightarrow> conn_inv key isn S c"
  "conn_inv key isn S (c\<lparr>tc_guest_tx := ch\<rparr>) \<longleftrightarrow> conn_inv key isn S c"
  "conn_inv key isn S (c\<lparr>tc_fin_acked := b\<rparr>) \<longleftrightarrow> conn_inv key isn S c"
  "conn_inv key isn S (c\<lparr>tc_fin_pending := b\<rparr>) \<longleftrightarrow> conn_inv key isn S c"
  "conn_inv key isn S (c\<lparr>tc_guest_fin := b\<rparr>) \<longleftrightarrow> conn_inv key isn S c"
  "conn_inv key isn S (c\<lparr>tc_guest_fin_acked := b\<rparr>) \<longleftrightarrow> conn_inv key isn S c"
  "conn_inv key isn S (c\<lparr>tc_host_eof := b\<rparr>) \<longleftrightarrow> conn_inv key isn S c"
  "conn_inv key isn S (c\<lparr>tc_linger_deadline := d\<rparr>) \<longleftrightarrow> conn_inv key isn S c"
  "conn_inv key isn S (c\<lparr>tc_closed := b\<rparr>) \<longleftrightarrow> conn_inv key isn S c"
  "conn_inv key isn S (c\<lparr>tc_unacked := map (\<lambda>s. s\<lparr>os_last_sent := now\<rparr>) (tc_unacked c)\<rparr>) \<longleftrightarrow> conn_inv key isn S c"
  by (simp_all add: conn_inv_def chan_bytes_def)

lemma conn_inv_fields: "conn_inv key isn S c \<Longrightarrow> tc_key c = key \<and> tc_our_isn c = isn \<and> \<not> tc_fin_sent c"
  by (simp add: conn_inv_def)

section \<open>Sequence arithmetic\<close>

lemma sint_sign: "sint w < 0 \<longleftrightarrow> 2 ^ 31 \<le> unat w" for w :: u32
proof -
  have "sint w < 0 \<longleftrightarrow> bit w 31" using bit_last_iff [of w] by simp
  also have "\<dots> \<longleftrightarrow> bit (unat w) 31" by (simp add: bit_unsigned_iff)
  also have "\<dots> \<longleftrightarrow> odd (unat w div 2 ^ 31)" by (rule bit_iff_odd)
  also have "\<dots> \<longleftrightarrow> 2 ^ 31 \<le> unat w"
  proof -
    have "unat w div 2 ^ 31 < 2" using unat_bound [of w] by (simp add: less_mult_imp_div_less)
    then have "odd (unat w div 2 ^ 31) \<longleftrightarrow> unat w div 2 ^ 31 \<noteq> 0" unfolding less_2_cases_iff by auto
    then show ?thesis by (simp add: div_eq_0_iff not_less)
  qed
  finally show ?thesis .
qed

lemma seq_ge_unat: "seq_ge a b \<longleftrightarrow> unat (a - b) < 2 ^ 31"
  using sint_sign [of "a - b"] by (auto simp: seq_ge_def)

lemma seq_le_unat: "seq_le a b \<longleftrightarrow> a = b \<or> 2 ^ 31 \<le> unat (a - b)"
proof -
  have "sint (a - b) = 0 \<Longrightarrow> a - b = 0" by (rule signed_word_eqI) simp
  then have "sint (a - b) = 0 \<longleftrightarrow> a = b" by auto
  then show ?thesis using sint_sign [of "a - b"] by (auto simp: seq_le_def le_less)
qed

lemma unat_diff_small:
  fixes x y :: u32
  shows "unat y \<le> unat x \<Longrightarrow> unat (x - y) = unat x - unat y"
  by (simp add: unat_sub word_le_nat_alt)

lemma unat_minus_word: "w \<noteq> 0 \<Longrightarrow> unat (- w) = 2 ^ 32 - unat w" for w :: u32
proof -
  assume "w \<noteq> 0"
  then have "0 < unat w" by (simp add: unat_gt_0)
  have "2 ^ 32 dvd unat (- w) + unat w"
    using unat_word_ariths(1) [of "- w" w] by (simp add: dvd_eq_mod_eq_0)
  moreover have "unat (- w) + unat w < 2 * 2 ^ 32" using unat_bound [of w] unat_bound [of "- w"] by simp
  ultimately have "unat (- w) + unat w = 2 ^ 32" using \<open>0 < unat w\<close> by (auto simp: less_2_cases_iff elim!: dvdE)
  then show ?thesis by simp
qed

lemma ack_window:
  fixes ack una nxt :: u32
  assumes "unat (nxt - una) \<le> 65535" "seq_ge ack una" "seq_le ack nxt"
  shows "unat (nxt - ack) \<le> unat (nxt - una)"
proof -
  let ?u = "nxt - una" and ?a = "ack - una"
  have a: "unat ?a < 2 ^ 31" using assms(2) by (simp add: seq_ge_unat)
  have "unat ?a \<le> unat ?u"
  proof (rule ccontr)
    assume "\<not> unat ?a \<le> unat ?u"
    then have "unat ?u \<le> unat ?a" "0 < unat ?a - unat ?u" by simp_all
    note unat_diff_small [OF this(1)] this(2)
    moreover have "?a - ?u = ack - nxt" by simp
    ultimately have "0 < unat (ack - nxt)" "unat (ack - nxt) < 2 ^ 31" using a by simp_all
    then show False using assms(3) by (auto simp: seq_le_unat)
  qed
  then have "unat (?u - ?a) = unat ?u - unat ?a" by (rule unat_diff_small)
  moreover have "?u - ?a = nxt - ack" by simp
  ultimately show ?thesis by simp
qed

lemma popped_is_acked:
  fixes ack isn nxt :: u32
  assumes "nxt = isn + 1 + of_nat n" "unat (nxt - ack) \<le> 65535" "e \<le> n" "seq_ge ack (isn + 1 + of_nat e)"
  shows "e \<le> n - unat (nxt - ack)"
proof (rule ccontr)
  let ?u = "unat (nxt - ack)"
  assume "\<not> e \<le> n - ?u"
  then have d: "n \<le> e + ?u" "0 < e + ?u - n" "e + ?u - n \<le> 65535" using assms(2,3) by linarith+
  have "of_nat ?u = nxt - ack" by simp
  then have "isn + 1 + of_nat e - ack = of_nat (e + ?u) - of_nat n" by (simp add: assms(1))
  also have "\<dots> = of_nat (e + ?u - n)" using d(1) by (simp only: of_nat_diff)
  finally have m: "isn + 1 + of_nat e - ack = of_nat (e + ?u - n)" .
  let ?w = "isn + 1 + of_nat e - ack"
  have w: "unat ?w = e + ?u - n" unfolding m using d(3) by (intro unat_of_nat_small) simp
  have "?w \<noteq> 0" using w d(2) by (metis unsigned_0 less_numeral_extra(3))
  then have "unat (- ?w) = 2 ^ 32 - unat ?w" by (rule unat_minus_word)
  moreover have "ack - (isn + 1 + of_nat e) = - ?w" by simp
  ultimately have "unat (ack - (isn + 1 + of_nat e)) = 2 ^ 32 - unat ?w" by argo
  then show False using assms(4) w d(3) by (simp add: seq_ge_unat)
qed

lemma pop_acked_tiles:
  assumes "tiles S isn k ss n" "nxt = isn + 1 + of_nat n" "unat (nxt - ack) \<le> 65535" "k \<le> n - unat (nxt - ack)"
  shows "\<exists>k'. tiles S isn k' (pop_acked ack ss) n \<and> k' \<le> n - unat (nxt - ack)"
  using assms(1,4)
proof (induction ss arbitrary: k)
  case Nil
  then show ?case by auto
next
  case (Cons s ss)
  show ?case
  proof (cases "seq_ge ack (os_seq s + of_nat (length (os_bytes s))) \<and> \<not> os_syn s")
    case True
    let ?e = "k + length (os_bytes s)"
    have t: "os_seq s = isn + 1 + of_nat k" "tiles S isn ?e ss n" using Cons.prems True by simp_all
    then have "seq_ge ack (isn + 1 + of_nat ?e)" using True by (simp add: add.assoc)
    then have "?e \<le> n - unat (nxt - ack)"
      using popped_is_acked [OF assms(2,3) tiles_le [OF t(2)]] by blast
    with Cons.IH [OF t(2)] True show ?thesis by simp
  next
    case False
    then show ?thesis using Cons by (cases "os_syn s") auto
  qed
qed

section \<open>Every operation keeps the invariant\<close>

definition keeps :: "net_config \<Rightarrow> conn_key \<Rightarrow> u32 \<Rightarrow> bytes \<Rightarrow> (tcp_conn \<Rightarrow> net_out \<Rightarrow> tcp_conn \<times> net_out) \<Rightarrow> bool" where
  "keeps config key isn S f \<longleftrightarrow> (\<forall>c out c' out'. conn_inv key isn S c \<longrightarrow> f c out = (c', out') \<longrightarrow>
     conn_inv key isn S c' \<and> emits config key isn S out out')"

lemma keepsD:
  "keeps config key isn S f \<Longrightarrow> conn_inv key isn S c \<Longrightarrow> f c out = (c', out') \<Longrightarrow>
     conn_inv key isn S c' \<and> emits config key isn S out out'"
  unfolding keeps_def by blast

lemma process_ack_inv: "conn_inv key isn S c \<Longrightarrow> conn_inv key isn S (process_ack seg c)"
proof -
  assume inv: "conn_inv key isn S c"
  define c1 where "c1 = c\<lparr>tc_guest_window := ucast (sg_window seg)\<rparr>"
  have "unat (ucast (sg_window seg) :: u32) \<le> 65535"
    using unat_bound [of "sg_window seg"] by (simp add: unat_ucast_up)
  with inv have inv1: "conn_inv key isn S c1" by (simp add: conn_inv_def c1_def chan_bytes_def)
  have "conn_inv key isn S (c1\<lparr>tc_unacked := pop_acked (sg_ack seg) (tc_unacked c1), tc_our_una := sg_ack seg, tc_retransmits := 0\<rparr>)"
    if w: "seq_ge (sg_ack seg) (tc_our_una c1)" "seq_le (sg_ack seg) (tc_our_next c1)"
    using inv1
  proof (rule conn_invE)
    fix n k
    assume a: "tc_key c1 = key" "tc_our_isn c1 = isn" "\<not> tc_fin_sent c1" "unat (tc_guest_mss c1) \<le> 1460"
      "unat (tc_guest_window c1) \<le> 65535" "unat (tc_our_next c1 - tc_our_una c1) \<le> 65535"
      "n \<le> length S" "drop n S = tc_pending c1 @ chan_bytes c1" "tc_our_next c1 = isn + 1 + of_nat n"
      "tiles S isn k (tc_unacked c1) n" "k \<le> n - unat (tc_our_next c1 - tc_our_una c1)"
      "unat (tc_our_next c1 - tc_our_una c1) \<le> n + 1"
    let ?u = "unat (tc_our_next c1 - sg_ack seg)"
    have u: "?u \<le> unat (tc_our_next c1 - tc_our_una c1)" using ack_window [OF a(6) w] .
    then have "k \<le> n - ?u" "?u \<le> 65535" using a(6,11) by linarith+
    from pop_acked_tiles [OF a(10,9) this(2,1)] obtain k' where
      "tiles S isn k' (pop_acked (sg_ack seg) (tc_unacked c1)) n" "k' \<le> n - ?u" by blast
    with a u show ?thesis
      by (intro conn_invI [where n = n and k = k']) (simp_all add: chan_bytes_def)
  qed
  with inv1 show ?thesis
    by (auto simp: process_ack_def Let_def c1_def [symmetric] simp flip: )
qed

lemma process_payload_inv:
  "conn_inv key isn S c \<Longrightarrow> process_payload seg c = (c', a, stop) \<Longrightarrow> conn_inv key isn S c'"
  by (auto simp: process_payload_def try_send_def split: if_splits option.splits prod.splits try_send_error.splits)

lemma process_fin_inv: "conn_inv key isn S c \<Longrightarrow> process_fin seg (c, a) = (c', a') \<Longrightarrow> conn_inv key isn S c'"
  by (auto simp: process_fin_def Let_def split: if_splits)

lemma send_ack_emits: "conn_inv key isn S c \<Longrightarrow> emits config key isn S out (send_ack config c out)"
  unfolding send_ack_def by (rule emit_segment_emits) (auto dest: conn_inv_fields)

lemma process_segment_keeps: "keeps config key isn S (process_segment config seg)"
  unfolding keeps_def
proof (intro allI impI)
  fix c out c' out'
  assume inv: "conn_inv key isn S c" and p: "process_segment config seg c out = (c', out')"
  define c1 where "c1 = (if sg_flags seg AND FLAG_ACK \<noteq> 0 then process_ack seg c else c)"
  have inv1: "conn_inv key isn S c1" using inv process_ack_inv by (simp add: c1_def)
  obtain c2 a stop where c2: "process_payload seg c1 = (c2, a, stop)" by (metis prod_cases3)
  have inv2: "conn_inv key isn S c2" by (rule process_payload_inv [OF inv1 c2])
  obtain c3 a3 where c3: "process_fin seg (c2, a) = (c3, a3)" by (metis surj_pair)
  have inv3: "conn_inv key isn S c3" by (rule process_fin_inv [OF inv2 c3])
  show "conn_inv key isn S c' \<and> emits config key isn S out out'"
    using p inv inv2 inv3
    by (auto simp: process_segment_def Let_def c1_def [symmetric] c2 c3 intro!: send_ack_emits split: if_splits)
qed

lemma host_event_step_inv:
  assumes "conn_inv key isn S c" "ch_items (tc_host_rx c) = ev # rest"
    "host_event_step config now ev (c\<lparr>tc_host_rx := (tc_host_rx c)\<lparr>ch_items := rest\<rparr>\<rparr>) out = (c', out')"
  shows "conn_inv key isn S c' \<and> ch_items (tc_host_rx c') = rest \<and> emits config key isn S out out'"
proof -
  let ?c = "c\<lparr>tc_host_rx := (tc_host_rx c)\<lparr>ch_items := rest\<rparr>\<rparr>"
  have chan: "chan_bytes c = event_bytes ev @ chan_bytes ?c" by (simp add: chan_bytes_def assms(2))
  have key: "tc_key c = key" "tc_our_isn c = isn" using conn_inv_fields [OF assms(1)] by auto
  have silent: "conn_inv key isn S ?c" if "event_bytes ev = []"
    using assms(1) chan that by (subst conn_inv_cong [of ?c c]) simp_all
  show ?thesis
  proof (cases ev)
    case (HostData bs)
    have "conn_inv key isn S (?c\<lparr>tc_pending := tc_pending c @ bs\<rparr>)"
      using assms(1) chan HostData by (subst conn_inv_cong [of _ c]) (simp_all add: chan_bytes_def)
    with HostData assms(3) show ?thesis by (auto simp: host_event_step_def)
  next
    case Connected
    define r where "r = send_syn_ack config now ?c out"
    have "conn_inv key isn S (fst r)" if "tc_unacked c = []"
      using silent Connected that by (force simp: r_def send_syn_ack_def Let_def key conn_inv_def chan_bytes_def)
    moreover have "emits config key isn S out (snd r)"
      by (simp add: r_def send_syn_ack_def Let_def emit_segment_emits key)
    moreover have "ch_items (tc_host_rx (fst r)) = rest" by (simp add: r_def send_syn_ack_def Let_def)
    moreover have "(if \<not> tc_established c \<and> tc_unacked c = [] then r else (?c, out)) = (c', out')"
      using assms(3) Connected by (simp add: host_event_step_def r_def cong: if_cong)
    moreover have "conn_inv key isn S ?c" "ch_items (tc_host_rx ?c) = rest" using silent Connected by simp_all
    ultimately show ?thesis by (cases "\<not> tc_established c \<and> tc_unacked c = []") (metis fst_conv snd_conv emits_refl)+
  next
    case (ConnectFailed msg)
    with assms(3) silent key show ?thesis by (auto simp: host_event_step_def Let_def intro!: emit_segment_emits)
  next
    case HostEof
    with assms(3) silent show ?thesis by (auto simp: host_event_step_def)
  qed
qed

lemma drain_items_inv:
  assumes "conn_inv key isn S c" "ch_items (tc_host_rx c) = items" "drain_items config now items c out = (c', out')"
  shows "conn_inv key isn S c' \<and> emits config key isn S out out'"
  using assms
proof (induction items arbitrary: c out)
  case Nil
  then show ?case by (auto simp: drain_items.simps [of config now "[]"] split: if_splits)
next
  case (Cons ev rest)
  show ?case
  proof (cases "TCP_PENDING_CAP \<le> length (tc_pending c)")
    case True
    with Cons.prems show ?thesis by (simp add: drain_items.simps [of config now "ev # rest"])
  next
    case False
    let ?c = "c\<lparr>tc_host_rx := (tc_host_rx c)\<lparr>ch_items := rest\<rparr>\<rparr>"
    obtain c1 out1 where s: "host_event_step config now ev ?c out = (c1, out1)" by fastforce
    note i = host_event_step_inv [OF Cons.prems(1,2) s]
    have "drain_items config now rest c1 out1 = (c', out')"
      using Cons.prems(3) False s by (simp add: drain_items.simps [of config now "ev # rest"])
    with Cons.IH [of c1 out1] i show ?thesis by (blast intro: emits_trans)
  qed
qed

lemma drain_host_events_keeps: "keeps config key isn S (drain_host_events config now)"
  unfolding keeps_def drain_host_events_def using drain_items_inv by blast

lemma retry_held_keeps: "keeps config key isn S (retry_held config)"
  unfolding keeps_def
  by (auto simp: retry_held_def Let_def try_send_def intro!: send_ack_emits split: option.splits if_splits)

lemma send_one_inv:
  assumes "conn_inv key isn S c" "k = send_take c" "k \<noteq> 0" "send_one config now k c out = (c', out')"
  shows "conn_inv key isn S c' \<and> emits config key isn S out out'"
  using assms(1)
proof (rule conn_invE)
  fix n j
  let ?u = "unat (tc_our_next c - tc_our_una c)"
  assume a: "tc_key c = key" "tc_our_isn c = isn" "\<not> tc_fin_sent c" "unat (tc_guest_mss c) \<le> 1460"
    "unat (tc_guest_window c) \<le> 65535" "?u \<le> 65535" "n \<le> length S" "drop n S = tc_pending c @ chan_bytes c"
    "tc_our_next c = isn + 1 + of_nat n" "tiles S isn j (tc_unacked c) n" "j \<le> n - ?u" "?u \<le> n + 1"
  have k: "k \<le> length (tc_pending c)" "k \<le> 1460" "?u + k \<le> 65535"
    using assms(2,3) a(4,5) by (auto simp: send_take_def Let_def split: if_splits)
  have "length S - n = length (tc_pending c) + length (chan_bytes c)"
    using a(8) by (metis length_append length_drop)
  then have len: "n + k \<le> length S" using k(1) a(7) by linarith
  have part: "stream_part S n (take k (tc_pending c))"
    using k a(8) len by (simp add: stream_part_def slice_def)
  have u: "unat (tc_our_next c + of_nat k - tc_our_una c) = ?u + k"
  proof -
    have "tc_our_next c + of_nat k - tc_our_una c = of_nat (?u + k)" by simp
    moreover have "unat (of_nat (?u + k) :: u32) = ?u + k" by (rule unat_of_nat_small) (use k(3) in simp)
    ultimately show ?thesis by argo
  qed
  have drop: "drop (n + k) S = drop k (tc_pending c) @ chan_bytes c"
  proof -
    have "drop (n + k) S = drop k (drop n S)" by (simp add: add.commute)
    then show ?thesis using a(8) k(1) by simp
  qed
  have lk: "length (take k (tc_pending c)) = k" using k(1) by simp
  have c': "c' = c\<lparr>tc_pending := drop k (tc_pending c),
      tc_unacked := tc_unacked c @ [\<lparr>os_seq = tc_our_next c, os_bytes = take k (tc_pending c), os_syn = False, os_last_sent = now\<rparr>],
      tc_our_next := tc_our_next c + of_nat k, tc_retransmit_deadline := Some (now + RETRANSMIT_TIMEOUT)\<rparr>"
    using assms(4) lk by (simp add: send_one_def Let_def)
  have tl: "tiles S isn j (tc_unacked c') (n + k)"
    unfolding tiles_append c' using a(9,10) part lk by (auto simp: tiles_append)
  have nx: "tc_our_next c' = isn + 1 + of_nat (n + k)" by (simp add: c' a(9))
  have uu: "unat (tc_our_next c' - tc_our_una c') = ?u + k" using u by (simp add: c')
  have "conn_inv key isn S c'"
  proof (rule conn_invI [OF _ _ _ _ _ _ len _ nx tl])
    show "j \<le> n + k - unat (tc_our_next c' - tc_our_una c')" "unat (tc_our_next c' - tc_our_una c') \<le> n + k + 1"
      "unat (tc_our_next c' - tc_our_una c') \<le> 65535"
      unfolding uu using a(11,12) k(3) by linarith+
  qed (use a(1-5) drop in \<open>simp_all add: c' chan_bytes_def\<close>)
  moreover have "emits config key isn S out out'"
    using assms(4) part a(1,9) by (auto simp: send_one_def Let_def intro!: emit_segment_emits)
  ultimately show ?thesis ..
qed

lemma send_pending_keeps: "keeps config key isn S (send_pending config now)"
proof -
  have "conn_inv key isn S c' \<and> emits config key isn S out out'"
    if "conn_inv key isn S c" "send_pending config now c out = (c', out')" for c out c' out'
    using that
  proof (induction config now c out rule: send_pending.induct)
    case (1 config now c out)
    show ?case
    proof (cases "tc_pending c \<noteq> [] \<and> length (tc_unacked c) < MAX_UNACKED_SEGMENTS \<and> send_take c \<noteq> 0")
      case True
      obtain c1 out1 where s: "send_one config now (send_take c) c out = (c1, out1)" by fastforce
      note i = send_one_inv [OF "1.prems"(1) refl _ s]
      have "send_pending config now c1 out1 = (c', out')"
        using "1.prems"(2) True s by (simp add: send_pending.simps [of config now c])
      with "1.IH" [OF True s [symmetric] refl] i True show ?thesis by (blast intro: emits_trans)
    next
      case False
      with "1.prems" show ?thesis by (auto simp: send_pending.simps [of config now c])
    qed
  qed
  then show ?thesis unfolding keeps_def by blast
qed

lemma tiles_member:
  "tiles S isn k ss n \<Longrightarrow> s \<in> set ss \<Longrightarrow> os_bytes s = [] \<or> (\<exists>j. os_seq s = isn + 1 + of_nat j \<and> stream_part S j (os_bytes s))"
  by (induction ss arbitrary: k) (auto split: if_splits)

lemma resend_emits:
  assumes "conn_inv key isn S c" "set ss \<subseteq> set (tc_unacked c)"
  shows "emits config key isn S out (fold (resend config c) ss out)"
  using assms(2)
proof (induction ss arbitrary: out)
  case Nil
  then show ?case by simp
next
  case (Cons s ss)
  have "os_bytes s = [] \<or> (\<exists>j. os_seq s = isn + 1 + of_nat j \<and> stream_part S j (os_bytes s))"
    using assms(1) Cons.prems by (auto elim!: conn_invE dest: tiles_member)
  then have "emits config key isn S out (resend config c s out)"
    unfolding resend_def using conn_inv_fields [OF assms(1)] by (intro emit_segment_emits) simp_all
  with Cons show ?case by (auto intro: emits_trans)
qed

lemma retransmit_keeps: "keeps config key isn S (retransmit config now)"
  unfolding keeps_def
proof (intro allI impI)
  fix c out c' out'
  assume inv: "conn_inv key isn S c" and r: "retransmit config now c out = (c', out')"
  define c1 where "c1 = c\<lparr>tc_retransmits := saturating_add (tc_retransmits c) 1\<rparr>"
  have inv1: "conn_inv key isn S c1" using inv by (simp add: c1_def)
  then have key: "tc_key c1 = key" "\<not> tc_fin_sent c1" by (auto dest: conn_inv_fields)
  have "emits config key isn S out (fold (resend config c1) (tc_unacked c1) out)"
    by (rule resend_emits [OF inv1]) simp
  moreover have "emits config key isn S out (emit_segment config c1 sq flags w [] [] out)" for sq flags w
    by (rule emit_segment_emits) (simp_all add: key)
  ultimately show "conn_inv key isn S c' \<and> emits config key isn S out out'"
    using r inv inv1 key(2)
    by (auto simp: retransmit_def Let_def c1_def [symmetric] split: option.splits if_splits)
qed

lemma maybe_send_fin_inv:
  "conn_inv key isn S c \<Longrightarrow> maybe_send_fin config now c out = (c', out') \<Longrightarrow>
     (tc_fin_sent c' \<or> conn_inv key isn S c') \<and> emits config key isn S out out'"
  by (auto simp: maybe_send_fin_def Let_def dest: conn_inv_fields intro!: emit_segment_emits split: if_splits)

lemma conn_teardown_inv:
  "conn_inv key isn S (conn_teardown now c) \<longleftrightarrow> conn_inv key isn S c" "tc_fin_sent (conn_teardown now c) = tc_fin_sent c"
  by (simp_all add: conn_teardown_def Let_def)

text \<open>The FIN is never taken back.\<close>

definition fin_mono :: "(tcp_conn \<Rightarrow> net_out \<Rightarrow> tcp_conn \<times> net_out) \<Rightarrow> bool" where
  "fin_mono f \<longleftrightarrow> (\<forall>c out. tc_fin_sent c \<longrightarrow> tc_fin_sent (fst (f c out)))"

lemma drain_items_fin: "tc_fin_sent (fst (drain_items config now items c out)) = tc_fin_sent c"
proof (induction items arbitrary: c out)
  case Nil
  then show ?case by (simp add: drain_items.simps [of config now "[]"])
next
  case (Cons ev rest)
  have "tc_fin_sent (fst (host_event_step config now ev (c\<lparr>tc_host_rx := ch\<rparr>) out)) = tc_fin_sent c" for ch
    by (simp add: host_event_step_def send_syn_ack_def Let_def split: host_event.splits)
  then show ?case by (simp add: drain_items.simps [of config now "ev # rest"] Let_def Cons split: prod.splits) (metis fst_conv)
qed

lemma send_pending_fin: "tc_fin_sent (fst (send_pending config now c out)) = tc_fin_sent c"
proof (induction config now c out rule: send_pending.induct)
  case (1 config now c out)
  have "tc_fin_sent (fst (send_one config now k c out)) = tc_fin_sent c" for k
    by (simp add: send_one_def Let_def)
  with 1 show ?case
    by (simp add: send_pending.simps [of config now c] split: prod.splits) (metis fst_conv)
qed

lemma fin_mono_ops:
  "fin_mono (drain_host_events config now)" "fin_mono (retry_held config)" "fin_mono (send_pending config now)"
  "fin_mono (retransmit config now)" "fin_mono (maybe_send_fin config now)"
  by (auto simp: fin_mono_def drain_host_events_def drain_items_fin send_pending_fin retry_held_def retransmit_def
      maybe_send_fin_def Let_def split: option.splits prod.splits try_send_error.splits)

section \<open>Runs\<close>

lemma unless_closed_keeps:
  assumes "keeps config key isn S f" "conn_inv key isn S (fst st)" "emits config key isn S out (snd st)"
  shows "conn_inv key isn S (fst (unless_closed f st)) \<and> emits config key isn S out (snd (unless_closed f st))"
proof -
  obtain c o1 where st: "st = (c, o1)" by fastforce
  obtain c' o2 where f: "f c o1 = (c', o2)" by fastforce
  show ?thesis
    using keepsD [OF assms(1) _ f] assms(2,3) st f by (auto simp: unless_closed_def intro: emits_trans)
qed

lemma poll_conn_inv:
  assumes "conn_inv key isn S c" "poll_conn config now c out = (c', out')"
  shows "(tc_fin_sent c' \<or> conn_inv key isn S c') \<and> emits config key isn S out out'"
proof -
  define a where "a = drain_host_events config now c out"
  define b where "b = unless_closed (retry_held config) a"
  define d where "d = unless_closed (send_pending config now) b"
  define e where "e = unless_closed (retransmit config now) d"
  note keep = unless_closed_keeps [where config = config and key = key and isn = isn and S = S and out = out]
  have "conn_inv key isn S (fst a) \<and> emits config key isn S out (snd a)"
    using keepsD [OF drain_host_events_keeps assms(1)] by (metis a_def prod.collapse)
  then have "conn_inv key isn S (fst b) \<and> emits config key isn S out (snd b)"
    unfolding b_def using keep [OF retry_held_keeps] by blast
  then have "conn_inv key isn S (fst d) \<and> emits config key isn S out (snd d)"
    unfolding d_def using keep [OF send_pending_keeps] by blast
  then have e: "conn_inv key isn S (fst e)" "emits config key isn S out (snd e)"
    unfolding e_def using keep [OF retransmit_keeps] by blast+
  obtain c1 o1 where e1: "e = (c1, o1)" by fastforce
  obtain c2 o2 where f: "unless_closed (maybe_send_fin config now) e = (c2, o2)" by fastforce
  have "(tc_fin_sent c2 \<or> conn_inv key isn S c2) \<and> emits config key isn S out o2"
    using maybe_send_fin_inv [of key isn S c1 config now o1 c2 o2] e e1 f
    by (auto simp: unless_closed_def intro: emits_trans split: if_splits)
  moreover have "c' = conn_teardown now c2" "out' = o2"
    using assms(2) f unfolding poll_conn_def Let_def a_def b_def d_def e_def by simp_all
  ultimately show ?thesis by (simp add: conn_teardown_inv)
qed

lemma conn_step_inv:
  assumes "conn_inv key isn S c" "conn_step config ev (c, out, S) = (c', out', S')"
  shows "(tc_fin_sent c' \<or> conn_inv key isn S' c') \<and> emits config key isn S' out out' \<and> (\<exists>x. S' = S @ x)"
proof (cases ev)
  case (GuestSegment seg)
  with assms keepsD [OF process_segment_keeps assms(1)] show ?thesis by (auto split: prod.splits)
next
  case (PollAt now)
  with assms poll_conn_inv [OF assms(1)] show ?thesis by (auto split: prod.splits)
next
  case (HostSends e)
  have "conn_inv key isn (S @ event_bytes e) (c\<lparr>tc_host_rx := (tc_host_rx c)\<lparr>ch_items := ch_items (tc_host_rx c) @ [e]\<rparr>\<rparr>)"
    using assms(1)
  proof (rule conn_invE)
    fix n k
    assume a: "tc_key c = key" "tc_our_isn c = isn" "\<not> tc_fin_sent c" "unat (tc_guest_mss c) \<le> 1460"
      "unat (tc_guest_window c) \<le> 65535" "unat (tc_our_next c - tc_our_una c) \<le> 65535"
      "n \<le> length S" "drop n S = tc_pending c @ chan_bytes c" "tc_our_next c = isn + 1 + of_nat n"
      "tiles S isn k (tc_unacked c) n" "k \<le> n - unat (tc_our_next c - tc_our_una c)"
      "unat (tc_our_next c - tc_our_una c) \<le> n + 1"
    then show ?thesis
      by (intro conn_invI [where n = n and k = k]) (simp_all add: tiles_stream_append chan_bytes_def)
  qed
  with HostSends assms show ?thesis by (auto split: if_splits)
next
  case HostReceives
  with assms show ?thesis by auto
next
  case HostExits
  have "conn_inv key isn S (c\<lparr>tc_guest_tx := x, tc_host_rx := (tc_host_rx c)\<lparr>ch_disconnected := True\<rparr>\<rparr>)" for x
    using assms(1) by (subst conn_inv_cong [of _ c]) (simp_all add: chan_bytes_def)
  with HostExits assms show ?thesis by auto
qed

lemma process_segment_fin: "tc_fin_sent (fst (process_segment config seg c out)) = tc_fin_sent c"
proof -
  have "tc_fin_sent (process_ack seg c) = tc_fin_sent c" by (simp add: process_ack_def Let_def)
  moreover have "tc_fin_sent (fst (process_payload seg c)) = tc_fin_sent c" for c
    by (simp add: process_payload_def split: option.splits prod.splits try_send_error.splits)
  moreover have "tc_fin_sent (fst (process_fin seg (c, a))) = tc_fin_sent c" for c a
    by (simp add: process_fin_def Let_def)
  ultimately show ?thesis
    by (simp add: process_segment_def Let_def split_def)
qed

lemma unless_closed_fin: "fin_mono f \<Longrightarrow> tc_fin_sent (fst st) \<Longrightarrow> tc_fin_sent (fst (unless_closed f st))"
  by (cases st) (simp add: unless_closed_def fin_mono_def)

lemma poll_conn_fin: "tc_fin_sent c \<Longrightarrow> tc_fin_sent (fst (poll_conn config now c out))"
proof -
  assume "tc_fin_sent c"
  then have "tc_fin_sent (fst (drain_host_events config now c out))"
    using fin_mono_ops(1) by (simp add: fin_mono_def)
  then have "tc_fin_sent (fst (unless_closed (maybe_send_fin config now) (unless_closed (retransmit config now)
      (unless_closed (send_pending config now) (unless_closed (retry_held config) (drain_host_events config now c out))))))"
    by (intro unless_closed_fin fin_mono_ops)
  then show ?thesis by (simp add: poll_conn_def Let_def conn_teardown_inv split_def)
qed

lemma conn_step_fin: "tc_fin_sent c \<Longrightarrow> tc_fin_sent (fst (conn_step config ev (c, out, S)))"
  using process_segment_fin poll_conn_fin
  by (cases ev) (auto simp: split_def Let_def)

lemma conn_run_Cons: "conn_run config (e # es) st = conn_run config es (conn_step config e st)"
  by (simp add: conn_run_def)

lemma conn_run_fin: "tc_fin_sent (fst st) \<Longrightarrow> tc_fin_sent (fst (conn_run config es st))"
proof (induction es arbitrary: st)
  case Nil
  then show ?case by (simp add: conn_run_def)
next
  case (Cons e es)
  then show ?case using conn_step_fin by (metis conn_run_Cons prod.collapse)
qed

lemma conn_run_inv:
  assumes "conn_inv key isn S c" "conn_run config es (c, out, S) = (c', out', S')" "\<not> tc_fin_sent c'"
  shows "conn_inv key isn S' c' \<and> emits config key isn S' out out' \<and> (\<exists>x. S' = S @ x)"
  using assms
proof (induction es arbitrary: c out S)
  case Nil
  then show ?case by (simp add: conn_run_def)
next
  case (Cons e es)
  obtain c1 o1 S1 where s: "conn_step config e (c, out, S) = (c1, o1, S1)" by (metis prod_cases3)
  note st = conn_step_inv [OF Cons.prems(1) s]
  have r: "conn_run config es (c1, o1, S1) = (c', out', S')" using Cons.prems(2) s by (simp add: conn_run_Cons)
  have "\<not> tc_fin_sent c1" using conn_run_fin [of "(c1, o1, S1)" config es] r Cons.prems(3) by auto
  with st have "conn_inv key isn S1 c1" by blast
  from Cons.IH [OF this r Cons.prems(3)] obtain x where
    i: "conn_inv key isn S' c'" "emits config key isn S' o1 out'" "S' = S1 @ x" by blast
  have "emits config key isn S' out o1"
    using st i(3) packet_ok_append unfolding emits_def by blast
  with i st show ?case by (auto intro: emits_trans)
qed

lemma new_conn_inv: "conn_inv key isn [] (new_conn key seg isn)"
proof -
  have "unat (tc_guest_mss (new_conn key seg isn)) \<le> 1460"
    by (simp add: new_conn_def Let_def OUR_MSS_def min_def word_le_nat_alt)
  moreover have "unat (ucast (sg_window seg) :: u32) \<le> 65535"
    using unat_bound [of "sg_window seg"] by (simp add: unat_ucast_up)
  ultimately show ?thesis
    by (intro conn_invI [where n = 0 and k = 0]) (simp_all add: new_conn_def Let_def fresh_channel_def chan_bytes_def)
qed

section \<open>Properties\<close>

text \<open>
  C8: Integrity of the stream from the host to the guest. For every interleaving of guest segments,
  polls and host activity, as long as the FIN has not been sent: every packet emitted parses with
  valid checksums, belongs to the connection, and any payload it carries, first sent or retransmitted,
  is exactly the part of the host's byte stream that its sequence number names. The bytes handed over
  by the host are, in order, those the guest has acknowledged, those in the retransmission queue, those
  pending and those in the channel, so none is dropped before the guest acknowledged it; and never more
  than 65535 sequence numbers are in flight.
\<close>

theorem tcp_stream_integrity:
  assumes "conn_run config es (new_conn key syn isn, out, []) = (c, out', S)" "\<not> tc_fin_sent c"
  shows "(\<exists>fs. no_packets out' = no_packets out @ fs \<and> (\<forall>f \<in> set fs. packet_ok config key isn S f))
    \<and> (\<exists>acked. S = acked @ concat (map os_bytes (tc_unacked c)) @ tc_pending c @ chan_bytes c
         \<and> (acked \<noteq> [] \<longrightarrow> unat (tc_our_next c - tc_our_una c) \<le> length (concat (map os_bytes (tc_unacked c)))))
    \<and> unat (tc_our_next c - tc_our_una c) \<le> 65535"
proof -
  from conn_run_inv [OF new_conn_inv assms]
  have inv: "conn_inv key isn S c" and em: "emits config key isn S out out'" by blast+
  from inv show ?thesis
  proof (rule conn_invE)
    fix n k
    assume a: "unat (tc_our_next c - tc_our_una c) \<le> 65535" "n \<le> length S" "drop n S = tc_pending c @ chan_bytes c"
      "tiles S isn k (tc_unacked c) n" "k \<le> n - unat (tc_our_next c - tc_our_una c)"
    have kn: "k \<le> n" by (rule tiles_le [OF a(4)])
    have q: "concat (map os_bytes (tc_unacked c)) = slice k (n - k) S" by (rule tiles_concat [OF a(4,2)])
    have "take n S = take k S @ slice k (n - k) S" using kn by (metis slice_def take_add le_add_diff_inverse)
    then have "S = take k S @ slice k (n - k) S @ tc_pending c @ chan_bytes c"
      using append_take_drop_id [of n S] a(3) by (metis append.assoc)
    moreover have "take k S \<noteq> [] \<longrightarrow> unat (tc_our_next c - tc_our_una c) \<le> length (slice k (n - k) S)"
      using a(2,5) kn by (auto simp: slice_def)
    ultimately show ?thesis using em a(1) q unfolding emits_def by metis
  qed
qed

definition demo_key :: conn_key where
  "demo_key = \<lparr>k_local_port = 40000, k_remote_addr = Ipv4Addr 93 184 216 34, k_remote_port = 80\<rparr>"

definition demo_syn :: segment where
  "demo_syn = \<lparr>sg_sport = 40000, sg_dport = 80, sg_seq = 1000, sg_ack = 0, sg_flags = FLAG_SYN, sg_window = 64240,
     sg_options = [], sg_payload = []\<rparr>"

definition demo_out :: net_out where
  "demo_out = \<lparr>no_ip_id = 0, no_counters = net_counters_default, no_packets = []\<rparr>"

lemmas conn_eval = drain_host_events_def drain_items.simps host_event_step_def send_syn_ack_def retry_held_def
  send_take_def send_one_def send_pending.simps retransmit_def maybe_send_fin_def conn_teardown_def unless_closed_def
  TCP_PENDING_CAP_def MAX_UNACKED_SEGMENTS_def CHANNEL_CAPACITY_def RETRANSMIT_TIMEOUT_def Let_def

lemma demo_conn:
  "new_conn demo_key demo_syn 7 = \<lparr>tc_key = demo_key, tc_established = False, tc_guest_next = 1001,
     tc_guest_window = 64240, tc_guest_mss = 536, tc_our_isn = 7, tc_our_next = 8, tc_our_una = 7, tc_pending = [],
     tc_unacked = [], tc_retransmit_deadline = None, tc_retransmits = 0, tc_held_guest = None,
     tc_guest_tx = fresh_channel, tc_host_rx = fresh_channel, tc_fin_sent = False, tc_fin_acked = False,
     tc_fin_seq = 0, tc_fin_pending = False, tc_guest_fin = False, tc_guest_fin_acked = False,
     tc_host_eof = False, tc_linger_deadline = None, tc_closed = False\<rparr>"
  by (simp add: new_conn_def demo_syn_def parse_mss_def parse_mss_from.simps OUR_MSS_def)

theorem tcp_stream_integrity_witness:
  "\<exists>c out. conn_run slirp_defaults [HostSends Connected, HostSends (HostData [1, 2, 3]), PollAt 5]
       (new_conn demo_key demo_syn 7, demo_out, []) = (c, out, [1, 2, 3])
     \<and> map os_bytes (tc_unacked c) = [[], [1, 2, 3]]
     \<and> list_all (packet_ok slirp_defaults demo_key 7 [1, 2, 3]) (no_packets out)"
proof -
  let ?es = "[HostSends Connected, HostSends (HostData [1, 2, 3]), PollAt 5]"
  let ?st = "conn_run slirp_defaults ?es (new_conn demo_key demo_syn 7, demo_out, [])"
  have s: "\<not> tc_fin_sent (fst ?st)" "map os_bytes (tc_unacked (fst ?st)) = [[], [1, 2, 3]]" "snd (snd ?st) = [1, 2, 3]"
    by (simp_all add: conn_run_def demo_conn poll_conn_def conn_eval fresh_channel_def)
  obtain c out S where st: "?st = (c, out, S)" by (metis prod_cases3)
  with s tcp_stream_integrity [OF st] show ?thesis
    by (auto simp: demo_out_def list_all_iff)
qed

text \<open>An established connection with nothing outstanding in either direction.\<close>

definition quiet :: "tcp_conn \<Rightarrow> bool" where
  "quiet c \<longleftrightarrow> tc_established c \<and> tc_pending c = [] \<and> tc_unacked c = [] \<and> tc_our_una c = tc_our_next c
     \<and> tc_retransmit_deadline c = None \<and> tc_held_guest c = None \<and> tc_host_rx c = fresh_channel
     \<and> \<not> ch_disconnected (tc_guest_tx c) \<and> \<not> tc_fin_sent c \<and> \<not> tc_fin_acked c \<and> \<not> tc_fin_pending c \<and> \<not> tc_guest_fin c
     \<and> \<not> tc_guest_fin_acked c \<and> \<not> tc_host_eof c \<and> tc_linger_deadline c = None \<and> \<not> tc_closed c"

lemmas receive_eval = process_segment_def process_ack_def process_payload_def process_fin_def try_send_def Let_def

text \<open>
  C33: A half-closed request loses its response. When the guest closes its sending side on a quiet
  connection whose host is still answering, the next poll already sends the FIN of the host side,
  although the host has not closed; bytes the host delivers afterwards are sent after the FIN, with
  sequence numbers one past their place in the stream, where the guest discards them.
\<close>

theorem tcp_data_after_fin:
  assumes "quiet c" "sg_flags fin = FLAG_FIN OR FLAG_ACK" "sg_payload fin = []" "sg_seq fin = tc_guest_next c"
    "sg_ack fin = tc_our_next c" "bs \<noteq> []" "length bs \<le> unat (tc_guest_mss c)" "length bs + 1 \<le> unat (sg_window fin)"
    "conn_run config [GuestSegment fin, PollAt now, HostSends (HostData bs), PollAt now'] (c, out, S) = (c', out', S')"
  shows "tc_fin_sent c' \<and> \<not> tc_host_eof c' \<and> tc_fin_seq c' = tc_our_next c
    \<and> map (\<lambda>s. (os_seq s, os_bytes s)) (tc_unacked c') = [(tc_our_next c + 1, bs)]"
proof -
  let ?c1 = "c\<lparr>tc_guest_window := ucast (sg_window fin), tc_guest_next := tc_guest_next c + 1, tc_guest_fin := True,
    tc_guest_fin_acked := True, tc_fin_pending := True\<rparr>"
  have f: "sg_flags fin AND FLAG_RST = 0" "sg_flags fin AND FLAG_ACK \<noteq> 0" "sg_flags fin AND FLAG_FIN \<noteq> 0"
    by (simp_all add: assms(2) FLAG_FIN_def FLAG_ACK_def FLAG_RST_def)
  have s: "seq_ge x x" "seq_le x x" "\<not> seq_gt x x" for x by (simp_all add: seq_ge_def seq_le_def seq_gt_def)
  have c1: "fst (process_segment config fin c out) = ?c1"
    using assms(1,3,4,5) by (simp add: receive_eval f s quiet_def)
  let ?c2 = "?c1\<lparr>tc_fin_seq := tc_our_next c, tc_our_next := tc_our_next c + 1, tc_fin_sent := True,
    tc_retransmit_deadline := Some (now + RETRANSMIT_TIMEOUT)\<rparr>"
  have c2: "fst (poll_conn config now ?c1 o1) = ?c2" for o1
    using assms(1) by (simp add: poll_conn_def conn_eval quiet_def fresh_channel_def)
  let ?c3 = "?c2\<lparr>tc_host_rx := \<lparr>ch_items = [HostData bs], ch_disconnected = False\<rparr>\<rparr>"
  have w: "unat (ucast (sg_window fin) :: u32) = unat (sg_window fin)" by (simp add: unat_ucast_up)
  have len: "length bs < 262144" using assms(7) unat_bound [of "tc_guest_mss c"] by simp
  define c4 where "c4 = ?c2\<lparr>tc_pending := bs\<rparr>"
  have d: "drain_host_events config now' ?c3 o2 = (c4, o2)" for o2
    using assms(1,6) len by (simp add: conn_eval quiet_def c4_def fresh_channel_def)
  have take: "send_take c4 = length bs"
    using assms(1,7,8) w by (cases bs) (simp_all add: send_take_def c4_def quiet_def Let_def)
  have "send_pending config now' c4 o2 = send_one config now' (length bs) c4 o2" for o2
    using assms(1,6) take
    by (simp add: send_pending.simps [of config now' c4] MAX_UNACKED_SEGMENTS_def c4_def quiet_def)
      (simp add: send_one_def Let_def send_pending.simps MAX_UNACKED_SEGMENTS_def)
  then have c5: "tc_fin_sent (fst (poll_conn config now' ?c3 o2)) \<and> \<not> tc_host_eof (fst (poll_conn config now' ?c3 o2))
      \<and> tc_fin_seq (fst (poll_conn config now' ?c3 o2)) = tc_our_next c
      \<and> map (\<lambda>s. (os_seq s, os_bytes s)) (tc_unacked (fst (poll_conn config now' ?c3 o2))) = [(tc_our_next c + 1, bs)]" for o2
    using assms(1) unfolding poll_conn_def d
    by (simp add: unless_closed_def retry_held_def send_one_def retransmit_def maybe_send_fin_def conn_teardown_def
        c4_def quiet_def Let_def RETRANSMIT_TIMEOUT_def)
  obtain o1 where r1: "process_segment config fin c out = (?c1, o1)" using c1 by (metis prod.collapse)
  obtain o2 where r2: "poll_conn config now ?c1 o1 = (?c2, o2)" using c2 by (metis prod.collapse)
  have "c' = fst (poll_conn config now' ?c3 o2)"
    using assms(9) assms(1)
    by (auto simp: conn_run_def r1 r2 quiet_def fresh_channel_def CHANNEL_CAPACITY_def split: prod.splits)
  with c5 show ?thesis by simp
qed

definition demo_quiet :: tcp_conn where
  "demo_quiet = (new_conn demo_key demo_syn 7)\<lparr>tc_established := True, tc_our_una := 8\<rparr>"

definition demo_fin :: segment where
  "demo_fin = demo_syn\<lparr>sg_seq := 1001, sg_ack := 8, sg_flags := FLAG_FIN OR FLAG_ACK\<rparr>"

lemma demo_quiet_ok: "quiet demo_quiet" "tc_guest_next demo_quiet = 1001" "tc_our_next demo_quiet = 8"
  "tc_guest_mss demo_quiet = 536"
  by (simp_all add: quiet_def demo_quiet_def demo_conn fresh_channel_def)

theorem tcp_data_after_fin_witness:
  "map (\<lambda>s. (os_seq s, os_bytes s)) (tc_unacked (fst (conn_run slirp_defaults
      [GuestSegment demo_fin, PollAt 5, HostSends (HostData [1, 2]), PollAt 6] (demo_quiet, demo_out, [])))) = [(9, [1, 2])]"
proof -
  let ?es = "[GuestSegment demo_fin, PollAt 5, HostSends (HostData [1, 2]), PollAt 6]"
  obtain c out S where r: "conn_run slirp_defaults ?es (demo_quiet, demo_out, []) = (c, out, S)" by (metis prod_cases3)
  have "sg_flags demo_fin = FLAG_FIN OR FLAG_ACK" "sg_payload demo_fin = []" "sg_seq demo_fin = tc_guest_next demo_quiet"
    "sg_ack demo_fin = tc_our_next demo_quiet" "unat (sg_window demo_fin) = 64240"
    by (simp_all add: demo_fin_def demo_syn_def demo_quiet_ok)
  then show ?thesis
    using tcp_data_after_fin [OF demo_quiet_ok(1), of demo_fin "[1, 2]" slirp_defaults 5 6 demo_out "[]" c out S] r
    by (simp add: demo_quiet_ok)
qed

text \<open>
  C34: A segment held back by a full channel can be delivered twice. When the channel to the host is
  full the segment is kept; if the host makes room and the guest retransmits before the next poll, the
  retransmission is accepted and the poll sends the kept copy again, so the host receives the payload
  twice and the guest gets an acknowledgement for bytes it has not sent.
\<close>

theorem tcp_held_segment_twice:
  assumes "quiet c" "length (ch_items (tc_guest_tx c)) = CHANNEL_CAPACITY" "sg_flags seg = FLAG_ACK"
    "sg_payload seg \<noteq> []" "sg_seq seg = tc_guest_next c" "sg_ack seg = tc_our_next c"
    "conn_run config [GuestSegment seg, HostReceives, HostReceives, GuestSegment seg, PollAt now] (c, out, S) = (c', out', S')"
  shows "ch_items (tc_guest_tx c') = drop 2 (ch_items (tc_guest_tx c)) @ [sg_payload seg, sg_payload seg]
    \<and> tc_guest_next c' = tc_guest_next c + 2 * of_nat (length (sg_payload seg))"
proof -
  have f: "sg_flags seg AND FLAG_RST = 0" "sg_flags seg AND FLAG_ACK \<noteq> 0" "sg_flags seg AND FLAG_FIN = 0"
    by (simp_all add: assms(3) FLAG_FIN_def FLAG_ACK_def FLAG_RST_def)
  have s: "seq_ge x x" "seq_le x x" "\<not> seq_gt x x" for x by (simp_all add: seq_ge_def seq_le_def seq_gt_def)
  obtain a b items where ch: "tc_guest_tx c = \<lparr>ch_items = a # b # items, ch_disconnected = False\<rparr>" "length items = 30"
  proof -
    obtain a b items where "ch_items (tc_guest_tx c) = a # b # items" "length items = 30"
      using assms(2) by (auto simp: CHANNEL_CAPACITY_def numeral_eq_Suc length_Suc_conv)
    then show thesis using that assms(1) by (cases "tc_guest_tx c") (simp add: quiet_def)
  qed
  let ?n = "of_nat (length (sg_payload seg)) :: u32"
  let ?c1 = "c\<lparr>tc_guest_window := ucast (sg_window seg), tc_held_guest := Some (sg_payload seg)\<rparr>"
  let ?c2 = "?c1\<lparr>tc_guest_tx := \<lparr>ch_items = items, ch_disconnected = False\<rparr>\<rparr>"
  let ?c3 = "?c2\<lparr>tc_guest_tx := \<lparr>ch_items = items @ [sg_payload seg], ch_disconnected = False\<rparr>, tc_guest_next := tc_guest_next c + ?n\<rparr>"
  have c1: "process_segment config seg c out = (?c1, out)"
    using assms(1,4,5,6) ch by (simp add: receive_eval f s quiet_def CHANNEL_CAPACITY_def)
  have c3: "fst (process_segment config seg ?c2 out) = ?c3"
    using assms(1,4,5,6) ch by (simp add: receive_eval f s quiet_def CHANNEL_CAPACITY_def)
  then obtain o3 where r3: "process_segment config seg ?c2 out = (?c3, o3)" by (metis prod.collapse)
  have "ch_items (tc_guest_tx (fst (poll_conn config now ?c3 o3))) = items @ [sg_payload seg, sg_payload seg]
      \<and> tc_guest_next (fst (poll_conn config now ?c3 o3)) = tc_guest_next c + ?n + ?n"
    using assms(1) ch(2) by (simp add: poll_conn_def conn_eval try_send_def quiet_def fresh_channel_def)
  moreover have "c' = fst (poll_conn config now ?c3 o3)"
    using assms(7) by (auto simp: conn_run_def c1 ch r3 split: prod.splits)
  ultimately show ?thesis by (simp add: ch)
qed

theorem tcp_held_segment_twice_witness:
  "let c = demo_quiet\<lparr>tc_guest_tx := \<lparr>ch_items = replicate 32 [0], ch_disconnected = False\<rparr>\<rparr>;
       seg = demo_fin\<lparr>sg_flags := FLAG_ACK, sg_payload := [5]\<rparr>
   in drop 30 (ch_items (tc_guest_tx (fst (conn_run slirp_defaults
        [GuestSegment seg, HostReceives, HostReceives, GuestSegment seg, PollAt 5] (c, demo_out, []))))) = [[5], [5]]"
proof -
  define c where "c = demo_quiet\<lparr>tc_guest_tx := \<lparr>ch_items = replicate 32 [0 :: u8], ch_disconnected = False\<rparr>\<rparr>"
  define seg where "seg = demo_fin\<lparr>sg_flags := FLAG_ACK, sg_payload := [5]\<rparr>"
  let ?es = "[GuestSegment seg, HostReceives, HostReceives, GuestSegment seg, PollAt 5]"
  have q: "quiet c" "length (ch_items (tc_guest_tx c)) = CHANNEL_CAPACITY"
    using demo_quiet_ok by (simp_all add: c_def quiet_def CHANNEL_CAPACITY_def)
  have g: "sg_flags seg = FLAG_ACK" "sg_payload seg \<noteq> []" "sg_seq seg = tc_guest_next c" "sg_ack seg = tc_our_next c"
    by (simp_all add: seg_def c_def demo_fin_def demo_quiet_ok)
  obtain c' out S where r: "conn_run slirp_defaults ?es (c, demo_out, []) = (c', out, S)" by (metis prod_cases3)
  have "ch_items (tc_guest_tx c') = replicate 30 [0] @ [[5], [5]]"
    using tcp_held_segment_twice [OF q g r] by (simp add: c_def seg_def)
  then have "drop 30 (ch_items (tc_guest_tx (fst (conn_run slirp_defaults ?es (c, demo_out, []))))) = [[5], [5]]"
    by (simp add: r)
  then show ?thesis by (simp add: c_def seg_def Let_def)
qed

end
