(* ===== verification/Net_Dns.thy ===== *)
theory Net_Dns
  imports Net_Tcp
begin

text \<open>
  The DNS forwarder of the network backend (\<open>net/udp.rs\<close>) and its fallback to the resolver of the
  host system (\<open>net/system_dns.rs\<close>).

  The host socket is outside the model: a send reports success as an argument, and a poll is given the
  datagrams that have arrived. The process-wide resolver workers are outside it too: whether their
  queue takes a job is an argument, the jobs handed over are recorded, and their results arrive in the
  channel of the resolver. Time is in nanoseconds.
\<close>

section \<open>System resolver\<close>

definition SD_CAPACITY :: nat where "SD_CAPACITY = 64"
definition SD_TIMEOUT :: nat where "SD_TIMEOUT = 30000000000"

datatype ip_addr = V4 ipv4_addr | V6 bytes

record question =
  qu_wire :: bytes
  qu_name :: bytes
  qu_kind :: u16

definition label_byte :: "u8 \<Rightarrow> bool" where
  "label_byte b \<longleftrightarrow> (48 \<le> b \<and> b \<le> 57) \<or> (65 \<le> b \<and> b \<le> 90) \<or> (97 \<le> b \<and> b \<le> 122) \<or> b = 45 \<or> b = 95"

text \<open>The label loop: the labels and the offset after the terminating zero length.\<close>

function question_labels :: "bytes \<Rightarrow> nat \<Rightarrow> bytes list \<Rightarrow> (bytes list \<times> nat) option" where
  "question_labels packet offset labels =
     (if length packet \<le> offset then None
      else let n = unat (packet ! offset); offset = offset + 1 in
           if n = 0 then Some (labels, offset)
           else if 63 < n then None
           else if length packet < offset + n then None
           else let label = slice offset n packet in
                if \<not> list_all label_byte label then None
                else let offset = offset + n in
                     if 267 < offset then None else question_labels packet offset (labels @ [label]))"
  by pat_completeness auto
termination
  by (relation "measure (\<lambda>(packet, offset, _). length packet - offset)") (auto simp: Let_def)

declare question_labels.simps [simp del]

fun join_dots :: "bytes list \<Rightarrow> bytes" where
  "join_dots [] = []"
| "join_dots [l] = l"
| "join_dots (l # ls) = l @ [46] @ join_dots ls"

definition question_parse :: "bytes \<Rightarrow> question option" where
  "question_parse packet =
     (if length packet < 12 \<or> 4096 < length packet \<or> packet ! 2 AND 0xFE \<noteq> 0
         \<or> slice 4 2 packet \<noteq> [0, 1] \<or> slice 6 4 packet \<noteq> [0, 0, 0, 0] then None
      else case question_labels packet 12 [] of
        None \<Rightarrow> None
      | Some (labels, offset) \<Rightarrow>
          if length packet < offset + 4 then None
          else let trailer = slice offset 4 packet in
               if drop 2 trailer \<noteq> [0, 1] then None
               else let name = join_dots labels in
                    if name = [] \<or> 253 < length name then None
                    else Some \<lparr>qu_wire = take (offset + 4) packet, qu_name = name,
                           qu_kind = from_be [trailer ! 0, trailer ! 1]\<rparr>)"

definition address_record :: "u16 \<Rightarrow> ip_addr \<Rightarrow> bytes option" where
  "address_record kind a =
     (case a of V4 ip \<Rightarrow> if kind = 1 then Some (octets ip) else None
              | V6 bs \<Rightarrow> if kind = 28 then Some bs else None)"

text \<open>The loop over the addresses: the answer, the addresses seen and the count of records.\<close>

fun answer_records :: "u16 \<Rightarrow> ip_addr list \<Rightarrow> bytes \<times> ip_addr list \<times> u16 \<Rightarrow> bytes \<times> u16" where
  "answer_records kind [] (answer, seen, n) = (answer, n)"
| "answer_records kind (a # as) (answer, seen, n) =
     (if a \<in> set seen then answer_records kind as (answer, seen, n)
      else case address_record kind a of
        None \<Rightarrow> answer_records kind as (answer, seen, n)
      | Some bs \<Rightarrow>
          if 512 < length answer + 12 + length bs then (answer[2 := answer ! 2 OR 2], n)
          else answer_records kind as
                 (answer @ [0xC0, 0x0C] @ to_be 2 kind @ [0, 1, 0, 0, 0, 0] @ to_be 2 (of_nat (length bs) :: u16) @ bs,
                  seen @ [a], n + 1))"

definition question_answer :: "question \<Rightarrow> unit + ip_addr list \<Rightarrow> bytes" where
  "question_answer q addresses =
     (let answer = qu_wire q;
          unsupported = (qu_kind q \<noteq> 1 \<and> qu_kind q \<noteq> 28);
          rcode = (if unsupported then 4 else case addresses of Inl _ \<Rightarrow> 2 | Inr _ \<Rightarrow> (0 :: u8));
          answer = answer[2 := 0x80 OR (qu_wire q ! 2 AND 1)];
          answer = answer[3 := 0x80 OR rcode];
          answer = splice 6 (replicate 6 0) answer;
          (answer, n) = (if unsupported then (answer, 0)
                         else answer_records (qu_kind q) (case addresses of Inl _ \<Rightarrow> [] | Inr as \<Rightarrow> as) (answer, [], 0))
      in splice 6 (to_be 2 n) answer)"

record sd_pending =
  sp_port :: u16
  sp_question :: question
  sp_deadline :: nat

record sd_job =
  sj_id :: u64
  sj_name :: bytes
  sj_deadline :: nat

type_synonym resolved = "u64 \<times> (unit + ip_addr list)"

record system_dns =
  sd_receive :: "resolved list"
  sd_table :: "(u64 \<times> sd_pending) list"
  sd_next_id :: u64
  sd_jobs :: "sd_job list"

definition system_dns_new :: system_dns where
  "system_dns_new = \<lparr>sd_receive = [], sd_table = [], sd_next_id = 0, sd_jobs = []\<rparr>"

text \<open>\<open>queue_ok\<close>: the workers exist and their queue takes the job.\<close>

definition sd_submit :: "bool \<Rightarrow> nat \<Rightarrow> bytes \<Rightarrow> u16 \<Rightarrow> system_dns \<Rightarrow> bool \<times> system_dns" where
  "sd_submit queue_ok now packet port s =
     (case question_parse packet of
        None \<Rightarrow> (False, s)
      | Some q \<Rightarrow>
          if SD_CAPACITY \<le> length (sd_table s) then (False, s)
          else case checked_add (sd_next_id s) 1 of
            None \<Rightarrow> (False, s)
          | Some next \<Rightarrow>
              let i = sd_next_id s;
                  s = s\<lparr>sd_next_id := next\<rparr>;
                  deadline = now + SD_TIMEOUT;
                  entry = \<lparr>sp_port = port, sp_question = q, sp_deadline = deadline\<rparr>
              in if qu_kind q = 1 \<or> qu_kind q = 28
                 then (if \<not> queue_ok then (False, s)
                       else (True, s\<lparr>sd_jobs := sd_jobs s @ [\<lparr>sj_id = i, sj_name = qu_name q, sj_deadline = deadline\<rparr>],
                                     sd_table := AList.update i entry (sd_table s)\<rparr>))
                 else if SD_CAPACITY \<le> length (sd_receive s) then (False, s)
                 else (True, s\<lparr>sd_receive := sd_receive s @ [(i, Inl ())],
                               sd_table := AList.update i entry (sd_table s)\<rparr>))"

fun sd_take_results ::
  "nat \<Rightarrow> resolved list \<Rightarrow> (u64 \<times> sd_pending) list \<Rightarrow> (u16 \<times> bytes) list \<times> (u64 \<times> sd_pending) list" where
  "sd_take_results now [] table = ([], table)"
| "sd_take_results now ((i, addresses) # rs) table =
     (case map_of table i of
        None \<Rightarrow> sd_take_results now rs table
      | Some p \<Rightarrow>
          let answer = question_answer (sp_question p) (if now < sp_deadline p then addresses else Inl ());
              (answers, table) = sd_take_results now rs (AList.delete i table)
          in ((sp_port p, answer) # answers, table))"

definition sd_poll :: "nat \<Rightarrow> system_dns \<Rightarrow> (u16 \<times> bytes) list \<times> system_dns" where
  "sd_poll now s =
     (let (answers, table) = sd_take_results now (sd_receive s) (sd_table s);
          live = (\<lambda>(_, p). now < sp_deadline p);
          late = map (\<lambda>(_, p). (sp_port p, question_answer (sp_question p) (Inl ()))) (filter (Not \<circ> live) table)
      in (answers @ late, s\<lparr>sd_receive := [], sd_table := filter live table\<rparr>))"

definition sd_reset :: "system_dns \<Rightarrow> system_dns" where
  "sd_reset s = s\<lparr>sd_table := [], sd_receive := []\<rparr>"

section \<open>Forwarder\<close>

definition DNS_HEADER_BYTES :: nat where "DNS_HEADER_BYTES = 12"
definition MAX_PENDING_QUERIES :: nat where "MAX_PENDING_QUERIES = 1024"
definition DNS_QUERY_TIMEOUT :: nat where "DNS_QUERY_TIMEOUT = 30000000000"

type_synonym socket_addr = "ipv4_addr \<times> u16"

record pending_query =
  pq_guest_id :: u16
  pq_guest_port :: u16
  pq_created :: nat

record udp_state =
  ud_sent :: "(bytes \<times> socket_addr) list"
  ud_upstream :: "socket_addr option"
  ud_pending :: "(u16 \<times> pending_query) list"
  ud_next_id :: u16
  ud_system :: system_dns

definition udp_new :: "socket_addr option \<Rightarrow> udp_state" where
  "udp_new upstream = \<lparr>ud_sent = [], ud_upstream = upstream, ud_pending = [], ud_next_id = 0, ud_system = system_dns_new\<rparr>"

text \<open>The allocation loop from the cursor \<open>next_id\<close>: the id and the advanced cursor.\<close>

function allocate_loop :: "(u16 \<times> pending_query) list \<Rightarrow> u16 \<Rightarrow> u16 \<Rightarrow> u16 option \<times> u16" where
  "allocate_loop pending start next_id =
     (let i = next_id; next_id = next_id + 1 in
      if map_of pending i = None then (Some i, next_id)
      else if next_id = start then (None, next_id)
      else allocate_loop pending start next_id)"
  by pat_completeness auto
termination
proof (relation "measure (\<lambda>(_, start, next_id). unat (start - next_id - 1))")
  fix pending :: "(u16 \<times> pending_query) list" and start next_id x xa :: u16
  assume "x = next_id" "xa = next_id + 1" "xa \<noteq> start"
  moreover define d where "d = start - next_id - 1"
  ultimately have d: "d \<noteq> 0" "start - xa - 1 = d - 1" by (auto simp: algebra_simps)
  have "unat (d - 1) < unat d" using d(1) by (simp add: unat_minus_one unat_gt_0)
  then have "unat (start - xa - 1) < unat (start - next_id - 1)" unfolding d(2) d_def .
  then show "((pending, start, xa), pending, start, next_id) \<in> measure (\<lambda>(_, start, next_id). unat (start - next_id - 1))"
    by simp
qed simp

declare allocate_loop.simps [simp del]

definition allocate_id :: "udp_state \<Rightarrow> u16 option \<times> udp_state" where
  "allocate_id u = (let (i, next_id) = allocate_loop (ud_pending u) (ud_next_id u) (ud_next_id u)
     in (i, u\<lparr>ud_next_id := next_id\<rparr>))"

abbreviation drop_dns :: "net_counters \<Rightarrow> net_counters" where
  "drop_dns n \<equiv> n\<lparr>dns_drops := bump (dns_drops n)\<rparr>"

definition expire_pending :: "nat \<Rightarrow> udp_state \<times> net_counters \<Rightarrow> udp_state \<times> net_counters" where
  "expire_pending now = (\<lambda>(u, n).
     let keep = (\<lambda>(_, p). now - pq_created p < DNS_QUERY_TIMEOUT)
     in (u\<lparr>ud_pending := filter keep (ud_pending u)\<rparr>,
         fold (\<lambda>_. drop_dns) (filter (Not \<circ> keep) (ud_pending u)) n))"

definition udp_handle ::
  "net_config \<Rightarrow> bool \<Rightarrow> bool \<Rightarrow> nat \<Rightarrow> ipv4_packet \<Rightarrow> udp_state \<times> net_counters \<Rightarrow> udp_state \<times> net_counters" where
  "udp_handle config queue_ok send_ok now packet = (\<lambda>(u, n).
     let payload = ip_payload packet in
     if length payload < 8 then (u, n\<lparr>dropped_bad_packet := bump (dropped_bad_packet n)\<rparr>)
     else let src_port = from_be [payload ! 0, payload ! 1];
              dst_port = (from_be [payload ! 2, payload ! 3] :: u16) in
     if ip_dst packet \<noteq> cf_gateway_ip config \<or> dst_port \<noteq> 53
     then (u, n\<lparr>dropped_other_udp := bump (dropped_other_udp n)\<rparr>)
     else let zeroed = splice 6 [0, 0] payload;
              expected = transport_checksum (ip_src packet) (ip_dst packet) PROTOCOL_UDP zeroed;
              carried = from_be [payload ! 6, payload ! 7] in
     if carried \<noteq> 0 \<and> carried \<noteq> expected
     then (u, n\<lparr>dropped_bad_checksum := bump (dropped_bad_checksum n)\<rparr>)
     else if unat (from_be [payload ! 4, payload ! 5] :: u16) \<noteq> length payload
     then (u, n\<lparr>dropped_bad_packet := bump (dropped_bad_packet n)\<rparr>)
     else let query = drop 8 payload in
     case ud_upstream u of
       None \<Rightarrow>
         let (ok, s) = sd_submit queue_ok now query src_port (ud_system u);
             u = u\<lparr>ud_system := s\<rparr>
         in (u, if ok then n\<lparr>dns_queries := bump (dns_queries n)\<rparr> else drop_dns n)
     | Some upstream \<Rightarrow>
         if length query < 12 then (u, n\<lparr>dropped_bad_packet := bump (dropped_bad_packet n)\<rparr>)
         else let (u, n) = expire_pending now (u, n) in
              if MAX_PENDING_QUERIES \<le> length (ud_pending u) then (u, drop_dns n)
              else let guest_id = from_be [query ! 0, query ! 1] in
                   case allocate_id u of
                     (None, u) \<Rightarrow> (u, drop_dns n)
                   | (Some upstream_id, u) \<Rightarrow>
                       let forwarded = splice 0 (to_be 2 upstream_id) query in
                       if \<not> send_ok
                       then (u\<lparr>ud_pending := AList.delete upstream_id (ud_pending u)\<rparr>, drop_dns n)
                       else (u\<lparr>ud_sent := ud_sent u @ [(forwarded, upstream)],
                               ud_pending := AList.update upstream_id
                                 \<lparr>pq_guest_id = guest_id, pq_guest_port = src_port, pq_created = now\<rparr> (ud_pending u)\<rparr>,
                             n\<lparr>dns_queries := bump (dns_queries n)\<rparr>))"

definition udp_reset :: "udp_state \<Rightarrow> udp_state" where
  "udp_reset u = u\<lparr>ud_system := sd_reset (ud_system u), ud_pending := [], ud_next_id := 0\<rparr>"

definition emit_answer :: "net_config \<Rightarrow> u16 \<Rightarrow> bytes \<Rightarrow> net_out \<Rightarrow> net_out" where
  "emit_answer config port answer out =
     (let (i, ip_id) = next_identification (no_ip_id out);
          out = emit (wrap_udp (cf_gateway_ip config) (cf_guest_ip config) 53 port answer i) (out\<lparr>no_ip_id := ip_id\<rparr>)
      in count (\<lambda>n. n\<lparr>dns_answers := bump (dns_answers n)\<rparr>) out)"

text \<open>One datagram of the receive loop; the buffer takes its first 4096 bytes.\<close>

definition udp_receive ::
  "net_config \<Rightarrow> bytes \<times> socket_addr \<Rightarrow> udp_state \<times> net_out \<Rightarrow> udp_state \<times> net_out" where
  "udp_receive config = (\<lambda>(datagram, from) (u, out).
     let buffer = take 4096 datagram in
     if Some from \<noteq> ud_upstream u then (u, out)
     else if length buffer < DNS_HEADER_BYTES then (u, count drop_dns out)
     else let i = from_be [buffer ! 0, buffer ! 1] in
          case map_of (ud_pending u) i of
            None \<Rightarrow> (u, count drop_dns out)
          | Some p \<Rightarrow>
              (u\<lparr>ud_pending := AList.delete i (ud_pending u)\<rparr>,
               emit_answer config (pq_guest_port p) (splice 0 (to_be 2 (pq_guest_id p)) buffer) out))"

definition udp_poll ::
  "net_config \<Rightarrow> nat \<Rightarrow> (bytes \<times> socket_addr) list \<Rightarrow> udp_state \<Rightarrow> net_out \<Rightarrow> udp_state \<times> net_out" where
  "udp_poll config now datagrams u out =
     (let (answers, s) = sd_poll now (ud_system u);
          out = fold (\<lambda>(port, answer). emit_answer config port answer) answers out;
          (u, out) = fold (udp_receive config) datagrams (u\<lparr>ud_system := s\<rparr>, out);
          (u, n) = expire_pending now (u, no_counters out)
      in (u, out\<lparr>no_counters := n\<rparr>))"

end
