(* ===== verification/Net_Slirp.thy ===== *)
theory Net_Slirp
  imports Net_Dns Net_Packet_Correct Virtio_Net
begin

text \<open>
  The user-mode network backend (\<open>net/mod.rs\<close>): dispatch of guest frames to ARP, ICMP, DNS and TCP,
  and the queue of frames for the guest. It is the \<open>NetBackend\<close> the network device of
  \<open>Virtio_Net\<close> is attached to; \<open>slirp_ops\<close> packages it as such.
\<close>

text \<open>What the host contributes to one call: the clock, and the outcomes of its sockets and workers.\<close>

record net_env =
  ne_now :: nat
  ne_queue_ok :: bool
  ne_send_ok :: bool
  ne_datagrams :: "(bytes \<times> socket_addr) list"

definition OUTPUT_CAP :: nat where "OUTPUT_CAP = 1024"

record slirp =
  sb_config :: net_config
  sb_counters :: net_counters
  sb_output :: "bytes list"
  sb_ip_id :: u16
  sb_udp :: udp_state
  sb_tcp :: tcp_state

definition slirp_new :: "net_config \<Rightarrow> socket_addr option \<Rightarrow> u32 \<Rightarrow> slirp" where
  "slirp_new config upstream isn_seed = \<lparr>sb_config = config, sb_counters = net_counters_default, sb_output = [],
     sb_ip_id = 0, sb_udp = udp_new upstream, sb_tcp = tcp_new isn_seed\<rparr>"

definition slirp_count :: "(net_counters \<Rightarrow> net_counters) \<Rightarrow> slirp \<Rightarrow> slirp" where
  "slirp_count f s = s\<lparr>sb_counters := f (sb_counters s)\<rparr>"

definition emit_frame :: "bytes \<Rightarrow> slirp \<Rightarrow> slirp" where
  "emit_frame fr s =
     (let s = (if OUTPUT_CAP \<le> length (sb_output s)
               then slirp_count (\<lambda>n. n\<lparr>dropped_bad_packet := bump (dropped_bad_packet n)\<rparr>) (s\<lparr>sb_output := tl (sb_output s)\<rparr>)
               else s)
      in s\<lparr>sb_output := sb_output s @ [fr]\<rparr>)"

definition slirp_emit :: "bytes \<Rightarrow> slirp \<Rightarrow> slirp" where
  "slirp_emit packet s =
     emit_frame (ether_frame (cf_mac (sb_config s)) (cf_gateway_mac (sb_config s)) 0x0800 packet) s"

definition handle_arp :: "bytes \<Rightarrow> slirp \<Rightarrow> slirp" where
  "handle_arp payload s =
     (case parse_arp_request payload of
        None \<Rightarrow> slirp_count (\<lambda>n. n\<lparr>dropped_bad_packet := bump (dropped_bad_packet n)\<rparr>) s
      | Some (sender_mac, sender_ip, target_ip) \<Rightarrow>
          if target_ip \<noteq> cf_gateway_ip (sb_config s) then s
          else case build_arp_reply (cf_gateway_mac (sb_config s)) (cf_gateway_ip (sb_config s)) sender_mac sender_ip of
            None \<Rightarrow> s
          | Some reply \<Rightarrow> slirp_count (\<lambda>n. n\<lparr>arp_replies := bump (arp_replies n)\<rparr>) (emit_frame reply s))"

definition handle_icmp :: "ipv4_packet \<Rightarrow> slirp \<Rightarrow> slirp" where
  "handle_icmp packet s =
     (if ip_dst packet \<noteq> cf_gateway_ip (sb_config s)
      then slirp_count (\<lambda>n. n\<lparr>dropped_other_icmp := bump (dropped_other_icmp n)\<rparr>) s
      else let (reply, ip_id) = icmp_echo_reply packet (sb_ip_id s);
               s = s\<lparr>sb_ip_id := ip_id\<rparr>
           in case reply of
                Some r \<Rightarrow> slirp_count (\<lambda>n. n\<lparr>icmp_echo_replies := bump (icmp_echo_replies n)\<rparr>) (slirp_emit r s)
              | None \<Rightarrow> slirp_count (\<lambda>n. n\<lparr>dropped_other_icmp := bump (dropped_other_icmp n)\<rparr>) s)"

text \<open>The identification counter and the counters lent to a protocol handler, and taken back.\<close>

definition lend_out :: "slirp \<Rightarrow> net_out" where
  "lend_out s = \<lparr>no_ip_id = sb_ip_id s, no_counters = sb_counters s, no_packets = []\<rparr>"

definition take_out :: "net_out \<Rightarrow> slirp \<Rightarrow> slirp" where
  "take_out out s = fold slirp_emit (no_packets out) (s\<lparr>sb_ip_id := no_ip_id out, sb_counters := no_counters out\<rparr>)"

definition handle_ipv4 :: "net_env \<Rightarrow> bytes \<Rightarrow> slirp \<Rightarrow> slirp" where
  "handle_ipv4 env payload s =
     (case ipv4_parse payload of
        None \<Rightarrow> slirp_count (\<lambda>n. n\<lparr>dropped_bad_packet := bump (dropped_bad_packet n)\<rparr>) s
      | Some packet \<Rightarrow>
          if ip_more_fragments packet \<or> ip_fragment_offset packet \<noteq> 0
          then slirp_count (\<lambda>n. n\<lparr>dropped_fragmented := bump (dropped_fragmented n)\<rparr>) s
          else if \<not> header_checksum_ok (ip_header packet)
          then slirp_count (\<lambda>n. n\<lparr>dropped_bad_checksum := bump (dropped_bad_checksum n)\<rparr>) s
          else if ip_protocol packet = PROTOCOL_ICMP then handle_icmp packet s
          else if ip_protocol packet = PROTOCOL_UDP
          then (let (u, n) = udp_handle (sb_config s) (ne_queue_ok env) (ne_send_ok env) (ne_now env) packet
                               (sb_udp s, sb_counters s)
                in s\<lparr>sb_udp := u, sb_counters := n\<rparr>)
          else if ip_protocol packet = PROTOCOL_TCP
          then (let (t, out) = tcp_handle (sb_config s) packet (sb_tcp s) (lend_out s)
                in take_out out (s\<lparr>sb_tcp := t\<rparr>))
          else slirp_count (\<lambda>n. n\<lparr>dropped_not_ipv4 := bump (dropped_not_ipv4 n)\<rparr>) s)"

definition slirp_enqueue :: "net_env \<Rightarrow> bytes \<Rightarrow> slirp \<Rightarrow> slirp" where
  "slirp_enqueue env fr s =
     (case ether_parse fr of
        None \<Rightarrow> slirp_count (\<lambda>n. n\<lparr>dropped_bad_packet := bump (dropped_bad_packet n)\<rparr>) s
      | Some (dst, ethertype, payload) \<Rightarrow>
          if \<not> for_us dst (cf_mac (sb_config s)) (cf_gateway_mac (sb_config s))
          then slirp_count (\<lambda>n. n\<lparr>dropped_not_for_us := bump (dropped_not_for_us n)\<rparr>) s
          else if ethertype = 0x0806 then handle_arp payload s
          else if ethertype = 0x0800 then handle_ipv4 env payload s
          else slirp_count (\<lambda>n. n\<lparr>dropped_unknown_ethertype := bump (dropped_unknown_ethertype n)\<rparr>) s)"

definition slirp_poll :: "net_env \<Rightarrow> slirp \<Rightarrow> bytes list \<times> slirp" where
  "slirp_poll env s =
     (let (u, out) = udp_poll (sb_config s) (ne_now env) (ne_datagrams env) (sb_udp s) (lend_out s);
          (t, out) = tcp_poll (sb_config s) (ne_now env) (sb_tcp s) out;
          s = take_out out (s\<lparr>sb_udp := u, sb_tcp := t\<rparr>)
      in (sb_output s, s\<lparr>sb_output := []\<rparr>))"

definition slirp_reset :: "slirp \<Rightarrow> slirp" where
  "slirp_reset s = s\<lparr>sb_tcp := tcp_reset (sb_tcp s), sb_udp := udp_reset (sb_udp s), sb_output := [], sb_ip_id := 0\<rparr>"

definition slirp_ops :: "net_env \<Rightarrow> slirp net_backend_ops" where
  "slirp_ops env = \<lparr>nb_mac = (\<lambda>s. cf_mac (sb_config s)), nb_enqueue = (\<lambda>s fr. slirp_enqueue env fr s),
     nb_poll = slirp_poll env, nb_reset = slirp_reset\<rparr>"

end
