(* ===== verification/Net_Slirp_Correct.thy ===== *)
theory Net_Slirp_Correct
  imports Net_Slirp Net_Tcp_Correct
begin

text \<open>
  The network backend as a whole: the bounds on what a guest can make the host keep, and the services
  that cross its layers, the echo reply and the forwarding of DNS queries.
\<close>

section \<open>What the operations keep of a connection\<close>

text \<open>The key of a connection is fixed, and its retransmission queue is bounded.\<close>

definition bounded :: "conn_key \<Rightarrow> tcp_conn \<Rightarrow> bool" where
  "bounded key c \<longleftrightarrow> tc_key c = key \<and> length (tc_unacked c) \<le> MAX_UNACKED_SEGMENTS"

definition bounds_kept :: "(tcp_conn \<Rightarrow> net_out \<Rightarrow> tcp_conn \<times> net_out) \<Rightarrow> bool" where
  "bounds_kept f \<longleftrightarrow> (\<forall>key c out. bounded key c \<longrightarrow> bounded key (fst (f c out)))"

lemma length_pop_acked: "length (pop_acked ack ss) \<le> length ss"
  by (induction ss) auto

lemma process_segment_bounds: "bounds_kept (process_segment config seg)"
proof -
  have "bounded key (process_ack seg c)" if "bounded key c" for key c
    using that length_pop_acked [of "sg_ack seg" "tc_unacked c"] by (auto simp: bounded_def process_ack_def Let_def)
  moreover have "bounded key (fst (process_payload seg c)) = bounded key c" for key c
    by (auto simp: bounded_def process_payload_def split: option.splits prod.splits try_send_error.splits)
  moreover have "bounded key (fst (process_fin seg (c, a))) = bounded key c" for key c a
    by (simp add: bounded_def process_fin_def Let_def)
  moreover have "bounded key (c\<lparr>tc_closed := x\<rparr>) = bounded key c" "bounded key (c\<lparr>tc_fin_pending := x\<rparr>) = bounded key c"
    "bounded key (c\<lparr>tc_guest_fin_acked := x\<rparr>) = bounded key c" for key c x
    by (simp_all add: bounded_def)
  ultimately show ?thesis
    by (simp add: bounds_kept_def process_segment_def Let_def split_def)
qed

lemma drain_items_bounds: "bounded key c \<Longrightarrow> bounded key (fst (drain_items config now items c out))"
proof (induction items arbitrary: c out)
  case Nil
  then show ?case by (simp add: drain_items.simps [of config now "[]"] bounded_def)
next
  case (Cons ev rest)
  have "bounded key (fst (host_event_step config now ev (c\<lparr>tc_host_rx := ch\<rparr>) out))" for ch
    using Cons.prems
    by (auto simp: bounded_def host_event_step_def send_syn_ack_def Let_def MAX_UNACKED_SEGMENTS_def split: host_event.splits)
  with Cons show ?case by (simp add: drain_items.simps [of config now "ev # rest"] Let_def split_def)
qed

lemma send_pending_bounds: "bounded key c \<Longrightarrow> bounded key (fst (send_pending config now c out))"
proof (induction config now c out rule: send_pending.induct)
  case (1 config now c out)
  show ?case
  proof (cases "tc_pending c \<noteq> [] \<and> length (tc_unacked c) < MAX_UNACKED_SEGMENTS \<and> send_take c \<noteq> 0")
    case True
    then have "bounded key (fst (send_one config now (send_take c) c out))"
      using "1.prems" by (simp add: bounded_def send_one_def Let_def)
    then have "bounded key (fst (case send_one config now (send_take c) c out of (c, out) \<Rightarrow> send_pending config now c out))"
      using "1.IH" [OF True] by (metis (no_types, lifting) case_prod_conv fst_conv prod.exhaust_sel)
    with True show ?thesis by (simp add: send_pending.simps [of config now c])
  next
    case False
    with "1.prems" show ?thesis by (subst send_pending.simps) auto
  qed
qed

lemma poll_ops_bounds:
  "bounds_kept (drain_host_events config now)" "bounds_kept (retry_held config)" "bounds_kept (send_pending config now)"
  "bounds_kept (retransmit config now)" "bounds_kept (maybe_send_fin config now)"
  by (auto simp: bounds_kept_def drain_host_events_def drain_items_bounds send_pending_bounds)
    (auto simp: bounded_def retry_held_def retransmit_def maybe_send_fin_def Let_def
      split: option.splits prod.splits try_send_error.splits)

lemma unless_closed_bounds: "bounds_kept f \<Longrightarrow> bounded key (fst st) \<Longrightarrow> bounded key (fst (unless_closed f st))"
  by (cases st) (simp add: unless_closed_def bounds_kept_def)

lemma poll_conn_bounds: "bounded key c \<Longrightarrow> bounded key (fst (poll_conn config now c out))"
proof -
  assume "bounded key c"
  then have "bounded key (fst (drain_host_events config now c out))"
    using poll_ops_bounds(1) by (simp add: bounds_kept_def)
  then have "bounded key (fst (unless_closed (maybe_send_fin config now) (unless_closed (retransmit config now)
      (unless_closed (send_pending config now) (unless_closed (retry_held config) (drain_host_events config now c out))))))"
    by (intro unless_closed_bounds poll_ops_bounds)
  moreover have "bounded key (conn_teardown now c) = bounded key c" for c
    by (simp add: bounded_def conn_teardown_def Let_def)
  ultimately show ?thesis by (simp add: poll_conn_def Let_def split_def)
qed

section \<open>The connection table\<close>

definition tcp_wf :: "tcp_state \<Rightarrow> bool" where
  "tcp_wf t \<longleftrightarrow> distinct (map fst (ts_connections t)) \<and> length (ts_connections t) \<le> MAX_CONNECTIONS
     \<and> (\<forall>(k, c) \<in> set (ts_connections t). bounded k c)"

lemma update_conns:
  assumes "distinct (map fst al)" "\<forall>(k, c) \<in> set al. P k c" "P k v"
  shows "distinct (map fst (AList.update k v al)) \<and> (\<forall>(k, c) \<in> set (AList.update k v al). P k c)
    \<and> length (AList.update k v al) = (if map_of al k = None then Suc (length al) else length al)"
  using assms
proof (induction al)
  case Nil
  then show ?case by simp
next
  case (Cons x al)
  obtain k' v' where x: "x = (k', v')" by fastforce
  have "fst ` set (AList.update k v al) \<subseteq> insert k (fst ` set al)"
    by (metis AList.dom_update image_set order_refl insert_is_Un sup_commute)
  with Cons show ?case by (auto simp: x)
qed

lemma new_conn_bounded: "bounded key (new_conn key seg isn)"
  by (simp add: bounded_def new_conn_def Let_def)

lemma tcp_handle_wf: "tcp_wf t \<Longrightarrow> tcp_wf (fst (tcp_handle config packet t out))"
proof -
  assume wf: "tcp_wf t"
  have "tcp_wf (fst (tcp_open key seg t out))"
    if "\<not> (map_of (ts_connections t) key = None \<and> MAX_CONNECTIONS \<le> length (ts_connections t))" for key seg
    using wf that update_conns [of "ts_connections t" bounded key "new_conn key seg (ts_next_isn t)"] new_conn_bounded
    by (auto simp: tcp_wf_def tcp_open_def)
  moreover have "tcp_wf (t\<lparr>ts_connections := AList.update key (fst (process_segment config seg c out)) (ts_connections t)\<rparr>)"
    if "map_of (ts_connections t) key = Some c" for key seg c
  proof -
    have "bounded key c" using wf that by (auto simp: tcp_wf_def dest: map_of_SomeD)
    then have "bounded key (fst (process_segment config seg c out))"
      using process_segment_bounds by (simp add: bounds_kept_def)
    with wf that update_conns [of "ts_connections t" bounded key] show ?thesis by (simp add: tcp_wf_def)
  qed
  ultimately show ?thesis
    using wf by (auto simp: tcp_handle_def Let_def split_def split: option.splits)
qed

lemma poll_conns_wf:
  "\<forall>(k, c) \<in> set conns. bounded k c \<Longrightarrow>
     map fst (fst (poll_conns config now conns out)) = map fst conns
     \<and> (\<forall>(k, c) \<in> set (fst (poll_conns config now conns out)). bounded k c)"
proof (induction conns arbitrary: out)
  case Nil
  then show ?case by simp
next
  case (Cons x conns)
  obtain k c where x: "x = (k, c)" by fastforce
  have "bounded k (fst (poll_conn config now c out))" using Cons.prems x poll_conn_bounds by simp
  with Cons x show ?case by (simp add: Let_def split_def) 
qed

lemma fold_delete:
  "set (fold AList.delete ks al) \<subseteq> set al" "distinct (map fst al) \<Longrightarrow> distinct (map fst (fold AList.delete ks al))"
  "length (fold AList.delete ks al) \<le> length al" "k \<in> set ks \<Longrightarrow> (k, v) \<notin> set (fold AList.delete ks al)"
proof -
  have *: "set (fold AList.delete ks al) \<subseteq> set al" for ks and al :: "('a \<times> 'b) list"
  proof (induction ks arbitrary: al)
    case (Cons a ks)
    have "set (AList.delete a al) \<subseteq> set al" by (auto simp: AList.delete_eq)
    with Cons [of "AList.delete a al"] show ?case by simp
  qed simp
  show "set (fold AList.delete ks al) \<subseteq> set al" by (rule *)
  show "distinct (map fst al) \<Longrightarrow> distinct (map fst (fold AList.delete ks al))"
    by (induction ks arbitrary: al) (auto simp: distinct_delete)
  show "length (fold AList.delete ks al) \<le> length al"
  proof (induction ks arbitrary: al)
    case (Cons a ks)
    have "length (AList.delete a al) \<le> length al" by (rule length_delete_le)
    with Cons [of "AList.delete a al"] show ?case by simp
  qed simp
  show "k \<in> set ks \<Longrightarrow> (k, v) \<notin> set (fold AList.delete ks al)"
  proof (induction ks arbitrary: al)
    case (Cons j ks)
    show ?case
    proof (cases "k = j")
      case True
      then have "(k, v) \<notin> set (AList.delete j al)" by (simp add: AList.delete_eq)
      with * show ?thesis by (metis fold_simps(2) subsetD)
    qed (use Cons in auto)
  qed simp
qed

lemma tcp_poll_wf:
  assumes "tcp_wf t"
  shows "tcp_wf (fst (tcp_poll config now t out))"
    "\<forall>(k, c) \<in> set (ts_connections (fst (tcp_poll config now t out))). \<not> tc_closed c"
proof -
  obtain conns out1 where p: "poll_conns config now (ts_connections t) out = (conns, out1)" by fastforce
  let ?closed = "map (tc_key \<circ> snd) (filter (\<lambda>(_, c). tc_closed c) conns)"
  have w: "map fst conns = map fst (ts_connections t)" "\<forall>(k, c) \<in> set conns. bounded k c"
    using poll_conns_wf [of "ts_connections t" config now out] assms p by (auto simp: tcp_wf_def)
  have l: "length conns = length (ts_connections t)" using w(1) by (metis length_map)
  have c: "ts_connections (fst (tcp_poll config now t out)) = fold AList.delete ?closed conns"
    by (simp add: tcp_poll_def p Let_def)
  show "tcp_wf (fst (tcp_poll config now t out))"
    unfolding tcp_wf_def c using assms w l fold_delete(1,3) [of ?closed conns] fold_delete(2) [of conns ?closed]
    by (auto simp: tcp_wf_def)
  show "\<forall>(k, c) \<in> set (ts_connections (fst (tcp_poll config now t out))). \<not> tc_closed c"
    unfolding c
  proof clarify
    fix k x
    assume m: "(k, x) \<in> set (fold AList.delete ?closed conns)" "tc_closed x"
    then have x: "(k, x) \<in> set conns" using fold_delete(1) by blast
    then have "tc_key x = k" using w(2) by (auto simp: bounded_def)
    then have "k \<in> set ?closed" using x m(2) by force
    then show False using fold_delete(4) [of k ?closed x conns] m(1) by simp
  qed
qed

section \<open>The DNS tables\<close>

definition udp_wf :: "udp_state \<Rightarrow> bool" where
  "udp_wf u \<longleftrightarrow> distinct (map fst (ud_pending u)) \<and> length (ud_pending u) \<le> MAX_PENDING_QUERIES
     \<and> distinct (map fst (sd_table (ud_system u))) \<and> length (sd_table (ud_system u)) \<le> SD_CAPACITY
     \<and> length (sd_receive (ud_system u)) \<le> SD_CAPACITY"

lemma update_table:
  assumes "distinct (map fst al)" "length al < n"
  shows "distinct (map fst (AList.update k v al)) \<and> length (AList.update k v al) \<le> n"
  using update_conns [of al "\<lambda>_ _. True" k v] assms by (auto split: if_splits)

lemma distinct_filter_keys: "distinct (map fst al) \<Longrightarrow> distinct (map fst (filter P al))"
  by (induction al) auto

lemma allocate_loop_fresh: "fst (allocate_loop pending start i) = Some j \<Longrightarrow> map_of pending j = None"
  by (induction pending start i rule: allocate_loop.induct)
    (subst (asm) allocate_loop.simps, auto simp: Let_def split: if_splits)

lemma sd_submit_wf:
  "udp_wf u \<Longrightarrow> udp_wf (u\<lparr>ud_system := snd (sd_submit queue_ok now packet port (ud_system u))\<rparr>)"
  using update_table [of "sd_table (ud_system u)" SD_CAPACITY]
  by (auto simp: udp_wf_def sd_submit_def Let_def not_le split: option.splits)

lemma sd_take_results_wf:
  "distinct (map fst table) \<Longrightarrow> distinct (map fst (snd (sd_take_results now rs table)))
     \<and> length (snd (sd_take_results now rs table)) \<le> length table"
proof (induction rs arbitrary: table)
  case Nil
  then show ?case by simp
next
  case (Cons r rs)
  obtain i addresses where r: "r = (i, addresses)" by fastforce
  show ?case
  proof (cases "map_of table i")
    case None
    with Cons r show ?thesis by simp
  next
    case (Some p)
    have "distinct (map fst (AList.delete i table))" using Cons.prems by (simp add: distinct_delete)
    with Cons.IH [of "AList.delete i table"] Some r length_delete_le [of i table] show ?thesis
      by (simp add: Let_def split_def)
  qed
qed

lemma sd_poll_wf: "udp_wf u \<Longrightarrow> udp_wf (u\<lparr>ud_system := snd (sd_poll now (ud_system u))\<rparr>)"
proof -
  let ?s = "ud_system u"
  assume wf: "udp_wf u"
  let ?t = "snd (sd_take_results now (sd_receive ?s) (sd_table ?s))"
  have "distinct (map fst ?t)" "length ?t \<le> SD_CAPACITY"
    using sd_take_results_wf [of "sd_table ?s" now "sd_receive ?s"] wf by (auto simp: udp_wf_def)
  then show ?thesis
    using wf by (auto simp: udp_wf_def sd_poll_def Let_def split_def distinct_filter_keys
        intro: order_trans [OF length_filter_le])
qed

lemma expire_pending_wf: "udp_wf u \<Longrightarrow> udp_wf (fst (expire_pending now (u, n)))"
  by (auto simp: udp_wf_def expire_pending_def Let_def distinct_filter_keys intro: order_trans [OF length_filter_le])

lemma udp_handle_wf:
  assumes "udp_wf u"
  shows "udp_wf (fst (udp_handle config queue_ok send_ok now packet (u, n)))"
proof -
  obtain u1 n1 where e: "expire_pending now (u, n) = (u1, n1)" by fastforce
  have w1: "udp_wf u1" using expire_pending_wf [OF assms, of now n] e by simp
  have "udp_wf (u2\<lparr>ud_next_id := j, ud_pending := AList.delete i (ud_pending u2)\<rparr>)" "udp_wf (u2\<lparr>ud_next_id := j\<rparr>)" if "udp_wf u2" for u2 i j
    using that by (auto simp: udp_wf_def distinct_delete intro: order_trans [OF length_delete_le])
  moreover have "udp_wf (u2\<lparr>ud_next_id := j, ud_sent := x, ud_pending := AList.update i v (ud_pending u2)\<rparr>)"
    if "udp_wf u2" "length (ud_pending u2) < MAX_PENDING_QUERIES" for u2 i v x j
    using that update_table [of "ud_pending u2" MAX_PENDING_QUERIES i v] by (simp add: udp_wf_def)
  ultimately show ?thesis
    using assms w1 sd_submit_wf [OF assms]
    by (auto simp: udp_handle_def Let_def e allocate_id_def split_def not_le split: option.splits)
qed

lemma udp_receive_wf: "udp_wf u \<Longrightarrow> udp_wf (fst (udp_receive config d (u, out)))"
  by (cases d) (auto simp: udp_receive_def Let_def udp_wf_def distinct_delete intro: order_trans [OF length_delete_le] split: option.splits)

lemma udp_poll_wf: "udp_wf u \<Longrightarrow> udp_wf (fst (udp_poll config now datagrams u out))"
proof -
  assume "udp_wf u"
  have "udp_wf (fst st) \<Longrightarrow> udp_wf (fst (fold (udp_receive config) ds st))" for ds st
  proof (induction ds arbitrary: st)
    case (Cons d ds)
    then show ?case using udp_receive_wf [of "fst st" config d "snd st"] by simp
  qed simp
  with sd_poll_wf [OF \<open>udp_wf u\<close>] show ?thesis
    by (simp add: udp_poll_def Let_def split_def expire_pending_wf)
qed

text \<open>The allocator fails only when every id is taken.\<close>

lemma allocate_loop_None:
  "fst (allocate_loop pending start i) = None \<Longrightarrow> unat (j - i) \<le> unat (start - i - 1) \<Longrightarrow> map_of pending j \<noteq> None"
proof (induction pending start i rule: allocate_loop.induct)
  case (1 pending start i)
  have i: "map_of pending i \<noteq> None"
    using "1.prems"(1) by (subst (asm) allocate_loop.simps) (auto simp: Let_def split: if_splits)
  show ?case
  proof (cases "j = i")
    case False
    then have ji: "unat (j - (i + 1)) = unat (j - i) - 1" "0 < unat (j - i)"
      using unat_minus_one [of "j - i"] by (simp_all add: algebra_simps unat_gt_0)
    show ?thesis
    proof (cases "i + 1 = start")
      case True
      then have "start - i - 1 = 0" by auto
      with "1.prems"(2) ji(2) show ?thesis by simp
    next
      case ns: False
      then have "start - i - 1 \<noteq> 0" by (metis diff_eq_eq add.commute diff_diff_eq eq_iff_diff_eq_0)
      then have "unat (start - (i + 1) - 1) = unat (start - i - 1) - 1"
        using unat_minus_one [of "start - i - 1"] by (simp add: algebra_simps)
      then have "unat (j - (i + 1)) \<le> unat (start - (i + 1) - 1)" using "1.prems"(2) ji by simp
      moreover have "fst (allocate_loop pending start (i + 1)) = None"
        using "1.prems"(1) i ns by (subst (asm) allocate_loop.simps) (simp add: Let_def)
      ultimately show ?thesis using "1.IH" [OF refl refl i ns] by blast
    qed
  qed (use i in simp)
qed

lemma allocate_id_total:
  assumes "length (ud_pending u) < 65536"
  shows "\<exists>j u'. allocate_id u = (Some j, u') \<and> map_of (ud_pending u) j = None \<and> (\<exists>k. u' = u\<lparr>ud_next_id := k\<rparr>)"
proof -
  let ?r = "allocate_loop (ud_pending u) (ud_next_id u) (ud_next_id u)"
  have "fst ?r \<noteq> None"
  proof
    assume n: "fst ?r = None"
    have "map_of (ud_pending u) j \<noteq> None" for j
    proof (rule allocate_loop_None [OF n])
      show "unat (j - ud_next_id u) \<le> unat (ud_next_id u - ud_next_id u - 1)"
        using unat_bound [of "j - ud_next_id u"] by (simp add: unsigned_minus_1_eq_mask mask_eq_exp_minus_1)
    qed
    then have "(UNIV :: u16 set) \<subseteq> fst ` set (ud_pending u)" by (auto simp: map_of_eq_None_iff)
    then have "card (UNIV :: u16 set) \<le> card (fst ` set (ud_pending u))" by (intro card_mono) auto
    also have "\<dots> \<le> length (ud_pending u)" by (metis card_length list.set_map length_map)
    finally show False using assms by (simp add: card_word)
  qed
  then obtain j where j: "fst ?r = Some j" by blast
  then show ?thesis
    using allocate_loop_fresh [OF j] by (simp add: allocate_id_def split_def Let_def) blast
qed

section \<open>Runs of the backend\<close>

datatype slirp_event =
    GuestFrame bytes
  | DevicePoll
  | DeviceReset
  | HostThread conn_key conn_event
  | ResolverDone resolved

fun host_side :: "conn_event \<Rightarrow> bool" where
  "host_side (GuestSegment _) = False"
| "host_side (PollAt _) = False"
| "host_side _ = True"

fun slirp_step :: "net_env \<times> slirp_event \<Rightarrow> slirp \<Rightarrow> slirp" where
  "slirp_step (env, GuestFrame fr) s = slirp_enqueue env fr s"
| "slirp_step (env, DevicePoll) s = snd (slirp_poll env s)"
| "slirp_step (env, DeviceReset) s = slirp_reset s"
| "slirp_step (env, HostThread k ev) s =
     (case map_of (ts_connections (sb_tcp s)) k of
        None \<Rightarrow> s
      | Some c \<Rightarrow>
          if host_side ev
          then s\<lparr>sb_tcp := (sb_tcp s)\<lparr>ts_connections :=
                 AList.update k (fst (conn_step (sb_config s) ev (c, lend_out s, []))) (ts_connections (sb_tcp s))\<rparr>\<rparr>
          else s)"
| "slirp_step (env, ResolverDone r) s =
     (if length (sd_receive (ud_system (sb_udp s))) < SD_CAPACITY
      then s\<lparr>sb_udp := (sb_udp s)\<lparr>ud_system := (ud_system (sb_udp s))\<lparr>sd_receive := sd_receive (ud_system (sb_udp s)) @ [r]\<rparr>\<rparr>\<rparr>
      else s)"

definition slirp_wf :: "slirp \<Rightarrow> bool" where
  "slirp_wf s \<longleftrightarrow> tcp_wf (sb_tcp s) \<and> udp_wf (sb_udp s) \<and> length (sb_output s) \<le> OUTPUT_CAP"

lemma slirp_count_wf [simp]: "slirp_wf (slirp_count f s) \<longleftrightarrow> slirp_wf s"
  by (simp add: slirp_wf_def slirp_count_def)

lemma emit_frame_wf: "slirp_wf s \<Longrightarrow> slirp_wf (emit_frame fr s)"
  by (auto simp: slirp_wf_def emit_frame_def slirp_count_def Let_def OUTPUT_CAP_def)

lemma take_out_wf: "slirp_wf s \<Longrightarrow> slirp_wf (take_out out s)"
proof -
  have "slirp_wf s \<Longrightarrow> slirp_wf (fold slirp_emit ps s)" for ps s
    by (induction ps arbitrary: s) (auto simp: slirp_emit_def intro: emit_frame_wf)
  then show "slirp_wf s \<Longrightarrow> ?thesis" by (simp add: take_out_def slirp_wf_def)
qed

lemma handle_ipv4_wf: "slirp_wf s \<Longrightarrow> slirp_wf (handle_ipv4 env payload s)"
proof -
  assume wf: "slirp_wf s"
  have "slirp_wf (handle_icmp packet s)" for packet
    using wf emit_frame_wf [of "s\<lparr>sb_ip_id := x\<rparr>" for x]
    by (auto simp: handle_icmp_def slirp_emit_def Let_def split_def slirp_wf_def slirp_count_def split: option.splits)
  moreover have "slirp_wf (s\<lparr>sb_udp := fst (udp_handle config q o1 now packet (sb_udp s, n)), sb_counters := m\<rparr>)" for config q o1 now packet n m
    using wf udp_handle_wf by (simp add: slirp_wf_def)
  moreover have "slirp_wf (take_out out (s\<lparr>sb_tcp := fst (tcp_handle config packet (sb_tcp s) o1)\<rparr>))" for out config packet o1
    using wf tcp_handle_wf by (intro take_out_wf) (simp add: slirp_wf_def)
  ultimately show ?thesis
    using wf by (auto simp: handle_ipv4_def Let_def split_def split: option.splits)
qed

lemma slirp_enqueue_wf: "slirp_wf s \<Longrightarrow> slirp_wf (slirp_enqueue env fr s)"
  using emit_frame_wf handle_ipv4_wf
  by (auto simp: slirp_enqueue_def handle_arp_def split: option.splits)

lemma slirp_poll_wf: "slirp_wf s \<Longrightarrow> slirp_wf (snd (slirp_poll env s))"
proof -
  assume wf: "slirp_wf s"
  have "slirp_wf (take_out out (s\<lparr>sb_udp := fst (udp_poll config now ds (sb_udp s) o1), sb_tcp := fst (tcp_poll config now (sb_tcp s) o2)\<rparr>))"
    for out config now ds o1 o2
    using wf udp_poll_wf tcp_poll_wf(1) by (intro take_out_wf) (simp add: slirp_wf_def)
  then show ?thesis by (simp add: slirp_poll_def Let_def split_def slirp_wf_def)
qed

lemma slirp_step_wf: "slirp_wf s \<Longrightarrow> slirp_wf (slirp_step ev s)"
proof (cases ev)
  case (Pair env e)
  assume wf: "slirp_wf s"
  show ?thesis
  proof (cases e)
    case (HostThread k h)
    have "slirp_wf (s\<lparr>sb_tcp := (sb_tcp s)\<lparr>ts_connections := AList.update k (fst (conn_step (sb_config s) h (c, lend_out s, [])))
        (ts_connections (sb_tcp s))\<rparr>\<rparr>)" if m: "map_of (ts_connections (sb_tcp s)) k = Some c" and "host_side h" for c
    proof -
      have "bounded k c" using wf m by (auto simp: slirp_wf_def tcp_wf_def dest: map_of_SomeD)
      then have "bounded k (fst (conn_step (sb_config s) h (c, lend_out s, [])))"
        using \<open>host_side h\<close> by (cases h) (auto simp: bounded_def)
      with wf m update_conns [of "ts_connections (sb_tcp s)" bounded k] show ?thesis
        by (simp add: slirp_wf_def tcp_wf_def)
    qed
    with wf Pair HostThread show ?thesis by (simp split: option.splits)
  next
    case DeviceReset
    with wf Pair show ?thesis
      by (simp add: slirp_wf_def slirp_reset_def tcp_wf_def tcp_reset_def udp_wf_def udp_reset_def sd_reset_def)
  next
    case (ResolverDone r)
    with wf Pair show ?thesis by (simp add: slirp_wf_def udp_wf_def)
  qed (use wf Pair slirp_enqueue_wf slirp_poll_wf in simp_all)
qed

lemma slirp_new_wf: "slirp_wf (slirp_new config upstream isn)"
  by (simp add: slirp_wf_def slirp_new_def tcp_wf_def tcp_new_def udp_wf_def udp_new_def system_dns_new_def)

lemma slirp_run_wf: "slirp_wf s \<Longrightarrow> slirp_wf (fold slirp_step evs s)"
  by (induction evs arbitrary: s) (auto intro: slirp_step_wf)

section \<open>Properties\<close>

text \<open>
  C9: A guest cannot make the host keep unbounded state. Whatever frames the guest sends, and in
  whatever order polls, resets, host threads and resolver results come, the backend keeps at most 64
  connections with distinct keys and at most 64 unacknowledged segments each, at most 1024 forwarded
  DNS queries with distinct ids, at most 64 queries of the system resolver, and at most 1024 frames
  for the guest.
\<close>

theorem slirp_bounds:
  "let s = fold slirp_step evs (slirp_new config upstream isn)
   in distinct (map fst (ts_connections (sb_tcp s))) \<and> length (ts_connections (sb_tcp s)) \<le> 64
      \<and> list_all (\<lambda>(k, c). tc_key c = k \<and> length (tc_unacked c) \<le> 64) (ts_connections (sb_tcp s))
      \<and> distinct (map fst (ud_pending (sb_udp s))) \<and> length (ud_pending (sb_udp s)) \<le> 1024
      \<and> length (sd_table (ud_system (sb_udp s))) \<le> 64 \<and> length (sb_output s) \<le> 1024"
  using slirp_run_wf [OF slirp_new_wf, of evs config upstream isn]
  by (auto simp: Let_def slirp_wf_def tcp_wf_def udp_wf_def bounded_def list_all_iff MAX_CONNECTIONS_def
      MAX_UNACKED_SEGMENTS_def MAX_PENDING_QUERIES_def SD_CAPACITY_def OUTPUT_CAP_def)

lemma ipv4_payload_length: "ipv4_parse d = Some p \<Longrightarrow> 20 + length (ip_payload p) < 65536"
proof -
  assume a: "ipv4_parse d = Some p"
  let ?ihl = "unat (d ! 0 AND 15) * 4" and ?total = "unat (from_be [d ! 2, d ! 3] :: u16)"
  have "20 \<le> ?ihl" "ip_payload p = slice ?ihl (?total - ?ihl) d"
    using a by (auto simp: ipv4_parse_def Let_def split: if_splits)
  then show ?thesis using unat_bound [of "from_be [d ! 2, d ! 3] :: u16"] by (simp add: slice_def)
qed

text \<open>
  C11: The gateway answers pings, and only genuine ones. An unfragmented echo request with a valid
  header checksum to the gateway yields exactly one frame for the guest if its ICMP checksum verifies:
  an echo reply with both checksums valid, the addresses exchanged, and the identifier, sequence number
  and data of the request. If the ICMP checksum does not verify nothing is sent.
\<close>

theorem echo_through_backend:
  assumes "ether_parse fr = Some (cf_gateway_mac (sb_config s), 0x0800, datagram)" "ipv4_parse datagram = Some p"
    "\<not> ip_more_fragments p" "ip_fragment_offset p = 0" "header_checksum_ok (ip_header p)"
    "ip_protocol p = PROTOCOL_ICMP" "ip_dst p = cf_gateway_ip (sb_config s)" "8 \<le> length (ip_payload p)"
    "ip_payload p ! 0 = 8" "ip_payload p ! 1 = 0" "length (sb_output s) < 1024"
  shows "if checksum (ip_payload p) = 0
    then \<exists>reply q. sb_output (slirp_enqueue env fr s) = sb_output s
           @ [ether_frame (cf_mac (sb_config s)) (cf_gateway_mac (sb_config s)) 0x0800 reply]
       \<and> ipv4_parse reply = Some q \<and> header_checksum_ok (ip_header q) \<and> ip_protocol q = PROTOCOL_ICMP
       \<and> ip_src q = cf_gateway_ip (sb_config s) \<and> ip_dst q = ip_src p \<and> checksum (ip_payload q) = 0
       \<and> ip_payload q ! 0 = 0 \<and> drop 4 (ip_payload q) = drop 4 (ip_payload p)
    else sb_output (slirp_enqueue env fr s) = sb_output s"
proof -
  have f: "for_us (cf_gateway_mac (sb_config s)) (cf_mac (sb_config s)) (cf_gateway_mac (sb_config s))"
    by (simp add: for_us_def)
  have e: "slirp_enqueue env fr s = handle_icmp p s"
    using assms f by (simp add: slirp_enqueue_def handle_ipv4_def)
  show ?thesis
  proof (cases "checksum (ip_payload p) = 0")
    case False
    have "icmp_echo_reply p (sb_ip_id s) = (None, sb_ip_id s)" using False by (simp add: icmp_echo_reply_def Let_def)
    with False e assms(7) show ?thesis by (simp add: handle_icmp_def slirp_count_def)
  next
    case True
    define x where "x = [0] @ [0] @ [0, 0] @ drop 4 (ip_payload p)"
    define y where "y = splice 2 (to_be 2 (checksum x)) x"
    define h where "h = build_header (20 + length y) PROTOCOL_ICMP (ip_dst p) (ip_src p) (sb_ip_id s)"
    have len: "length x = length (ip_payload p)" "length y = length x" using assms(8) by (simp_all add: x_def y_def)
    have c: "checksum y = 0" unfolding y_def
      by (rule checksum_inserted) (use len assms(8) in \<open>simp_all add: x_def slice_def\<close>)
    have y: "y ! 0 = 0" "drop 4 y = drop 4 (ip_payload p)" by (simp_all add: y_def x_def splice_def to_be_2)
    have r: "icmp_echo_reply p (sb_ip_id s) = (Some (h @ y), sb_ip_id s + 1)"
      using True assms(8,9,10) by (simp add: icmp_echo_reply_def next_identification_def Let_def x_def y_def h_def)
    have "sb_output (slirp_enqueue env fr s) = sb_output s
        @ [ether_frame (cf_mac (sb_config s)) (cf_gateway_mac (sb_config s)) 0x0800 (h @ y)]"
      using e r assms(7,11) by (simp add: handle_icmp_def slirp_emit_def emit_frame_def slirp_count_def Let_def OUTPUT_CAP_def)
    moreover have "20 + length y < 65536" using ipv4_payload_length [OF assms(2)] len by simp
    then have "ipv4_parse (h @ y) = Some \<lparr>ip_header = h, ip_src = ip_dst p, ip_dst = ip_src p,
        ip_protocol = PROTOCOL_ICMP, ip_more_fragments = False, ip_fragment_offset = 0, ip_payload = y\<rparr>"
      unfolding h_def by (intro ipv4_parse_built) simp_all
    moreover have "header_checksum_ok h" by (simp add: h_def build_header_ok)
    ultimately show ?thesis using True c y assms(7) by (auto simp del: append.simps)
  qed
qed

definition demo_slirp :: slirp where
  "demo_slirp = slirp_new slirp_defaults (Some (Ipv4Addr 8 8 8 8, 53)) 7"

definition demo_env :: net_env where
  "demo_env = \<lparr>ne_now = 0, ne_queue_ok = True, ne_send_ok = True, ne_datagrams = []\<rparr>"

definition demo_ping :: bytes where
  "demo_ping = build_header 28 PROTOCOL_ICMP (Ipv4Addr 10 0 2 15) (Ipv4Addr 10 0 2 2) 1 @ [8, 0, 0xF7, 0xFF, 0, 0, 0, 0]"

theorem echo_through_backend_witness:
  "\<exists>reply q. sb_output (slirp_enqueue demo_env (ether_frame (cf_gateway_mac slirp_defaults) (cf_mac slirp_defaults) 0x0800 demo_ping) demo_slirp)
       = [ether_frame (cf_mac slirp_defaults) (cf_gateway_mac slirp_defaults) 0x0800 reply]
     \<and> ipv4_parse reply = Some q \<and> checksum (ip_payload q) = 0"
proof -
  let ?fr = "ether_frame (cf_gateway_mac slirp_defaults) (cf_mac slirp_defaults) 0x0800 demo_ping"
  let ?p = "\<lparr>ip_header = build_header 28 PROTOCOL_ICMP (Ipv4Addr 10 0 2 15) (Ipv4Addr 10 0 2 2) 1, ip_src = Ipv4Addr 10 0 2 15,
    ip_dst = Ipv4Addr 10 0 2 2, ip_protocol = PROTOCOL_ICMP, ip_more_fragments = False, ip_fragment_offset = 0,
    ip_payload = [8, 0, 0xF7, 0xFF, 0, 0, 0, 0]\<rparr>"
  have fields: "sb_config demo_slirp = slirp_defaults" "sb_output demo_slirp = []"
    by (simp_all add: demo_slirp_def slirp_new_def)
  have "ether_parse ?fr = Some (cf_gateway_mac slirp_defaults, 0x0800, demo_ping)"
    unfolding ether_parse_def ether_frame_def to_be_2 by (simp add: slirp_defaults_def slice_def from_be_def)
  moreover have "ipv4_parse demo_ping = Some ?p" unfolding demo_ping_def by (rule ipv4_parse_built) simp_all
  moreover have "checksum [8, 0, 0xF7, 0xFF, 0, 0, 0, 0] = 0" by (simp add: checksum_zero_iff)
  ultimately show ?thesis
    using echo_through_backend [of ?fr demo_slirp demo_ping ?p demo_env] fields
    by (auto simp: build_header_ok slirp_defaults_def)
qed

lemma to_be_from_be: "to_be 2 (from_be [a, b] :: u16) = [a, b]"
proof -
  have "ucast (drop_bit 8 (from_be [a, b] :: u16)) = a" "ucast (from_be [a, b] :: u16) = b"
    by (rule bit_word_eqI; auto simp: from_be_def bit_unsigned_iff bit_drop_bit_eq bit_or_iff bit_push_bit_iff
        dest: bit_imp_le_length)+
  then show ?thesis by (simp add: to_be_2)
qed

text \<open>A well-formed query of the guest to the gateway.\<close>

definition dns_query_ok :: "net_config \<Rightarrow> ipv4_packet \<Rightarrow> bool" where
  "dns_query_ok config p \<longleftrightarrow> 20 \<le> length (ip_payload p) \<and> ip_dst p = cf_gateway_ip config
     \<and> (from_be [ip_payload p ! 2, ip_payload p ! 3] :: u16) = 53
     \<and> (from_be [ip_payload p ! 6, ip_payload p ! 7] :: u16)
         \<in> {0, transport_checksum (ip_src p) (ip_dst p) PROTOCOL_UDP (splice 6 [0, 0] (ip_payload p))}
     \<and> unat (from_be [ip_payload p ! 4, ip_payload p ! 5] :: u16) = length (ip_payload p)"

text \<open>
  C10: Forwarded DNS queries come back to their sender. A well-formed query is sent to the resolver
  verbatim except for a transaction id that no outstanding query uses, which is always found; and when
  the resolver answers under that id, the guest gets one packet from port 53 of the gateway to the port
  it asked from, with its own transaction id and otherwise the answer unchanged, and the entry is gone.
\<close>

theorem dns_relay:
  assumes "udp_wf u" "ud_upstream u = Some server" "dns_query_ok config p"
    "length (filter (\<lambda>(_, q). now - pq_created q < DNS_QUERY_TIMEOUT) (ud_pending u)) < MAX_PENDING_QUERIES"
    "udp_handle config queue_ok True now p (u, n) = (u1, n1)" "sd_receive (ud_system u) = []" "sd_table (ud_system u) = []"
  shows "\<exists>j. ud_sent u1 = ud_sent u @ [(splice 0 (to_be 2 j) (drop 8 (ip_payload p)), server)]
    \<and> (\<forall>q. now - pq_created q < DNS_QUERY_TIMEOUT \<longrightarrow> (j, q) \<notin> set (ud_pending u))
    \<and> (\<forall>answer now' out. 12 \<le> length answer \<and> length answer \<le> 4096 \<and> from_be [answer ! 0, answer ! 1] = j \<longrightarrow>
        no_packets (snd (udp_poll config now' [(answer, server)] u1 out)) = no_packets out
          @ [wrap_udp (cf_gateway_ip config) (cf_guest_ip config) 53 (from_be [ip_payload p ! 0, ip_payload p ! 1])
               (slice 8 2 (ip_payload p) @ drop 2 answer) (no_ip_id out)]
        \<and> map_of (ud_pending (fst (udp_poll config now' [(answer, server)] u1 out))) j = None)"
proof -
  obtain v m where v: "expire_pending now (u, n) = (v, m)" by fastforce
  let ?g = "from_be [ip_payload p ! 8, ip_payload p ! 9] :: u16"
  let ?port = "from_be [ip_payload p ! 0, ip_payload p ! 1] :: u16"
  have e: "length (ud_pending v) < MAX_PENDING_QUERIES" "ud_upstream v = Some server" "ud_sent v = ud_sent u" "ud_system v = ud_system u"
    using assms(2,4) v by (auto simp: expire_pending_def Let_def)
  then have "length (ud_pending v) < 65536" by (simp add: MAX_PENDING_QUERIES_def)
  from allocate_id_total [OF this] obtain j k where
    j: "allocate_id v = (Some j, v\<lparr>ud_next_id := k\<rparr>)" "map_of (ud_pending v) j = None" by blast
  have q: "20 \<le> length (ip_payload p)" "\<not> length (ip_payload p) - 8 < 12" "\<not> length (ip_payload p) < 8"
    using assms(3) by (auto simp: dns_query_ok_def)
  define entry where "entry = \<lparr>pq_guest_id = ?g, pq_guest_port = ?port, pq_created = now\<rparr>"
  have u1: "u1 = v\<lparr>ud_next_id := k, ud_sent := ud_sent u @ [(splice 0 (to_be 2 j) (drop 8 (ip_payload p)), server)],
      ud_pending := AList.update j entry (ud_pending v)\<rparr>"
    using assms(2,3,5) q e by (auto simp: udp_handle_def Let_def dns_query_ok_def v j(1) not_le entry_def)
  have g: "to_be 2 ?g = slice 8 2 (ip_payload p)"
  proof -
    have "slice 8 2 (ip_payload p) = [ip_payload p ! 8, ip_payload p ! 9]"
      by (rule nth_equalityI) (use q in \<open>auto simp: nth_slice less_Suc_eq numeral_2_eq_2\<close>)
    then show ?thesis by (simp add: to_be_from_be)
  qed
  have "no_packets (snd (udp_poll config now' [(answer, server)] u1 out)) = no_packets out
          @ [wrap_udp (cf_gateway_ip config) (cf_guest_ip config) 53 ?port (slice 8 2 (ip_payload p) @ drop 2 answer) (no_ip_id out)]
        \<and> map_of (ud_pending (fst (udp_poll config now' [(answer, server)] u1 out))) j = None"
    if a: "12 \<le> length answer" "length answer \<le> 4096" "from_be [answer ! 0, answer ! 1] = j" for answer now' out
  proof -
    let ?w = "\<lparr>ud_sent = ud_sent u1, ud_upstream = Some server, ud_pending = AList.delete j (ud_pending u1), ud_next_id = k, ud_system = ud_system u\<rparr>"
    have p: "map_of (ud_pending u1) j = Some entry" by (simp add: u1 AList.update_conv')
    have s: "sd_poll now' (ud_system u) = ([], ud_system u)"
      using assms(6,7) by (simp add: sd_poll_def)
    have l: "length (slice 8 2 (ip_payload p)) = 2" using q(1) by (simp add: slice_def)
    have r: "udp_receive config (answer, server) (u1, out)
        = (u1\<lparr>ud_pending := AList.delete j (ud_pending u1)\<rparr>, emit_answer config ?port (slice 8 2 (ip_payload p) @ drop 2 answer) out)"
      using a p g l e(2) by (simp add: udp_receive_def DNS_HEADER_BYTES_def u1 entry_def splice_def numeral_2_eq_2)
    have "map_of (filter P (AList.delete j (ud_pending u1))) j = None" for P
      by (auto simp: map_of_eq_None_iff AList.delete_eq)
    moreover have u: "u1\<lparr>ud_system := ud_system u\<rparr> = u1" "ud_system u1 = ud_system u" by (simp_all add: u1 e(4))
    ultimately show ?thesis
      using s r by (simp add: udp_poll_def Let_def u expire_pending_def emit_answer_def emit_def count_def next_identification_def)
  qed
  moreover have "(j, q) \<notin> set (ud_pending u)" if "now - pq_created q < DNS_QUERY_TIMEOUT" for q
    using j(2) v that by (force simp: expire_pending_def Let_def map_of_eq_None_iff)
  ultimately show ?thesis using u1 by auto
qed

definition demo_query :: ipv4_packet where
  "demo_query = \<lparr>ip_header = [], ip_src = Ipv4Addr 10 0 2 15, ip_dst = Ipv4Addr 10 0 2 2, ip_protocol = PROTOCOL_UDP,
     ip_more_fragments = False, ip_fragment_offset = 0,
     ip_payload = [0xA0, 0x28, 0, 53, 0, 20, 0, 0, 0xBE, 0xEF, 1, 0, 0, 1, 0, 0, 0, 0, 0, 0]\<rparr>"

theorem dns_relay_witness:
  "let u1 = fst (udp_handle slirp_defaults True True 0 demo_query (udp_new (Some (Ipv4Addr 8 8 8 8, 53)), net_counters_default))
   in \<exists>j :: u16. ud_sent u1 = [(to_be 2 j @ [1, 0, 0, 1, 0, 0, 0, 0, 0, 0], (Ipv4Addr 8 8 8 8, 53))]"
proof -
  let ?u = "udp_new (Some (Ipv4Addr 8 8 8 8, 53))"
  obtain u1 n1 where h: "udp_handle slirp_defaults True True 0 demo_query (?u, net_counters_default) = (u1, n1)" by fastforce
  have u: "udp_wf ?u" "ud_upstream ?u = Some (Ipv4Addr 8 8 8 8, 53)" "sd_receive (ud_system ?u) = []" "sd_table (ud_system ?u) = []"
    "ud_pending ?u = []" "ud_sent ?u = []"
    by (simp_all add: udp_wf_def udp_new_def system_dns_new_def)
  have d: "dns_query_ok slirp_defaults demo_query"
    by (simp add: dns_query_ok_def demo_query_def slirp_defaults_def from_be_def)
  have f: "length (filter (\<lambda>(_, q). 0 - pq_created q < DNS_QUERY_TIMEOUT) (ud_pending ?u)) < MAX_PENDING_QUERIES"
    by (simp add: u(5) MAX_PENDING_QUERIES_def)
  obtain j :: u16 where "ud_sent u1 = ud_sent ?u @ [(splice 0 (to_be 2 j) (drop 8 (ip_payload demo_query)), (Ipv4Addr 8 8 8 8, 53))]"
    using dns_relay [OF u(1,2) d f h u(3,4)] by blast
  with u(6) h show ?thesis
    by (auto simp: demo_query_def splice_def intro: exI [of _ j])
qed

end
