(* ===== verification/Spec2Isabelle.thy ===== *)
theory Spec2Isabelle
  imports Pic8259 Io_Apic Local_Apic Pit8254 Uart16550 Cmos_Rtc Virtqueue Device_Memory Virtio_Block
    Virtio_Block_Correct Virtio_Net Virtio_Net_Correct Guest_Memory Guest_Memory_Correct
    Cpu_State Paging Tlb Decode_Cache Cpu_Core Cpu_Interrupts Cpu_Step Translation_Correct
    Ops_Base Ops_Arithmetic Ops_Logic Ops_Branch Net_Packet Net_Packet_Correct Net_Tcp Net_Tcp_Correct Net_Dns Net_Slirp Net_Slirp_Correct
begin

text \<open>
  Verification of the software virtual machine of rish (\<open>src/crates/rish-softvm-core\<close>): the
  interpreter core, physical memory, the interrupt controllers, timers, serial line and clock, the
  virtio block and network devices, and the user-mode network stack behind the latter.

  \<^bold>\<open>The program.\<close> A guest runs on one processor (\<open>cpu/\<close>, \<open>arch/\<close>). The step loop fetches an
  instruction through the TLB and the decode cache, executes it, rolls back and delivers an exception
  when it faults, and every few instructions services the devices. Loads and stores go through
  paging to physical memory (\<open>memory.rs\<close>), which is RAM plus the register windows of the local APIC,
  the I/O APIC and the virtio devices; port instructions go through the port bus to PIC, PIT, UART and
  CMOS (\<open>devices/\<close>). A virtio device (\<open>virtio/\<close>) polls the rings its driver placed in RAM, moves data
  between RAM and a backend, and raises an interrupt line. The backend of the block device is a byte
  store, that of the network device a small host-side TCP/IP stack (\<open>net/\<close>).

  \<^bold>\<open>Conventions.\<close> \<open>u8\<close> to \<open>u64\<close> are words, so arithmetic wraps as in the source's \<open>wrapping_\<close> calls;
  checked and saturating arithmetic is written out (\<open>Rish_Prelude\<close>). \<open>usize\<close> is \<open>nat\<close>. A \<open>Result\<close> is a
  sum with the error on the left; a panic is an explicit outcome (\<open>None\<close>) where the guest can reach
  one. A struct is a record, a \<open>HashMap\<close> an association list with distinct keys whose order stands
  for the unspecified iteration order, a bounded channel a list with a flag for the dropped end,
  \<open>Instant\<close> a number of nanoseconds. \<open>&mut self\<close> methods return the new state. A trait is a record of
  its methods, and its contract a locale interpreted on the implementations of the source.
  Host I/O, the clock, threads and third-party code (the x86 decoder) are parameters.

  \<^bold>\<open>Theories.\<close>
  \<^item> \<open>Rish_Prelude\<close>: integer types, byte codecs, slices, and the lemmas they share.
  \<^item> \<open>Port_Bus\<close> (\<open>devices/mod.rs\<close>): the port device contract (locale \<open>port_device\<close>) and the bus. The
    contract is interpreted in \<open>Pic8259\<close>, \<open>Pit8254\<close>, \<open>Uart16550\<close> and \<open>Cmos_Rtc\<close>, one theory per file of
    \<open>devices/\<close> with the state machine of the chip and its theorems: acknowledge cycle, lost edges,
    half-programmed delivery (PIC); lossless batching of time (PIT); conservation of bytes (UART);
    the calendar algorithm against day counting and the register round trip (CMOS).
  \<^item> \<open>Io_Apic\<close>, \<open>Local_Apic\<close>: redirection and delivery per edge or level; the bitmaps refine a
    set-level controller, the timer does not depend on batching.
  \<^item> \<open>Virtqueue\<close> (\<open>virtio/queue.rs\<close>): split rings over the contract \<open>guest_memory\<close>; \<open>Device_Memory\<close>
    provides it with the adapter of \<open>memory.rs\<close>; descriptor chains, draining, termination.
  \<^item> \<open>Virtio_Block\<close>, \<open>Virtio_Block_Correct\<close> (\<open>virtio/block.rs\<close>, \<open>virtio/backend.rs\<close>): register file,
    request parsing and execution, kick handler; the locale \<open>block_backend\<close> is interpreted on the
    memory backend, \<open>blk_env\<close> combines both contracts. Requests refine a whole-buffer specification.
  \<^item> \<open>Virtio_Net\<close>, \<open>Virtio_Net_Correct\<close> (\<open>virtio/net.rs\<close>): transmit, receive, backlog, bounds.
  \<^item> \<open>Guest_Memory\<close>, \<open>Guest_Memory_Correct\<close> (\<open>memory.rs\<close>): dispatch, page counters, interrupt
    forwarding; RAM as a byte array, invalidation of cached code, redelivery of level interrupts.
  \<^item> \<open>Cpu_Error\<close>, \<open>Cpu_State\<close>, \<open>Paging\<close>, \<open>Tlb\<close>, \<open>Decode_Cache\<close>, \<open>Cpu_Core\<close>, \<open>Cpu_Interrupts\<close>, \<open>Cpu_Step\<close>
    (\<open>error.rs\<close>, \<open>arch/\<close>, \<open>cpu/\<close>): the processor up to the semantics of single instructions.
    \<open>Translation_Correct\<close>: the walks implement a radix walk, the TLB changes no result, user code
    reaches only pages all of whose levels allow it, linear accesses are byte-wise.
  \<^item> \<open>Ops_Base\<close>, \<open>Ops_Arithmetic\<close>, \<open>Ops_Logic\<close>, \<open>Ops_Branch\<close> (\<open>ops/mod.rs\<close>, \<open>ops/arithmetic.rs\<close>,
    \<open>ops/logic.rs\<close>, \<open>ops/branch.rs\<close>, \<open>ops/stack.rs\<close>): the integer instructions over the accessors of a
    decoded instruction, one definition per implementation.
  \<^item> \<open>Net_Packet\<close>, \<open>Net_Packet_Correct\<close> (\<open>net/ether.rs\<close>, \<open>net/ipv4.rs\<close>, \<open>net/tcp_segment.rs\<close>): parsers,
    builders, checksums; the parsers invert the builders and accept their checksums.
  \<^item> \<open>Net_Tcp\<close>, \<open>Net_Tcp_Correct\<close> (\<open>net/tcp.rs\<close>, \<open>net/tcp_fin.rs\<close>): the TCP proxy; stream integrity under
    every interleaving of guest segments, host events and polls.
  \<^item> \<open>Net_Dns\<close> (\<open>net/udp.rs\<close>, \<open>net/system_dns.rs\<close>), \<open>Net_Slirp\<close>, \<open>Net_Slirp_Correct\<close> (\<open>net/mod.rs\<close>): DNS
    forwarding and the backend; caps on everything a guest can make the host keep, DNS relay, echo.

  \<^bold>\<open>Bounds and fuel.\<close> Loops are total functions with a measure (bytes left, descriptors left, the
  distance of a 16-bit cursor) except the fault delivery loop of one step: \<open>execute_one\<close> retries
  the instruction after each page fault it delivers to the guest, which may repeat for ever, so it is
  a \<open>partial_function\<close> whose value \<open>None\<close> is not returning.

  \<^bold>\<open>Not modelled.\<close> The step loop takes the semantics of an instruction as a parameter. Of the
  implementations under \<open>ops/\<close> the floating point, SSE and x87 ones use host floating point; data movement,
  string and system instructions and the dispatch table of \<open>cpu/dispatch.rs\<close> are left out. The threads of
  \<open>net/host.rs\<close> and the resolver workers appear through their channels. Boot images and ACPI tables
  (\<open>boot/\<close>), the engine and provider crates (\<open>rish-softvm-x86_64\<close>, \<open>rish-vm\<close>, \<open>rish-ffi\<close>) are threads, raw
  pointers and files. The container tool chain around the machine (registry client, image pull,
  content store, layers, snapshots, planner, guest agent and importer, applets, command line) is
  mostly I/O over HTTP, tar and the host file system, and is not part of this development.
\<close>

end
